(* ===== verification/Prelude.thy ===== *)
theory Prelude
  imports Main "HOL-Library.Word"
begin

text \<open>
  What every component shares: the machine types of the Rust code, the three ways a Rust
  function ends (a value, an \<open>Err\<close>, a panic), the standard library functions on integers and
  strings the sources call, and generic lemmas on lists and words.

  Conventions. A \<open>[u8; N]\<close> or a \<open>Vec<u8>\<close> is a list of 8-bit words; that a value is an array
  of \<open>N\<close> bytes is a length fact. A Rust \<open>String\<close> is its UTF-8 bytes, a \<open>string\<close> (list of 8-bit
  characters). \<open>usize\<close> is 64 bits: lengths are \<open>nat\<close>.
\<close>

named_theorems model_defs \<open>definitions unfolded when a component is executed\<close>
named_theorems wf_rules \<open>well-formedness facts of the model's data\<close>

unbundle bit_operations_syntax

section \<open>Machine types\<close>

type_synonym u8 = "8 word"
type_synonym u16 = "16 word"
type_synonym u32 = "32 word"
type_synonym u64 = "64 word"
type_synonym bytes = "u8 list"
type_synonym pubkey = bytes

abbreviation is_array :: "nat \<Rightarrow> bytes \<Rightarrow> bool" where
  "is_array n bs \<equiv> length bs = n"

section \<open>Outcomes\<close>

text \<open>
  \<open>Ok\<close> and \<open>Err\<close> are Rust's \<open>Result\<close>; \<open>Panic\<close> is an unwinding panic (\<open>expect\<close> on a failure,
  an arithmetic overflow under \<open>overflow-checks\<close>).
\<close>

datatype ('e, 'a) outcome = Ok 'a | Err 'e | Panic

fun obind :: "('e, 'a) outcome \<Rightarrow> ('a \<Rightarrow> ('e, 'b) outcome) \<Rightarrow> ('e, 'b) outcome" where
  "obind (Ok x) f = f x"
| "obind (Err e) f = Err e"
| "obind Panic f = Panic"

fun omap_err :: "('e \<Rightarrow> 'f) \<Rightarrow> ('e, 'a) outcome \<Rightarrow> ('f, 'a) outcome" where
  "omap_err g (Ok x) = Ok x"
| "omap_err g (Err e) = Err (g e)"
| "omap_err g Panic = Panic"

text \<open>\<open>opt.ok_or(e)\<close> and \<open>opt.expect(..)\<close>.\<close>

fun ok_or :: "'e \<Rightarrow> 'a option \<Rightarrow> ('e, 'a) outcome" where
  "ok_or e (Some x) = Ok x"
| "ok_or e None = Err e"

fun expect_some :: "'a option \<Rightarrow> ('e, 'a) outcome" where
  "expect_some (Some x) = Ok x"
| "expect_some None = Panic"

text \<open>\<open>&d[..n]\<close> and \<open>&d[n..]\<close>: a panic when the slice is shorter than \<open>n\<close>.\<close>

definition slice_to :: "nat \<Rightarrow> 'a list \<Rightarrow> ('e, 'a list) outcome" where
  "slice_to n d = (if length d < n then Panic else Ok (take n d))"

definition slice_from :: "nat \<Rightarrow> 'a list \<Rightarrow> ('e, 'a list) outcome" where
  "slice_from n d = (if length d < n then Panic else Ok (drop n d))"

lemma slice_in_bounds [simp]:
  "n \<le> length d \<Longrightarrow> slice_to n d = Ok (take n d)"
  "n \<le> length d \<Longrightarrow> slice_from n d = Ok (drop n d)"
  by (simp_all add: slice_to_def slice_from_def)

lemma obind_Ok_iff: "obind r f = Ok y \<longleftrightarrow> (\<exists>x. r = Ok x \<and> f x = Ok y)"
  by (cases r) auto

lemma Ok_obind_iff: "Ok y = obind r f \<longleftrightarrow> (\<exists>x. r = Ok x \<and> f x = Ok y)"
  by (cases r) auto

lemma omap_err_Ok_iff [simp]: "omap_err g r = Ok y \<longleftrightarrow> r = Ok y"
  by (cases r) auto

lemma omap_err_Panic_iff [simp]: "omap_err g r = Panic \<longleftrightarrow> r = Panic"
  by (cases r) auto

lemma ok_or_Ok_iff [simp]: "ok_or e m = Ok x \<longleftrightarrow> m = Some x"
  by (cases m) auto

lemma expect_some_Ok_iff [simp]: "expect_some m = Ok x \<longleftrightarrow> m = Some x"
  by (cases m) auto

lemma obind_Panic_iff: "obind r f = Panic \<longleftrightarrow> r = Panic \<or> (\<exists>x. r = Ok x \<and> f x = Panic)"
  by (cases r) auto

section \<open>Integers\<close>

text \<open>
  \<open>a + b\<close> on \<open>u64\<close> with \<open>overflow-checks = true\<close> (the workspace's release profile, and the
  default of the dev profile): a panic when the sum does not fit; and \<open>checked_add\<close>.
\<close>

definition add_u64 :: "u64 \<Rightarrow> u64 \<Rightarrow> ('e, u64) outcome" where
  "add_u64 a b = (if unat a + unat b < 2 ^ 64 then Ok (a + b) else Panic)"

definition checked_add_u64 :: "u64 \<Rightarrow> u64 \<Rightarrow> u64 option" where
  "checked_add_u64 a b = (if unat a + unat b < 2 ^ 64 then Some (a + b) else None)"

lemma unat_add_u64:
  fixes a b :: u64
  assumes "unat a + unat b < 2 ^ 64"
  shows "unat (a + b) = unat a + unat b"
  using assms by (simp add: unat_word_ariths)

lemma checked_add_u64_Some_iff:
  "checked_add_u64 a b = Some c \<longleftrightarrow> unat a + unat b < 2 ^ 64 \<and> c = a + b"
  by (auto simp: checked_add_u64_def)

lemma unat_u64_less: "unat (w :: u64) < 2 ^ 64"
proof -
  have "unat w < 2 ^ LENGTH(64)" by (rule unsigned_less)
  then show ?thesis by simp
qed

text \<open>\<open>to_le_bytes\<close> and \<open>to_be_bytes\<close>.\<close>

definition u16_to_le_bytes :: "u16 \<Rightarrow> bytes" where
  "u16_to_le_bytes w = [ucast w, ucast (drop_bit 8 w)]"

definition u32_to_be_bytes :: "u32 \<Rightarrow> bytes" where
  "u32_to_be_bytes w =
     [ucast (drop_bit 24 w), ucast (drop_bit 16 w), ucast (drop_bit 8 w), ucast w]"

lemma word_eq_from_bits:
  fixes a b :: "'a::len word"
  assumes "\<And>i. i < LENGTH('a) \<Longrightarrow> bit a i = bit b i"
  shows "a = b"
  using assms by (intro bit_word_eqI) auto

lemma u16_to_le_bytes_inj: "u16_to_le_bytes a = u16_to_le_bytes b \<longleftrightarrow> a = b"
proof
  assume "u16_to_le_bytes a = u16_to_le_bytes b"
  then have lo: "(ucast a :: u8) = ucast b"
    and hi: "(ucast (drop_bit 8 a) :: u8) = ucast (drop_bit 8 b)"
    by (simp_all add: u16_to_le_bytes_def)
  show "a = b"
  proof (rule word_eq_from_bits)
    fix i :: nat
    assume i: "i < LENGTH(16)"
    show "bit a i = bit b i"
    proof (cases "i < 8")
      case True
      then show ?thesis
        using arg_cong [OF lo, of "\<lambda>w. bit w i"] by (simp add: bit_ucast_iff)
    next
      case False
      with i have "i - 8 < 8" and "8 + (i - 8) = i" by auto
      then show ?thesis
        using arg_cong [OF hi, of "\<lambda>w. bit w (i - 8)"]
        by (simp add: bit_ucast_iff bit_drop_bit_eq)
    qed
  qed
qed simp

lemma length_u16_to_le_bytes [simp]: "length (u16_to_le_bytes w) = 2"
  by (simp add: u16_to_le_bytes_def)

section \<open>Decimal and hexadecimal text\<close>

text \<open>\<open>Display\<close> of an unsigned integer, and of one hexadecimal digit.\<close>

definition dec_digit :: "nat \<Rightarrow> char" where
  "dec_digit n = char_of (48 + n)"

fun show_nat :: "nat \<Rightarrow> string" where
  "show_nat n = (if n < 10 then [dec_digit n] else show_nat (n div 10) @ [dec_digit (n mod 10)])"

declare show_nat.simps [simp del]

definition hex_digit :: "nat \<Rightarrow> char" where
  "hex_digit n = char_of (if n < 10 then 48 + n else 87 + n)"

text \<open>\<open>{:02x}\<close> and \<open>{:#x}\<close> of a byte.\<close>

definition show_02x :: "u8 \<Rightarrow> string" where
  "show_02x b = [hex_digit (unat b div 16), hex_digit (unat b mod 16)]"

definition show_alt_x :: "u8 \<Rightarrow> string" where
  "show_alt_x b =
     ''0x'' @ (if unat b < 16 then [hex_digit (unat b)] else show_02x b)"

text \<open>
  \<open>str::parse::<u64>()\<close>: empty is an error, one leading \<open>+\<close> is skipped unless it is the whole
  text, every other character must be a decimal digit, and the value must not overflow.
\<close>

fun parse_digits :: "nat \<Rightarrow> string \<Rightarrow> nat option" where
  "parse_digits acc [] = Some acc"
| "parse_digits acc (c # cs) =
     (let d = of_char c :: nat in
      if 48 \<le> d \<and> d \<le> 57 then
        (let acc' = acc * 10 + (d - 48) in
         if acc' < 2 ^ 64 then parse_digits acc' cs else None)
      else None)"

definition parse_u64 :: "string \<Rightarrow> u64 option" where
  "parse_u64 s =
     (case s of
        [] \<Rightarrow> None
      | c # cs \<Rightarrow>
          map_option of_nat
            (if c = CHR ''+'' \<and> cs \<noteq> [] then parse_digits 0 cs else parse_digits 0 s))"

lemma of_char_dec_digit: "n < 10 \<Longrightarrow> (of_char (dec_digit n) :: nat) = 48 + n"
  by (simp add: dec_digit_def)

lemma show_nat_nonempty [simp]: "show_nat n \<noteq> []"
  by (subst show_nat.simps) simp

lemma show_nat_digits: "c \<in> set (show_nat n) \<Longrightarrow> \<exists>d<10. c = dec_digit d"
proof (induction n rule: show_nat.induct)
  case (1 n)
  show ?case
  proof (cases "n < 10")
    case True
    with "1.prems" show ?thesis by (auto simp: show_nat.simps [of n])
  next
    case False
    with "1.prems" consider "c \<in> set (show_nat (n div 10))" | "c = dec_digit (n mod 10)"
      by (auto simp: show_nat.simps [of n])
    then show ?thesis using "1.IH" False by cases (auto intro: exI [of _ "n mod 10"])
  qed
qed

lemma parse_digits_append:
  "parse_digits acc (xs @ ys) = Option.bind (parse_digits acc xs) (\<lambda>a. parse_digits a ys)"
  by (induction xs arbitrary: acc) (auto simp: Let_def)

lemma parse_digits_show_nat: "n < 2 ^ 64 \<Longrightarrow> parse_digits 0 (show_nat n) = Some n"
proof (induction n rule: show_nat.induct)
  case (1 n)
  show ?case
  proof (cases "n < 10")
    case True
    then show ?thesis
      by (simp add: show_nat.simps [of n] of_char_dec_digit Let_def)
  next
    case False
    with "1.prems" have "n div 10 < 2 ^ 64" by simp
    with "1.IH" False have "parse_digits 0 (show_nat (n div 10)) = Some (n div 10)" by simp
    with False "1.prems" show ?thesis
      by (simp add: show_nat.simps [of n] parse_digits_append of_char_dec_digit Let_def)
  qed
qed

lemma parse_u64_show_nat: "parse_u64 (show_nat (unat w)) = Some w"
proof -
  have digits: "parse_digits 0 (show_nat (unat w)) = Some (unat w)"
    by (rule parse_digits_show_nat) (rule unat_u64_less)
  obtain c cs where s: "show_nat (unat w) = c # cs"
    by (cases "show_nat (unat w)") auto
  then obtain d where "d < 10" and "c = dec_digit d"
    using show_nat_digits [of c "unat w"] by auto
  then have "(of_char c :: nat) \<noteq> of_char (CHR ''+'')"
    by (simp add: of_char_dec_digit)
  then have "c \<noteq> CHR ''+''" by blast
  with digits s show ?thesis
    by (simp add: parse_u64_def)
qed

section \<open>Strings\<close>

abbreviation newline :: char where
  "newline \<equiv> CHR 0x0A"

text \<open>A byte string literal \<open>b"..."\<close>, and \<open>String::as_bytes\<close>.\<close>

definition ascii :: "string \<Rightarrow> bytes" where
  "ascii s = map (\<lambda>c. of_char c) s"

text \<open>What a writer that may fail has written, for a writer known to succeed.\<close>

fun written :: "bytes option \<Rightarrow> bytes" where
  "written (Some w) = w"
| "written None = []"

text \<open>\<open>str::strip_prefix\<close>, \<open>str::contains\<close>, \<open>to_ascii_lowercase\<close>.\<close>

fun strip_prefix :: "string \<Rightarrow> string \<Rightarrow> string option" where
  "strip_prefix [] s = Some s"
| "strip_prefix (p # ps) [] = None"
| "strip_prefix (p # ps) (c # cs) = (if p = c then strip_prefix ps cs else None)"

fun str_contains :: "string \<Rightarrow> string \<Rightarrow> bool" where
  "str_contains sub [] = (sub = [])"
| "str_contains sub (c # cs) = (strip_prefix sub (c # cs) \<noteq> None \<or> str_contains sub cs)"

definition ascii_lower :: "char \<Rightarrow> char" where
  "ascii_lower c =
     (let n = of_char c :: nat in if 65 \<le> n \<and> n \<le> 90 then char_of (n + 32) else c)"

definition to_ascii_lowercase :: "string \<Rightarrow> string" where
  "to_ascii_lowercase s = map ascii_lower s"

lemma strip_prefix_append [simp]: "strip_prefix p (p @ s) = Some s"
  by (induction p) auto

lemma strip_prefix_Some_iff: "strip_prefix p s = Some r \<longleftrightarrow> s = p @ r"
  by (induction p s rule: strip_prefix.induct) auto

text \<open>
  \<open>str::trim\<close>: the UTF-8 encodings of the characters with the Unicode property
  \<open>White_Space\<close> are removed at both ends.
\<close>

definition white_space :: "string list" where
  "white_space =
     [[CHR 0x09], [CHR 0x0A], [CHR 0x0B], [CHR 0x0C], [CHR 0x0D], [CHR 0x20],
      [CHR 0xC2, CHR 0x85], [CHR 0xC2, CHR 0xA0], [CHR 0xE1, CHR 0x9A, CHR 0x80]]
     @ map (\<lambda>n. [CHR 0xE2, CHR 0x80, char_of n]) [0x80 ..< 0x8B]
     @ [[CHR 0xE2, CHR 0x80, CHR 0xA8], [CHR 0xE2, CHR 0x80, CHR 0xA9],
        [CHR 0xE2, CHR 0x80, CHR 0xAF], [CHR 0xE2, CHR 0x81, CHR 0x9F],
        [CHR 0xE3, CHR 0x80, CHR 0x80]]"

fun first_strip :: "string list \<Rightarrow> string \<Rightarrow> string option" where
  "first_strip [] s = None"
| "first_strip (w # ws) s =
     (case strip_prefix w s of Some r \<Rightarrow> Some r | None \<Rightarrow> first_strip ws s)"

lemma first_strip_Some: "first_strip ws s = Some r \<Longrightarrow> \<exists>w \<in> set ws. s = w @ r"
  by (induction ws s rule: first_strip.induct)
    (auto simp: strip_prefix_Some_iff split: option.splits)

lemma first_strip_None: "first_strip ws s = None \<longleftrightarrow> (\<forall>w \<in> set ws. strip_prefix w s = None)"
  by (induction ws s rule: first_strip.induct) (auto split: option.splits)

lemma white_space_nonempty: "w \<in> set white_space \<Longrightarrow> w \<noteq> []"
  by (auto simp: white_space_def)

text \<open>Stripping repeats while something is stripped; each round shortens the text.\<close>

function strip_while :: "string list \<Rightarrow> string \<Rightarrow> string" where
  "strip_while ws s =
     (case first_strip ws s of
        Some r \<Rightarrow> (if length r < length s then strip_while ws r else s)
      | None \<Rightarrow> s)"
  by pat_completeness auto
termination
  by (relation "measure (\<lambda>(ws, s). length s)") auto

declare strip_while.simps [simp del]

definition trim_start :: "string \<Rightarrow> string" where
  "trim_start s = strip_while white_space s"

definition trim_end :: "string \<Rightarrow> string" where
  "trim_end s = rev (strip_while (map rev white_space) (rev s))"

definition trim :: "string \<Rightarrow> string" where
  "trim s = trim_end (trim_start s)"

text \<open>A text that neither starts nor ends with white space is its own trim.\<close>

definition trimmed :: "string \<Rightarrow> bool" where
  "trimmed s \<longleftrightarrow>
     (\<forall>w \<in> set white_space. strip_prefix w s = None \<and> strip_prefix (rev w) (rev s) = None)"

lemma trim_trimmed [simp]: "trimmed s \<Longrightarrow> trim s = s"
proof -
  assume t: "trimmed s"
  have "first_strip white_space s = None" and "first_strip (map rev white_space) (rev s) = None"
    using t by (auto simp: trimmed_def first_strip_None)
  then show "trim s = s"
    by (simp add: trim_def trim_start_def trim_end_def
        strip_while.simps [of white_space s] strip_while.simps [of "map rev white_space" "rev s"])
qed

text \<open>
  A sufficient condition that is easy to check: a text over printable ASCII (no white space
  begins or ends with such a character, other than the space itself).
\<close>

definition printable :: "char \<Rightarrow> bool" where
  "printable c \<longleftrightarrow> (let n = of_char c :: nat in 0x21 \<le> n \<and> n \<le> 0x7E)"

lemma white_space_not_printable:
  assumes "w \<in> set white_space" shows "\<not> printable (hd w) \<and> \<not> printable (last w)"
proof -
  have "\<forall>w \<in> set white_space. \<not> printable (hd w) \<and> \<not> printable (last w)"
    by (simp add: white_space_def printable_def Let_def)
  with assms show ?thesis by blast
qed

lemma strip_prefix_not_printable:
  assumes "w \<noteq> []" "\<not> printable (hd w)" "\<forall>c \<in> set s. printable c"
  shows "strip_prefix w s = None"
  using assms by (cases w; cases s) auto

lemma printable_trimmed:
  assumes "\<forall>c \<in> set s. printable c" shows "trimmed s"
  unfolding trimmed_def
proof (intro ballI conjI)
  fix w assume w: "w \<in> set white_space"
  note ne = white_space_nonempty [OF w] and np = white_space_not_printable [OF w]
  show "strip_prefix w s = None"
    using ne np assms by (intro strip_prefix_not_printable) auto
  show "strip_prefix (rev w) (rev s) = None"
    using ne np assms by (intro strip_prefix_not_printable) (auto simp: hd_rev)
qed

section \<open>Lists\<close>

text \<open>Keep the last \<open>n\<close> elements: what a bounded sliding window holds.\<close>

definition keep_last :: "nat \<Rightarrow> 'a list \<Rightarrow> 'a list" where
  "keep_last n xs = drop (length xs - n) xs"

lemma takeWhile_all [simp]: "\<forall>x \<in> set xs. P x \<Longrightarrow> takeWhile P xs = xs"
  by (induction xs) auto

lemma length_keep_last [simp]: "length (keep_last n xs) = min n (length xs)"
  by (auto simp: keep_last_def)

lemma keep_last_small [simp]: "length xs \<le> n \<Longrightarrow> keep_last n xs = xs"
  by (simp add: keep_last_def)

lemma keep_last_append_one:
  "keep_last n (keep_last n xs @ [x]) = keep_last n (xs @ [x])"
proof (cases "length xs \<le> n")
  case True
  then show ?thesis by simp
next
  case False
  then have "length (keep_last n xs) = n" by simp
  with False show ?thesis
    by (cases n) (auto simp: keep_last_def Suc_diff_Suc)
qed

lemma keep_last_snoc_full:
  "0 < n \<Longrightarrow> length xs = n \<Longrightarrow> keep_last n (xs @ [x]) = tl xs @ [x]"
  by (cases xs) (auto simp: keep_last_def)

lemma keep_last_suffix: "\<exists>ys. xs = ys @ keep_last n xs"
  by (rule exI [of _ "take (length xs - n) xs"]) (simp add: keep_last_def)

lemma set_keep_last: "set (keep_last n xs) \<subseteq> set xs"
  by (simp add: keep_last_def set_drop_subset)

lemma sorted_wrt_keep_last: "sorted_wrt P xs \<Longrightarrow> sorted_wrt P (keep_last n xs)"
  by (simp add: keep_last_def sorted_wrt_drop)

lemma length_filter_filter: "length (filter P (filter Q xs)) \<le> length (filter P xs)"
  by (induction xs) auto

text \<open>In an ordered list the elements from a key on are those at the key, then those above it.\<close>

lemma sorted_filter_split:
  "sorted (map f xs) \<Longrightarrow>
     filter (\<lambda>a. t \<le> f a) xs = filter (\<lambda>a. f a = t) xs @ filter (\<lambda>a. t < f a) xs"
proof (induction xs)
  case (Cons a xs)
  have "filter (\<lambda>a. f a = t) xs = []" if "t < f a"
    using Cons.prems that by (auto simp: filter_empty_conv)
  with Cons show ?case by auto
qed simp

end
