(* ===== verification/Errors.thy ===== *)
theory Errors
  imports Prelude
begin

text \<open>
  \<open>crates/slnt-sdk/src/error.rs\<close>: the SDK's error type and the messages \<open>thiserror\<close> derives from
  its \<open>#[error(..)]\<close> attributes (the CLI prints them). Characters outside ASCII are written as
  their UTF-8 bytes.
\<close>

datatype slnt_error =
    Derivation
  | InvalidPoint
  | InvalidSharedSecret
  | MetaAddressEncode
  | MetaAddressDecode string
  | UnsupportedVersion u8
  | UnsupportedFlags u8
  | MetadataTooLong nat
  | Base58
  | Rpc string
  | CloseToMainWallet
  | RelayerTakeTooLarge u64 u64
  | LamportOverflow u64 u64
  | NonDeterministicSignature
  | InvalidSeedLength nat

abbreviation em_dash :: string where
  "em_dash \<equiv> [CHR 0xE2, CHR 0x80, CHR 0x94]"
abbreviation en_dash :: string where
  "en_dash \<equiv> [CHR 0xE2, CHR 0x80, CHR 0x93]"
abbreviation right_arrow :: string where
  "right_arrow \<equiv> [CHR 0xE2, CHR 0x86, CHR 0x92]"
abbreviation section_sign :: string where
  "section_sign \<equiv> [CHR 0xC2, CHR 0xA7]"

fun slnt_error_to_string :: "slnt_error \<Rightarrow> string" where
  "slnt_error_to_string Derivation =
     ''key derivation failed (signature produced anomalous scalar)''"
| "slnt_error_to_string InvalidPoint = ''invalid or non-spendable Ed25519 point''"
| "slnt_error_to_string InvalidSharedSecret = ''invalid X25519 shared secret (all zero)''"
| "slnt_error_to_string MetaAddressEncode = ''meta-address encoding failed''"
| "slnt_error_to_string (MetaAddressDecode m) = ''meta-address decoding failed: '' @ m"
| "slnt_error_to_string (UnsupportedVersion v) =
     ''unsupported meta-address version: '' @ show_alt_x v"
| "slnt_error_to_string (UnsupportedFlags v) =
     ''unsupported meta-address flags: '' @ show_alt_x v"
| "slnt_error_to_string (MetadataTooLong n) =
     ''note metadata exceeds 64 bytes (got '' @ show_nat n @ '')''"
| "slnt_error_to_string Base58 = ''base58 decode failed''"
| "slnt_error_to_string (Rpc m) = ''rpc error: '' @ m"
| "slnt_error_to_string CloseToMainWallet =
     ''close/rent destination is the recipient'' @ [CHR 0x27] @ ''s main wallet '' @ em_dash
     @ '' this would create a stealth'' @ right_arrow @ ''main link (sRFC '' @ section_sign
     @ ''5.9)''"
| "slnt_error_to_string (RelayerTakeTooLarge taken balance) =
     ''relayer take ('' @ show_nat (unat taken) @ '') exceeds the swept balance (''
     @ show_nat (unat balance) @ '')''"
| "slnt_error_to_string (LamportOverflow amount rent_buffer) =
     ''lamport amount overflow: amount ('' @ show_nat (unat amount) @ '') + rent buffer (''
     @ show_nat (unat rent_buffer) @ '') exceeds u64''"
| "slnt_error_to_string NonDeterministicSignature =
     ''non-deterministic signature: two signings of the canonical message differ '' @ em_dash
     @ '' this wallet cannot be used with Method 2 (sRFC '' @ section_sign @ ''5.2.1.2/''
     @ section_sign @ ''8.5)''"
| "slnt_error_to_string (InvalidSeedLength n) =
     ''invalid HD seed length '' @ show_nat n @ '': SLIP-0010 requires 16'' @ en_dash
     @ ''64 bytes''"

end
