(* ===== verification/Interfaces.thy ===== *)
theory Interfaces
  imports Prelude
begin

text \<open>
  The contracts between components, as locales. A provider interprets the locale on its own
  operations; a client uses the lemmas proved once here.

  \<^item> \<open>codec\<close>: a writer and a reader of one value in front of more bytes (LEB128, the borsh layouts
    of the instructions, events and accounts); \<open>sized_codec\<close> adds a fixed width.
  \<^item> \<open>window\<close>: a container bounded by a capacity that drops its oldest entries (the indexer's
    store, the announcer's status history).
  \<^item> \<open>fifo\<close>: a bounded queue drained in batches (the announcer's pending queue).
  \<^item> \<open>keyed_store\<close>: one entry per key, created, overwritten and deleted (the registry's accounts).
  \<^item> \<open>invariant_system\<close>: a transition system with an invariant (the registry's ledger, the
    announcement service).
\<close>

section \<open>Codecs\<close>

text \<open>
  Reading \<open>n\<close> values in sequence; and reading one value that must use up all the bytes
  (\<open>BorshDeserialize::try_from_slice\<close>, whose complaint about left-over bytes is the first
  argument).
\<close>

fun dec_n :: "(bytes \<Rightarrow> ('e, 'a \<times> bytes) outcome) \<Rightarrow> nat \<Rightarrow> bytes \<Rightarrow> ('e, 'a list \<times> bytes) outcome" where
  "dec_n dec 0 bs = Ok ([], bs)"
| "dec_n dec (Suc n) bs =
     obind (dec bs) (\<lambda>(x, bs'). obind (dec_n dec n bs') (\<lambda>(xs, bs''). Ok (x # xs, bs'')))"

definition dec_all :: "'e \<Rightarrow> (bytes \<Rightarrow> ('e, 'a \<times> bytes) outcome) \<Rightarrow> bytes \<Rightarrow> ('e, 'a) outcome" where
  "dec_all left_over dec bs =
     obind (dec bs) (\<lambda>(x, rest). if rest = [] then Ok x else Err left_over)"

locale codec =
  fixes valid :: "'a \<Rightarrow> bool"
    and enc :: "'a \<Rightarrow> bytes"
    and dec :: "bytes \<Rightarrow> ('e, 'a \<times> bytes) outcome"
  assumes dec_enc: "valid x \<Longrightarrow> dec (enc x @ rest) = Ok (x, rest)"
begin

lemma dec_enc_whole: "valid x \<Longrightarrow> dec (enc x) = Ok (x, [])"
  using dec_enc [of x "[]"] by simp

lemma dec_all_enc: "valid x \<Longrightarrow> dec_all e dec (enc x) = Ok x"
  by (simp add: dec_all_def dec_enc_whole)

lemma dec_all_left_over: "valid x \<Longrightarrow> rest \<noteq> [] \<Longrightarrow> dec_all e dec (enc x @ rest) = Err e"
  by (simp add: dec_all_def dec_enc)

lemma enc_prefix_free:
  assumes "valid x" "valid y" "enc x @ r = enc y @ s"
  shows "x = y \<and> r = s"
proof -
  have "dec (enc x @ r) = dec (enc y @ s)" using assms(3) by (rule arg_cong)
  then show ?thesis by (simp add: dec_enc assms(1,2))
qed

lemma enc_inj: "valid x \<Longrightarrow> valid y \<Longrightarrow> enc x = enc y \<Longrightarrow> x = y"
  using enc_prefix_free [of x y "[]" "[]"] by simp

lemma dec_n_enc:
  "\<forall>x \<in> set xs. valid x \<Longrightarrow> dec_n dec (length xs) (concat (map enc xs) @ rest) = Ok (xs, rest)"
  by (induction xs) (auto simp: dec_enc)

end

locale sized_codec = codec +
  fixes width :: nat
  assumes length_enc: "valid x \<Longrightarrow> length (enc x) = width"
begin

lemma length_enc_list: "\<forall>x \<in> set xs. valid x \<Longrightarrow> length (concat (map enc xs)) = width * length xs"
  by (induction xs) (auto simp: length_enc)

end

section \<open>Bounded windows\<close>

locale window =
  fixes good :: "'s \<Rightarrow> bool"
    and contents :: "'s \<Rightarrow> 'a list"
    and bound :: "'s \<Rightarrow> nat"
    and push :: "'s \<Rightarrow> 'a \<Rightarrow> 's"
  assumes bounded: "good s \<Longrightarrow> length (contents s) \<le> bound s"
    and good_push: "good s \<Longrightarrow> good (push s x)"
    and bound_push: "good s \<Longrightarrow> bound (push s x) = bound s"
    and contents_push: "good s \<Longrightarrow> contents (push s x) = keep_last (bound s) (contents s @ [x])"
begin

lemma good_pushes: "good s \<Longrightarrow> good (foldl push s xs)"
  by (induction xs arbitrary: s) (auto simp: good_push)

lemma bound_pushes: "good s \<Longrightarrow> bound (foldl push s xs) = bound s"
  by (induction xs arbitrary: s) (auto simp: good_push bound_push)

lemma contents_pushes:
  "good s \<Longrightarrow> contents (foldl push s xs) = keep_last (bound s) (contents s @ xs)"
proof (induction xs rule: rev_induct)
  case Nil
  then show ?case by (simp add: bounded)
next
  case (snoc x xs)
  then have IH: "contents (foldl push s xs) = keep_last (bound s) (contents s @ xs)" by simp
  from snoc.prems have good: "good (foldl push s xs)" by (rule good_pushes)
  have "contents (foldl push s (xs @ [x])) =
      keep_last (bound s) (keep_last (bound s) (contents s @ xs) @ [x])"
    using IH contents_push [OF good, of x] bound_pushes [OF snoc.prems, of xs] by simp
  then show ?case by (simp add: keep_last_append_one)
qed

lemma length_contents_pushes: "good s \<Longrightarrow> length (contents (foldl push s xs)) \<le> bound s"
  by (simp add: contents_pushes)

end

section \<open>FIFO queues\<close>

locale fifo =
  fixes view :: "'s \<Rightarrow> 'a list"
    and room :: "'s \<Rightarrow> bool"
    and put :: "'s \<Rightarrow> 'a \<Rightarrow> 's"
    and get :: "nat \<Rightarrow> 's \<Rightarrow> 'a list \<times> 's"
  assumes view_put: "room s \<Longrightarrow> view (put s x) = view s @ [x]"
    and view_get: "get n s = (xs, s') \<Longrightarrow> xs = take n (view s) \<and> view s' = drop n (view s)"
begin

text \<open>Draining loses and reorders nothing, and drains as much as asked for.\<close>

lemma get_append: "get n s = (xs, s') \<Longrightarrow> xs @ view s' = view s"
  by (auto dest: view_get)

lemma get_length: "get n s = (xs, s') \<Longrightarrow> length xs = min n (length (view s))"
  by (auto dest: view_get)

lemma put_get: "room s \<Longrightarrow> get n (put s x) = (xs, s') \<Longrightarrow> xs @ view s' = view s @ [x]"
  using get_append view_put by metis

end

section \<open>Keyed stores\<close>

text \<open>
  Every operation is partial (an \<open>Err\<close> leaves the store as it was). \<open>may k v\<close> says which entries
  the operations accept, \<open>afford s k\<close> that the owner of \<open>k\<close> can pay for an entry.
\<close>

locale keyed_store =
  fixes lookup :: "'s \<Rightarrow> 'k \<rightharpoonup> 'v"
    and create :: "'k \<Rightarrow> 'v \<Rightarrow> 's \<Rightarrow> ('e, 's) outcome"
    and overwrite :: "'k \<Rightarrow> 'v \<Rightarrow> 's \<Rightarrow> ('e, 's) outcome"
    and remove :: "'k \<Rightarrow> 's \<Rightarrow> ('e, 's) outcome"
    and good :: "'s \<Rightarrow> bool"
    and may :: "'k \<Rightarrow> 'v \<Rightarrow> bool"
    and afford :: "'s \<Rightarrow> 'k \<Rightarrow> bool"
  assumes create_Ok: "good s \<Longrightarrow> (\<exists>s'. create k v s = Ok s') \<longleftrightarrow> may k v \<and> lookup s k = None \<and> afford s k"
    and overwrite_Ok: "good s \<Longrightarrow> (\<exists>s'. overwrite k v s = Ok s') \<longleftrightarrow> may k v \<and> lookup s k \<noteq> None"
    and remove_Ok: "good s \<Longrightarrow> (\<exists>s'. remove k s = Ok s') \<longleftrightarrow> lookup s k \<noteq> None"
    and lookup_create: "good s \<Longrightarrow> create k v s = Ok s' \<Longrightarrow> lookup s' = (lookup s)(k \<mapsto> v)"
    and lookup_overwrite: "good s \<Longrightarrow> overwrite k v s = Ok s' \<Longrightarrow> lookup s' = (lookup s)(k \<mapsto> v)"
    and lookup_remove: "good s \<Longrightarrow> remove k s = Ok s' \<Longrightarrow> lookup s' = (lookup s)(k := None)"
    and good_create: "good s \<Longrightarrow> create k v s = Ok s' \<Longrightarrow> good s'"
    and good_overwrite: "good s \<Longrightarrow> overwrite k v s = Ok s' \<Longrightarrow> good s'"
    and good_remove: "good s \<Longrightarrow> remove k s = Ok s' \<Longrightarrow> good s'"
    and afford_remove: "good s \<Longrightarrow> remove k s = Ok s' \<Longrightarrow> afford s' k"
begin

lemma create_then_lookup: "good s \<Longrightarrow> create k v s = Ok s' \<Longrightarrow> lookup s' k = Some v"
  by (simp add: lookup_create)

lemma create_twice_fails:
  assumes "good s" "create k v s = Ok s'"
  shows "\<not> (\<exists>s''. create k w s' = Ok s'')"
  using create_Ok [OF good_create [OF assms]] create_then_lookup [OF assms] by simp

text \<open>A removed key can be created again, at once and with any entry, and reads back.\<close>

lemma remove_then_create:
  assumes "good s" "remove k s = Ok s'" "may k v"
  shows "\<exists>s''. create k v s' = Ok s'' \<and> lookup s'' = (lookup s)(k \<mapsto> v)"
proof -
  have good': "good s'" using assms good_remove by blast
  have "lookup s' = (lookup s)(k := None)" using assms lookup_remove by blast
  moreover from this obtain s'' where "create k v s' = Ok s''"
    using create_Ok [OF good', of k v] assms afford_remove [OF assms(1,2)] by auto
  ultimately show ?thesis using lookup_create [OF good'] by auto
qed

lemma other_key_unchanged:
  assumes "good s" "j \<noteq> k" "create k v s = Ok s' \<or> overwrite k v s = Ok s' \<or> remove k s = Ok s'"
  shows "lookup s' j = lookup s j"
  using assms lookup_create lookup_overwrite lookup_remove by fastforce

end

section \<open>Transition systems\<close>

inductive reachable :: "'s \<Rightarrow> ('s \<Rightarrow> 's \<Rightarrow> bool) \<Rightarrow> 's \<Rightarrow> bool" for start step where
  reachable_start: "reachable start step start"
| reachable_step: "reachable start step s \<Longrightarrow> step s t \<Longrightarrow> reachable start step t"

locale invariant_system =
  fixes start :: "'s"
    and step :: "'s \<Rightarrow> 's \<Rightarrow> bool"
    and inv :: "'s \<Rightarrow> bool"
  assumes inv_start: "inv start"
    and inv_step: "inv s \<Longrightarrow> step s t \<Longrightarrow> inv t"
begin

lemma reachable_inv: "reachable start step s \<Longrightarrow> inv s"
  by (induction rule: reachable.induct) (auto simp: inv_start inv_step)

text \<open>A relation that steps keep between a state and its successor holds along every run.\<close>

lemma reachable_from:
  assumes "inv s" "step\<^sup>*\<^sup>* s t" "\<And>s t. inv s \<Longrightarrow> step s t \<Longrightarrow> R s t"
    and "\<And>s. R s s" "\<And>s t u. R s t \<Longrightarrow> R t u \<Longrightarrow> R s u"
  shows "R s t \<and> inv t"
  using assms(2,1)
proof (induction rule: rtranclp_induct)
  case base
  then show ?case using assms(4) by blast
next
  case (step t u)
  then show ?case using assms(3,5) inv_step by blast
qed

end

section \<open>Simulation\<close>

text \<open>A run over a list of events, and its parts.\<close>

fun run :: "('s \<Rightarrow> 'e \<Rightarrow> 's \<Rightarrow> bool) \<Rightarrow> 's \<Rightarrow> 'e list \<Rightarrow> 's \<Rightarrow> bool" where
  "run step s [] t \<longleftrightarrow> t = s"
| "run step s (e # es) t \<longleftrightarrow> (\<exists>u. step s e u \<and> run step u es t)"

lemma run_append: "run step s (es @ fs) t \<longleftrightarrow> (\<exists>u. run step s es u \<and> run step u fs t)"
  by (induction es arbitrary: s) auto

text \<open>
  A concrete system that, seen through \<open>abs\<close>, does only what the abstract one may do with the same
  events: then every run of it is a run of the abstract system.
\<close>

locale simulation =
  fixes cstart :: "'c" and cstep :: "'c \<Rightarrow> 'e \<Rightarrow> 'c \<Rightarrow> bool" and inv :: "'c \<Rightarrow> bool"
    and astart :: "'a" and astep :: "'a \<Rightarrow> 'e \<Rightarrow> 'a \<Rightarrow> bool" and abs :: "'c \<Rightarrow> 'a"
  assumes sim_start: "inv cstart" "abs cstart = astart"
    and sim_inv: "inv c \<Longrightarrow> cstep c e c' \<Longrightarrow> inv c'"
    and sim_step: "inv c \<Longrightarrow> cstep c e c' \<Longrightarrow> astep (abs c) e (abs c')"
begin

lemma run_simulated: "inv c \<Longrightarrow> run cstep c es c' \<Longrightarrow> run astep (abs c) es (abs c') \<and> inv c'"
  by (induction es arbitrary: c) (auto intro: sim_inv sim_step)

lemma trace_inclusion: "run cstep cstart es c \<Longrightarrow> run astep astart es (abs c)"
  using run_simulated [OF sim_start(1)] sim_start(2) by simp

text \<open>What holds of every run of the abstract system holds of every run of the concrete one.\<close>

lemma transfer:
  assumes "\<And>es a. run astep astart es a \<Longrightarrow> P es" and "run cstep cstart es c"
  shows "P es"
  using assms trace_inclusion by blast

end

end
