(* ===== verification/Leb128.thy ===== *)
theory Leb128
  imports Errors Interfaces
begin

text \<open>
  The unsigned LEB128 writer and reader of \<open>crates/slnt-sdk/src/keys.rs\<close> (\<open>write_leb128_u32\<close>,
  \<open>read_leb128_u32\<close>): the writer is total and emits the minimal form, the reader undoes it in
  front of any bytes, and the reader also accepts padded forms.
\<close>

function write_leb128_u32 :: "bytes \<Rightarrow> u32 \<Rightarrow> bytes" where
  "write_leb128_u32 out val =
     (let byte = ucast (val AND 0x7f) :: u8;
          val' = drop_bit 7 val;
          byte' = (if val' \<noteq> 0 then byte OR 0x80 else byte);
          out' = out @ [byte']
      in if val' = 0 then out' else write_leb128_u32 out' val')"
  by pat_completeness auto

lemma unat_drop_bit_7: "unat (drop_bit 7 v) = unat v div 128" for v :: "'a::len word"
  by (subst unat_drop_bit_eq) (simp add: drop_bit_eq_div)

lemma drop_bit_7_less: "drop_bit 7 v \<noteq> 0 \<Longrightarrow> unat (drop_bit 7 v) < unat v" for v :: "'a::len word"
  by (cases "v = 0") (simp_all add: unat_drop_bit_7 unat_gt_0)

termination write_leb128_u32
  by (relation "measure (\<lambda>(out, val). unat val)") (simp_all only: Let_def in_measure split_conv
      wf_measure drop_bit_7_less not_False_eq_True)

declare write_leb128_u32.simps [simp del]

text \<open>
  The reader looks at most at five bytes; \<open>shift\<close> is in bits, the accumulator is a \<open>u64\<close>.
\<close>

fun read_leb128_loop :: "bytes \<Rightarrow> nat \<Rightarrow> u64 \<Rightarrow> nat \<Rightarrow> (slnt_error, u32 \<times> nat) outcome" where
  "read_leb128_loop [] i val shift = Err (MetaAddressDecode ''varint too long'')"
| "read_leb128_loop (byte # rest) i val shift =
     (let val' = val OR push_bit shift (ucast (byte AND 0x7f)) in
      if byte AND 0x80 = 0 then
        (if val' > 0xFFFFFFFF then Err (MetaAddressDecode ''varint exceeds u32'')
         else Ok (ucast val', i + 1))
      else read_leb128_loop rest (i + 1) val' (shift + 7))"

definition read_leb128_u32 :: "bytes \<Rightarrow> (slnt_error, u32 \<times> nat) outcome" where
  "read_leb128_u32 data = read_leb128_loop (take 5 data) 0 0 0"

section \<open>The writer\<close>

abbreviation leb128 :: "u32 \<Rightarrow> bytes" where
  "leb128 v \<equiv> write_leb128_u32 [] v"

lemma write_leb128_append: "write_leb128_u32 out v = out @ leb128 v"
proof (induction "unat v" arbitrary: out v rule: less_induct)
  case less
  show ?case
  proof (cases "drop_bit 7 v = 0")
    case True
    then show ?thesis by (simp add: write_leb128_u32.simps [of _ v] Let_def)
  next
    case False
    note IH = less [OF drop_bit_7_less [OF False]]
    show ?thesis
      using False IH [of "out @ [ucast (v AND 127) OR 128]"] IH [of "[ucast (v AND 127) OR 128]"]
      by (simp add: write_leb128_u32.simps [of _ v] Let_def)
  qed
qed

lemma leb128_last: "drop_bit 7 v = 0 \<Longrightarrow> leb128 v = [ucast (v AND 0x7f)]"
  by (simp add: write_leb128_u32.simps [of _ v] Let_def)

lemma leb128_more:
  "drop_bit 7 v \<noteq> 0 \<Longrightarrow> leb128 v = (ucast (v AND 0x7f) OR 0x80) # leb128 (drop_bit 7 v)"
  using write_leb128_append [of "[ucast (v AND 127) OR 128]" "drop_bit 7 v"]
  by (simp add: write_leb128_u32.simps [of _ v] Let_def)

lemma leb128_induct [case_names last more]:
  assumes "\<And>v. drop_bit 7 v = 0 \<Longrightarrow> P v"
    and "\<And>v. drop_bit 7 v \<noteq> 0 \<Longrightarrow> P (drop_bit 7 v) \<Longrightarrow> P v"
  shows "P (v :: u32)"
proof (induction "unat v" arbitrary: v rule: less_induct)
  case less
  then show ?case using assms drop_bit_7_less [of v] by (cases "drop_bit 7 v = 0") auto
qed

lemma leb128_nonempty [simp]: "leb128 v \<noteq> []"
  by (cases "drop_bit 7 v = 0") (simp_all add: leb128_last leb128_more)

text \<open>The length is the number of base-128 digits.\<close>

lemma length_leb128_le_iff: "0 < n \<Longrightarrow> length (leb128 v) \<le> n \<longleftrightarrow> unat v < 128 ^ n"
proof (induction v arbitrary: n rule: leb128_induct)
  case (last v)
  then have "unat v div 128 = 0" by (metis unat_0 unat_drop_bit_7)
  then have "unat v < 128" by simp
  moreover have "(128::nat) \<le> 128 ^ n" using last by (cases n) simp_all
  ultimately show ?case using last by (simp add: leb128_last Suc_le_eq)
next
  case (more v)
  have big: "unat v div 128 \<noteq> 0" using more(1) by (metis unat_drop_bit_7 unat_eq_0)
  show ?case
  proof (cases "n = 1")
    case True
    with big show ?thesis by (simp add: leb128_more more(1))
  next
    case False
    with more.prems obtain m where m: "n = Suc m" "0 < m" by (cases n) auto
    have "length (leb128 (drop_bit 7 v)) \<le> m \<longleftrightarrow> unat v div 128 < 128 ^ m"
      using more.IH [OF m(2)] by (simp add: unat_drop_bit_7)
    also have "\<dots> \<longleftrightarrow> unat v < 128 ^ n" by (simp add: m(1) div_less_iff_less_mult mult.commute)
    finally show ?thesis by (simp add: leb128_more more(1) m(1))
  qed
qed

lemma length_leb128_le_5: "length (leb128 v) \<le> 5"
proof -
  have "unat v < 2 ^ LENGTH(32)" by (rule unsigned_less)
  then have "unat v < 128 ^ 5" by simp
  then show ?thesis by (simp add: length_leb128_le_iff)
qed

lemma length_leb128_ge_1: "1 \<le> length (leb128 v)"
  using leb128_nonempty [of v] by (cases "leb128 v") auto

section \<open>Round trip\<close>

text \<open>The masks of the code as bit operations.\<close>

lemma and_7f: "x AND 0x7f = take_bit 7 x" for x :: "'a::len word"
  by (simp add: take_bit_eq_mask mask_eq_exp_minus_1)

lemma or_80: "x OR 0x80 = set_bit 7 x" for x :: u8
  by (simp add: set_bit_eq_or push_bit_eq_mult)

lemma and_80: "x AND 0x80 = 0 \<longleftrightarrow> \<not> bit x 7" for x :: u8
  using bit_iff_and_push_bit_not_eq_0 [of x 7] by (simp add: push_bit_eq_mult)

lemmas leb_masks = and_7f or_80 and_80

lemma continue_byte:
  fixes v :: u32
  shows "bit (set_bit 7 (ucast (take_bit 7 v)) :: u8) 7"
    and "(ucast (take_bit 7 (set_bit 7 (ucast (take_bit 7 v)) :: u8)) :: u64) = ucast (take_bit 7 v)"
proof -
  show "bit (set_bit 7 (ucast (take_bit 7 v)) :: u8) 7" by (simp add: bit_set_bit_iff)
  show "(ucast (take_bit 7 (set_bit 7 (ucast (take_bit 7 v)) :: u8)) :: u64) = ucast (take_bit 7 v)"
    by (rule bit_word_eqI) (auto simp: bit_ucast_iff bit_take_bit_iff bit_set_bit_iff)
qed

lemma stop_byte:
  fixes v :: u32
  shows "\<not> bit (ucast (take_bit 7 v) :: u8) 7"
    and "(ucast (take_bit 7 (ucast (take_bit 7 v) :: u8)) :: u64) = ucast (take_bit 7 v)"
proof -
  show "\<not> bit (ucast (take_bit 7 v) :: u8) 7" by (simp add: bit_ucast_iff bit_take_bit_iff)
  show "(ucast (take_bit 7 (ucast (take_bit 7 v) :: u8)) :: u64) = ucast (take_bit 7 v)"
    by (rule bit_word_eqI) (auto simp: bit_ucast_iff bit_take_bit_iff)
qed

text \<open>Gluing the low seven bits to the rest gives the value back.\<close>

lemma glue_bits:
  fixes v :: u32
  shows "push_bit s (ucast (take_bit 7 v)) OR push_bit (s + 7) (ucast (drop_bit 7 v)) =
    (push_bit s (ucast v) :: u64)"
proof (rule bit_word_eqI)
  fix n assume n: "n < LENGTH(64)"
  have "7 + (n - (s + 7)) = n - s" if "s + 7 \<le> n" using that by simp
  then show "bit (push_bit s (ucast (take_bit 7 v)) OR push_bit (s + 7) (ucast (drop_bit 7 v)) :: u64) n
    \<longleftrightarrow> bit (push_bit s (ucast v) :: u64) n"
    using n by (cases "s + 7 \<le> n")
      (auto simp: bit_or_iff bit_push_bit_iff bit_ucast_iff bit_take_bit_iff bit_drop_bit_eq
        dest: bit_imp_le_length)
qed

lemma take_bit_7_small:
  fixes v :: u32
  assumes "drop_bit 7 v = 0" shows "take_bit 7 v = v"
  using bits_ident [of 7 v] assms by simp

lemma read_leb128_loop_write:
  "read_leb128_loop (leb128 v @ rest) i a s =
     (if a OR push_bit s (ucast v) > 0xFFFFFFFF then Err (MetaAddressDecode ''varint exceeds u32'')
      else Ok (ucast (a OR push_bit s (ucast v)), i + length (leb128 v)))"
proof (induction v arbitrary: i a s rule: leb128_induct)
  case (last v)
  then show ?case
    using stop_byte [of v] by (simp add: leb128_last leb_masks take_bit_7_small Let_def)
next
  case (more v)
  have "(a OR push_bit s (ucast (take_bit 7 v))) OR push_bit (s + 7) (ucast (drop_bit 7 v)) =
      a OR push_bit s (ucast v)"
    by (simp only: or.assoc glue_bits)
  with more.IH show ?case
    by (simp add: leb128_more more.hyps leb_masks continue_byte Let_def)
qed

lemma u32_in_u64:
  fixes v :: u32
  shows "\<not> (0xFFFFFFFF :: u64) < ucast v" and "(ucast (ucast v :: u64) :: u32) = v"
proof -
  have "unat v < 2 ^ LENGTH(32)" by (rule unsigned_less)
  then have "unat (ucast v :: u64) < 2 ^ 32"
    by (simp add: unsigned_ucast_eq take_bit_nat_eq_self)
  then show "\<not> (0xFFFFFFFF :: u64) < ucast v" by (simp add: word_less_nat_alt)
  show "(ucast (ucast v :: u64) :: u32) = v"
    by (rule bit_word_eqI) (simp add: bit_ucast_iff)
qed

lemma read_leb128_write: "read_leb128_u32 (leb128 v @ rest) = Ok (v, length (leb128 v))"
proof -
  have "take 5 (leb128 v @ rest) = leb128 v @ take (5 - length (leb128 v)) rest"
    using length_leb128_le_5 [of v] by simp
  then show ?thesis
    by (simp add: read_leb128_u32_def read_leb128_loop_write u32_in_u64)
qed

text \<open>The reader as a codec: the value and the bytes that follow it.\<close>

definition read_leb128_rest :: "bytes \<Rightarrow> (slnt_error, u32 \<times> bytes) outcome" where
  "read_leb128_rest data = obind (read_leb128_u32 data) (\<lambda>(v, n). Ok (v, drop n data))"

interpretation leb: codec "\<lambda>_. True" leb128 read_leb128_rest
  by unfold_locales (simp add: read_leb128_rest_def read_leb128_write)

section \<open>What the reader accepts\<close>

lemma take_bit_step:
  fixes a :: u64
  assumes "take_bit s a = a"
  shows "take_bit (s + 7) (a OR push_bit s (ucast (take_bit 7 (b :: u8)))) =
    a OR push_bit s (ucast (take_bit 7 b))"
proof (rule bit_word_eqI)
  fix n assume n: "n < LENGTH(64)"
  have "bit a n \<Longrightarrow> n < s" using assms by (metis bit_take_bit_iff)
  then show "bit (take_bit (s + 7) (a OR push_bit s (ucast (take_bit 7 b)))) n \<longleftrightarrow>
      bit (a OR push_bit s (ucast (take_bit 7 b))) n"
    by (auto simp: bit_take_bit_iff bit_or_iff bit_push_bit_iff bit_ucast_iff)
qed

lemma unat_take_bit_self_less:
  fixes w :: "'a::len word"
  assumes "take_bit k w = w" shows "unat w < 2 ^ k"
proof -
  have "unat w = take_bit k (unat w)" using assms unsigned_take_bit_eq [of k w] by simp
  then show ?thesis by (metis take_bit_nat_less_exp)
qed

lemma read_leb128_loop_bounds:
  "read_leb128_loop bs i a s = Ok (v, n) \<Longrightarrow> take_bit s a = a \<Longrightarrow>
     i < n \<and> n \<le> i + length bs \<and> unat v < 2 ^ (s + 7 * (n - i))"
proof (induction bs i a s rule: read_leb128_loop.induct)
  case (1 i val shift)
  then show ?case by simp
next
  case (2 byte rest i val shift)
  define val' where "val' = val OR push_bit shift (ucast (take_bit 7 byte))"
  have self: "take_bit (shift + 7) val' = val'"
    unfolding val'_def using "2.prems"(2) by (rule take_bit_step)
  show ?case
  proof (cases "byte AND 0x80 = 0")
    case True
    with "2.prems"(1) have v: "v = ucast val'" and n: "n = i + 1"
      by (simp_all add: and_7f val'_def Let_def split: if_splits)
    have "unat v \<le> unat val'" by (simp add: v unsigned_ucast_eq)
    also have "\<dots> < 2 ^ (shift + 7)" using self by (rule unat_take_bit_self_less)
    finally show ?thesis by (simp add: n)
  next
    case False
    have "read_leb128_loop rest (i + 1) val' (shift + 7) = Ok (v, n)"
      using "2.prems"(1) False by (simp add: and_7f val'_def Let_def)
    with "2.IH" [OF refl False] self
    have r: "i + 1 < n \<and> n \<le> i + 1 + length rest \<and> unat v < 2 ^ (shift + 7 + 7 * (n - (i + 1)))"
      by (simp add: and_7f val'_def)
    then have e: "shift + 7 + 7 * (n - (i + 1)) = shift + 7 * (n - i)" by auto
    show ?thesis using r unfolding e by auto
  qed
qed

lemma read_leb128_bounds:
  assumes "read_leb128_u32 bs = Ok (v, n)"
  shows "1 \<le> n" "n \<le> 5" "n \<le> length bs" "length (leb128 v) \<le> n"
proof -
  have "0 < n \<and> n \<le> length (take 5 bs) \<and> unat v < 2 ^ (7 * n)"
    using read_leb128_loop_bounds [of "take 5 bs" 0 0 0 v n] assms
    by (simp add: read_leb128_u32_def)
  then show "1 \<le> n" "n \<le> 5" "n \<le> length bs" "length (leb128 v) \<le> n"
    by (simp_all add: length_leb128_le_iff power_mult)
qed

text \<open>The padded form: the last byte of the minimal form made to continue, then a zero byte.\<close>

definition leb128_padded :: "u32 \<Rightarrow> bytes" where
  "leb128_padded v = butlast (leb128 v) @ [last (leb128 v) OR 0x80, 0]"

lemma read_leb128_loop_padded:
  "read_leb128_loop (leb128_padded v @ rest) i a s =
     (if a OR push_bit s (ucast v) > 0xFFFFFFFF then Err (MetaAddressDecode ''varint exceeds u32'')
      else Ok (ucast (a OR push_bit s (ucast v)), i + length (leb128_padded v)))"
proof (induction v arbitrary: i a s rule: leb128_induct)
  case (last v)
  then show ?case
    using continue_byte [of v]
    by (simp add: leb128_padded_def leb128_last leb_masks take_bit_7_small Let_def)
next
  case (more v)
  have "leb128_padded v = (ucast (v AND 0x7f) OR 0x80) # leb128_padded (drop_bit 7 v)"
    by (simp add: leb128_padded_def leb128_more more.hyps)
  moreover have "(a OR push_bit s (ucast (take_bit 7 v))) OR push_bit (s + 7) (ucast (drop_bit 7 v)) =
      a OR push_bit s (ucast v)"
    by (simp only: or.assoc glue_bits)
  ultimately show ?case
    using more.IH by (simp add: leb_masks continue_byte Let_def)
qed

lemma length_leb128_padded: "length (leb128_padded v) = length (leb128 v) + 1"
  using length_leb128_ge_1 [of v] by (simp add: leb128_padded_def)

text \<open>
  The bytes of a successful read are the base-128 digits of a number, as many as were consumed;
  so the minimal form is the only accepted form of its length.
\<close>

fun leb_digits :: "nat \<Rightarrow> u64 \<Rightarrow> bytes" where
  "leb_digits 0 w = []"
| "leb_digits (Suc m) w =
     (if m = 0 then [ucast (take_bit 7 w)]
      else set_bit 7 (ucast (take_bit 7 w)) # leb_digits m (drop_bit 7 w))"

lemma ucast_take_bit_7: "ucast (take_bit 7 (ucast (take_bit 7 b) :: u64)) = take_bit 7 b" for b :: u8
  by (rule bit_word_eqI) (auto simp: bit_ucast_iff bit_take_bit_iff)

lemma leb_digits_leb128: "leb128 v = leb_digits (length (leb128 v)) (ucast v)"
proof (induction v rule: leb128_induct)
  case (last v)
  then have "(ucast (take_bit 7 (ucast v :: u64)) :: u8) = ucast (take_bit 7 v)"
    by (intro bit_word_eqI) (auto simp: bit_ucast_iff bit_take_bit_iff)
  with last show ?case by (simp add: leb128_last and_7f)
next
  case (more v)
  have "(ucast (take_bit 7 (ucast v :: u64)) :: u8) = ucast (take_bit 7 v)"
    by (rule bit_word_eqI) (auto simp: bit_ucast_iff bit_take_bit_iff)
  moreover have "drop_bit 7 (ucast v :: u64) = ucast (drop_bit 7 v)"
    by (rule bit_word_eqI) (auto simp: bit_ucast_iff bit_drop_bit_eq dest: bit_imp_le_length)
  ultimately show ?case using more.IH by (simp add: leb128_more more.hyps leb_masks)
qed

lemma read_leb128_loop_digits:
  "read_leb128_loop bs i a s = Ok (v, n) \<Longrightarrow> length bs \<le> 5 \<Longrightarrow>
     \<exists>w. take_bit (7 * (n - i)) w = w \<and> take (n - i) bs = leb_digits (n - i) w \<and> i < n \<and>
       n \<le> i + length bs \<and> v = ucast (a OR push_bit s w) \<and> \<not> a OR push_bit s w > 0xFFFFFFFF"
proof (induction bs i a s rule: read_leb128_loop.induct)
  case (1 i val shift)
  then show ?case by simp
next
  case (2 byte rest i val shift)
  define low :: u64 where "low = ucast (take_bit 7 byte)"
  show ?case
  proof (cases "byte AND 0x80 = 0")
    case True
    then have "take_bit 7 byte = byte" 
      by (intro bit_word_eqI) (auto simp: and_80 bit_take_bit_iff less_Suc_eq numeral_eq_Suc)
    moreover have "take_bit 7 low = low"
      by (rule bit_word_eqI) (auto simp: low_def bit_ucast_iff bit_take_bit_iff)
    moreover have "(ucast (ucast byte :: u64) :: u8) = byte"
      by (rule bit_word_eqI) (auto simp: bit_ucast_iff)
    ultimately show ?thesis using "2.prems" True
      by (intro exI [of _ low]) (auto simp: and_7f low_def ucast_take_bit_7 Let_def split: if_splits)
  next
    case False
    then obtain w where w: "take_bit (7 * (n - (i + 1))) w = w"
      "take (n - (i + 1)) rest = leb_digits (n - (i + 1)) w" "i + 1 < n" "n \<le> i + 1 + length rest"
      "v = ucast ((val OR push_bit shift low) OR push_bit (shift + 7) w)"
      "\<not> (val OR push_bit shift low) OR push_bit (shift + 7) w > 0xFFFFFFFF"
      using "2.IH" [OF refl False] "2.prems" by (auto simp: and_7f low_def Let_def)
    obtain m where m: "n - i = Suc m" "n - (i + 1) = m" "0 < m" "m \<le> 4"
      using w(3,4) "2.prems"(2) by (intro that [of "n - (i + 1)"]) auto
    define w' where "w' = low OR push_bit 7 w"
    have wbits: "bit w k \<Longrightarrow> k < 7 * m" for k using w(1) m(2) by (metis bit_take_bit_iff)
    have w'bits: "bit w' k \<longleftrightarrow> bit byte k \<and> k < 7 \<or> 7 \<le> k \<and> bit w (k - 7)" for k
      using wbits [of "k - 7"] m(4)
      by (auto simp: w'_def low_def bit_or_iff bit_ucast_iff bit_take_bit_iff bit_push_bit_iff
          dest: bit_imp_le_length)
    have "take_bit (7 * Suc m) w' = w'"
      by (rule bit_word_eqI) (auto simp: bit_take_bit_iff w'bits dest: wbits)
    moreover have "drop_bit 7 w' = w"
      by (rule bit_word_eqI) (auto simp: bit_drop_bit_eq w'bits)
    moreover have "set_bit 7 (ucast (take_bit 7 w')) = byte"
    proof (rule bit_word_eqI)
      fix k assume "k < LENGTH(8)"
      moreover have "bit byte 7" using False by (simp add: and_80)
      ultimately show "bit (set_bit 7 (ucast (take_bit 7 w')) :: u8) k \<longleftrightarrow> bit byte k"
        by (cases "k = 7") (auto simp: bit_set_bit_iff bit_ucast_iff bit_take_bit_iff w'bits)
    qed
    moreover have "val OR push_bit shift w' = (val OR push_bit shift low) OR push_bit (shift + 7) w"
      by (rule bit_word_eqI)
        (auto simp: w'_def bit_or_iff bit_push_bit_iff add.commute le_diff_conv2 diff_diff_eq)
    ultimately show ?thesis
      using w(2,3,4,5,6) m by (intro exI [of _ w']) (auto simp: take_Cons')
  qed
qed

lemma read_leb128_minimal:
  assumes "read_leb128_u32 bs = Ok (v, n)" "length (leb128 v) = n"
  shows "take n bs = leb128 v"
proof -
  obtain w where w: "take n (take 5 bs) = leb_digits n w" "v = ucast w" "\<not> w > 0xFFFFFFFF"
    using read_leb128_loop_digits [of "take 5 bs" 0 0 0 v n] assms(1)
    by (auto simp: read_leb128_u32_def)
  have "unat w < 2 ^ 32" using w(3) by (simp add: word_less_nat_alt not_less)
  then have "(ucast v :: u64) = w"
    by (simp add: w(2) word_unat_eq_iff unsigned_ucast_eq unsigned_take_bit_eq take_bit_nat_eq_self)
  moreover have "n \<le> 5" using assms(1) by (rule read_leb128_bounds)
  ultimately show ?thesis using w(1) leb_digits_leb128 [of v] assms(2) by (simp add: min_absorb1)
qed

end
