(* ===== verification/Libs.thy ===== *)
theory Libs
  imports Errors
begin

text \<open>
  The third-party crates the sources call, as parameters of the model: a record of functions per
  group of crates, passed to every definition that calls them. Nothing about them is built in;
  what the code relies on is stated here as named hypotheses, each the documented behaviour of
  the crate. The theory \<open>Instances\<close> gives a concrete value of every record that satisfies them.
\<close>

section \<open>Cryptography: curve25519-dalek, x25519-dalek, sha2, hmac, hkdf\<close>

text \<open>
  \<open>'s\<close> is \<open>Scalar\<close> (integers modulo the group order), \<open>'p\<close> is \<open>EdwardsPoint\<close>, \<open>'k\<close> is x25519's
  \<open>StaticSecret\<close>. An x25519 \<open>PublicKey\<close> and shared secret are their 32 bytes.
  \<open>hkdf_sha256 salt ikm info len\<close> is extract-and-expand; expand fails on long outputs.
\<close>

record ('s, 'p, 'k) crypto =
  from_bytes_mod_order :: "bytes \<Rightarrow> 's"
  from_bytes_mod_order_wide :: "bytes \<Rightarrow> 's"
  scalar_to_bytes :: "'s \<Rightarrow> bytes"
  scalar_zero :: 's
  scalar_add :: "'s \<Rightarrow> 's \<Rightarrow> 's"
  scalar_mul :: "'s \<Rightarrow> 's \<Rightarrow> 's"
  point_add :: "'p \<Rightarrow> 'p \<Rightarrow> 'p"
  point_mul :: "'s \<Rightarrow> 'p \<Rightarrow> 'p"
  basepoint :: 'p
  compress :: "'p \<Rightarrow> bytes"
  decompress :: "bytes \<Rightarrow> 'p option"
  is_small_order :: "'p \<Rightarrow> bool"
  is_torsion_free :: "'p \<Rightarrow> bool"
  static_secret_from :: "bytes \<Rightarrow> 'k"
  x25519_public :: "'k \<Rightarrow> bytes"
  diffie_hellman :: "'k \<Rightarrow> bytes \<Rightarrow> bytes"
  sha256 :: "bytes \<Rightarrow> bytes"
  sha512 :: "bytes \<Rightarrow> bytes"
  hmac_sha512 :: "bytes \<Rightarrow> bytes \<Rightarrow> bytes"
  hkdf_sha256 :: "bytes \<Rightarrow> bytes \<Rightarrow> bytes \<Rightarrow> nat \<Rightarrow> bytes option"

text \<open>
  Scalar multiplication of the base point is a homomorphism into the prime-order subgroup, whose
  only small-order element is the identity.
\<close>

definition group_laws :: "('s, 'p, 'k) crypto \<Rightarrow> bool" where
  "group_laws C \<longleftrightarrow>
     (\<forall>a b. point_mul C (scalar_add C a b) (basepoint C) =
            point_add C (point_mul C a (basepoint C)) (point_mul C b (basepoint C))) \<and>
     (\<forall>a b. point_mul C (scalar_mul C a b) (basepoint C) =
            point_mul C a (point_mul C b (basepoint C))) \<and>
     (\<forall>a. is_torsion_free C (point_mul C a (basepoint C))) \<and>
     (\<forall>a. is_small_order C (point_mul C a (basepoint C)) \<longleftrightarrow> a = scalar_zero C)"

text \<open>Compressed points are 32 bytes and decompress to the point they came from.\<close>

definition compress_laws :: "('s, 'p, 'k) crypto \<Rightarrow> bool" where
  "compress_laws C \<longleftrightarrow>
     (\<forall>p. length (compress C p) = 32 \<and> decompress C (compress C p) = Some p)"

text \<open>A scalar's bytes are the 32-byte canonical encoding, and reading them gives it back.\<close>

definition scalar_laws :: "('s, 'p, 'k) crypto \<Rightarrow> bool" where
  "scalar_laws C \<longleftrightarrow>
     (\<forall>a. length (scalar_to_bytes C a) = 32 \<and>
          from_bytes_mod_order C (scalar_to_bytes C a) = a)"

text \<open>X25519 Diffie-Hellman agreement.\<close>

definition dh_laws :: "('s, 'p, 'k) crypto \<Rightarrow> bool" where
  "dh_laws C \<longleftrightarrow>
     (\<forall>a b. diffie_hellman C a (x25519_public C b) = diffie_hellman C b (x25519_public C a)) \<and>
     (\<forall>a. length (x25519_public C a) = 32) \<and>
     (\<forall>a q. length (diffie_hellman C a q) = 32)"

text \<open>Digest sizes; HKDF-SHA256 expands up to 255 blocks of 32 bytes.\<close>

definition hash_laws :: "('s, 'p, 'k) crypto \<Rightarrow> bool" where
  "hash_laws C \<longleftrightarrow>
     (\<forall>d. length (sha256 C d) = 32) \<and>
     (\<forall>d. length (sha512 C d) = 64) \<and>
     (\<forall>k d. length (hmac_sha512 C k d) = 64) \<and>
     (\<forall>salt ikm info n. n \<le> 255 * 32 \<longrightarrow>
        (\<exists>out. hkdf_sha256 C salt ikm info n = Some out \<and> length out = n))"

lemma group_lawsD:
  assumes "group_laws C"
  shows "point_mul C (scalar_add C a b) (basepoint C) =
           point_add C (point_mul C a (basepoint C)) (point_mul C b (basepoint C))"
    and "point_mul C (scalar_mul C a b) (basepoint C) =
           point_mul C a (point_mul C b (basepoint C))"
    and "is_torsion_free C (point_mul C a (basepoint C))"
    and "is_small_order C (point_mul C a (basepoint C)) \<longleftrightarrow> a = scalar_zero C"
  using assms by (simp_all add: group_laws_def)

lemma compress_lawsD:
  assumes "compress_laws C"
  shows "length (compress C p) = 32" and "decompress C (compress C p) = Some p"
  using assms by (simp_all add: compress_laws_def)

lemma compress_eq_iff: "compress_laws C \<Longrightarrow> compress C p = compress C q \<longleftrightarrow> p = q"
  by (metis compress_lawsD(2) option.inject)

lemma scalar_lawsD:
  assumes "scalar_laws C"
  shows "length (scalar_to_bytes C a) = 32" and "from_bytes_mod_order C (scalar_to_bytes C a) = a"
  using assms by (simp_all add: scalar_laws_def)

lemma dh_lawsD:
  assumes "dh_laws C"
  shows "length (x25519_public C a) = 32" and "length (diffie_hellman C a q) = 32"
  using assms by (simp_all add: dh_laws_def)

lemma dh_agreement:
  "dh_laws C \<Longrightarrow> diffie_hellman C a (x25519_public C b) = diffie_hellman C b (x25519_public C a)"
  by (auto simp: dh_laws_def)

lemma hash_lawsD:
  assumes "hash_laws C"
  shows "length (sha256 C d) = 32" and "length (sha512 C d) = 64"
    and "length (hmac_sha512 C k d) = 64"
  using assms by (simp_all add: hash_laws_def)

lemma hkdf_total:
  "hash_laws C \<Longrightarrow> n \<le> 255 * 32 \<Longrightarrow>
     \<exists>out. hkdf_sha256 C salt ikm info n = Some out \<and> length out = n"
  by (auto simp: hash_laws_def)

section \<open>Text encodings: bech32, bs58, base64, hex\<close>

record 'h bech32_lib =
  hrp_parse :: "string \<Rightarrow> 'h option"
  hrp_as_str :: "'h \<Rightarrow> string"
  bech32m_encode :: "'h \<Rightarrow> bytes \<Rightarrow> string option"
  bech32_decode :: "string \<Rightarrow> (string, 'h \<times> bytes) outcome"

text \<open>
  \<open>slnt\<close> is a valid human-readable part; payloads of up to 71 bytes fit a bech32m string, which
  is printable ASCII and decodes to what was encoded.
\<close>

definition bech32_laws :: "'h bech32_lib \<Rightarrow> bool" where
  "bech32_laws L \<longleftrightarrow>
     (\<exists>h. hrp_parse L ''slnt'' = Some h \<and> hrp_as_str L h = ''slnt'' \<and>
        (\<forall>d. length d \<le> 71 \<longrightarrow>
           (\<exists>t. bech32m_encode L h d = Some t \<and> (\<forall>c \<in> set t. printable c) \<and>
                bech32_decode L t = Ok (h, d))))"

lemma bech32_lawsE:
  assumes "bech32_laws L"
  obtains h where "hrp_parse L ''slnt'' = Some h" "hrp_as_str L h = ''slnt''"
    "\<And>d. length d \<le> 71 \<Longrightarrow>
       \<exists>t. bech32m_encode L h d = Some t \<and> (\<forall>c \<in> set t. printable c) \<and> bech32_decode L t = Ok (h, d)"
  using assms by (auto simp: bech32_laws_def)

record text_lib =
  b58_encode :: "bytes \<Rightarrow> string"
  b58_decode :: "string \<Rightarrow> (string, bytes) outcome"
  b64_encode :: "bytes \<Rightarrow> string"
  b64_decode :: "string \<Rightarrow> (string, bytes) outcome"
  hex_encode :: "bytes \<Rightarrow> string"
  hex_decode :: "string \<Rightarrow> (string, bytes) outcome"

definition text_laws :: "text_lib \<Rightarrow> bool" where
  "text_laws T \<longleftrightarrow>
     (\<forall>d. b58_decode T (b58_encode T d) = Ok d) \<and> b58_encode T [] = [] \<and>
     (\<forall>d. b64_decode T (b64_encode T d) = Ok d \<and> (\<forall>c \<in> set (b64_encode T d). printable c)) \<and>
     (\<forall>d. hex_decode T (hex_encode T d) = Ok d \<and> (\<forall>c \<in> set (hex_encode T d). printable c))"

lemma text_lawsD:
  assumes "text_laws T"
  shows "b58_decode T (b58_encode T d) = Ok d" and "b58_encode T [] = []"
    and "b64_decode T (b64_encode T d) = Ok d" and "\<forall>c \<in> set (b64_encode T d). printable c"
    and "hex_decode T (hex_encode T d) = Ok d" and "\<forall>c \<in> set (hex_encode T d). printable c"
  using assms by (auto simp: text_laws_def)

lemma b58_encode_empty_iff: "text_laws T \<Longrightarrow> b58_encode T d = [] \<longleftrightarrow> d = []"
  using text_lawsD(1,2) [of T] by (metis outcome.inject(1))

section \<open>borsh\<close>

text \<open>
  The primitive writers and readers of borsh, which the derived \<open>BorshSerialize\<close> and
  \<open>BorshDeserialize\<close> of a struct call field by field in declaration order. A reader consumes a
  prefix. Writing a \<open>Vec\<close> fails when its length does not fit a \<open>u32\<close>; \<open>write_len\<close> writes the
  length prefix of a \<open>Vec<T>\<close>. \<open>left_over\<close> is the message of \<open>try_from_slice\<close> when
  bytes remain.
\<close>

record borsh_lib =
  write_u8 :: "u8 \<Rightarrow> bytes"
  read_u8 :: "bytes \<Rightarrow> (string, u8 \<times> bytes) outcome"
  write_u16 :: "u16 \<Rightarrow> bytes"
  read_u16 :: "bytes \<Rightarrow> (string, u16 \<times> bytes) outcome"
  write_array :: "bytes \<Rightarrow> bytes"
  read_array :: "nat \<Rightarrow> bytes \<Rightarrow> (string, bytes \<times> bytes) outcome"
  write_len :: "nat \<Rightarrow> bytes option"
  read_len :: "bytes \<Rightarrow> (string, nat \<times> bytes) outcome"
  write_vec :: "bytes \<Rightarrow> bytes option"
  read_vec :: "bytes \<Rightarrow> (string, bytes \<times> bytes) outcome"
  left_over :: string

definition borsh_laws :: "borsh_lib \<Rightarrow> bool" where
  "borsh_laws B \<longleftrightarrow>
     (\<forall>x r. read_u8 B (write_u8 B x @ r) = Ok (x, r)) \<and>
     (\<forall>x r. read_u16 B (write_u16 B x @ r) = Ok (x, r)) \<and>
     (\<forall>x r. read_array B (length x) (write_array B x @ r) = Ok (x, r)) \<and>
     (\<forall>n. n < 2 ^ 32 \<longrightarrow>
        (\<exists>w. write_len B n = Some w \<and> (\<forall>r. read_len B (w @ r) = Ok (n, r)))) \<and>
     (\<forall>x. length x < 2 ^ 32 \<longrightarrow>
        (\<exists>w. write_vec B x = Some w \<and> (\<forall>r. read_vec B (w @ r) = Ok (x, r))))"

text \<open>The encoded sizes borsh documents for the fixed-size types.\<close>

definition borsh_sizes :: "borsh_lib \<Rightarrow> bool" where
  "borsh_sizes B \<longleftrightarrow>
     (\<forall>x. length (write_u8 B x) = 1) \<and> (\<forall>x. length (write_u16 B x) = 2) \<and>
     (\<forall>x. length (write_array B x) = length x) \<and>
     (\<forall>x w. write_vec B x = Some w \<longrightarrow> length w = 4 + length x)"

lemma borsh_lawsD:
  assumes "borsh_laws B"
  shows "read_u8 B (write_u8 B b @ r) = Ok (b, r)"
    and "read_u16 B (write_u16 B h @ r) = Ok (h, r)"
    and "n = length x \<Longrightarrow> read_array B n (write_array B x @ r) = Ok (x, r)"
  using assms by (simp_all add: borsh_laws_def)

lemma borsh_len:
  "borsh_laws B \<Longrightarrow> n < 2 ^ 32 \<Longrightarrow>
     \<exists>w. write_len B n = Some w \<and> (\<forall>r. read_len B (w @ r) = Ok (n, r))"
  by (auto simp: borsh_laws_def)

lemma borsh_vec:
  "borsh_laws B \<Longrightarrow> length x < 2 ^ 32 \<Longrightarrow>
     \<exists>w. write_vec B x = Some w \<and> (\<forall>r. read_vec B (w @ r) = Ok (x, r))"
  by (auto simp: borsh_laws_def)

section \<open>Solana: instructions, program addresses, system and token programs\<close>

record account_meta =
  am_pubkey :: pubkey
  is_signer :: bool
  is_writable :: bool

text \<open>\<open>AccountMeta::new\<close> is writable, \<open>AccountMeta::new_readonly\<close> is not.\<close>

abbreviation account_meta_new :: "pubkey \<Rightarrow> bool \<Rightarrow> account_meta" where
  "account_meta_new k s \<equiv> \<lparr>am_pubkey = k, is_signer = s, is_writable = True\<rparr>"

abbreviation account_meta_new_readonly :: "pubkey \<Rightarrow> bool \<Rightarrow> account_meta" where
  "account_meta_new_readonly k s \<equiv> \<lparr>am_pubkey = k, is_signer = s, is_writable = False\<rparr>"

record instruction =
  program_id :: pubkey
  accounts :: "account_meta list"
  data :: bytes

text \<open>
  \<open>find_program_address seeds program\<close> is the canonical address and bump;
  \<open>create_program_address\<close> derives from seeds that include the bump. A key on the curve may have a
  private key; a program signs for its own addresses. The token program's
  constructors return \<open>Result\<close>.
\<close>

record solana_lib =
  find_program_address :: "bytes list \<Rightarrow> pubkey \<Rightarrow> pubkey \<times> u8"
  create_program_address :: "bytes list \<Rightarrow> pubkey \<Rightarrow> pubkey option"
  is_on_curve :: "pubkey \<Rightarrow> bool"
  system_program :: pubkey
  system_transfer :: "pubkey \<Rightarrow> pubkey \<Rightarrow> u64 \<Rightarrow> instruction"
  spl_transfer_checked ::
    "pubkey \<Rightarrow> pubkey \<Rightarrow> pubkey \<Rightarrow> pubkey \<Rightarrow> pubkey \<Rightarrow> u64 \<Rightarrow> u8 \<Rightarrow> (string, instruction) outcome"
  spl_close_account :: "pubkey \<Rightarrow> pubkey \<Rightarrow> pubkey \<Rightarrow> pubkey \<Rightarrow> (string, instruction) outcome"
  spl_token_id :: pubkey
  associated_token_address :: "pubkey \<Rightarrow> pubkey \<Rightarrow> pubkey \<Rightarrow> pubkey"
  create_ata_idempotent :: "pubkey \<Rightarrow> pubkey \<Rightarrow> pubkey \<Rightarrow> pubkey \<Rightarrow> instruction"

text \<open>
  The canonical bump re-creates the canonical address, program addresses are off the curve, and
  addresses of one program collide only where the concatenated seeds agree (collision resistance
  of the address hash).
\<close>

definition pda_laws :: "solana_lib \<Rightarrow> bool" where
  "pda_laws S \<longleftrightarrow>
     (\<forall>ss p k b. find_program_address S ss p = (k, b) \<longrightarrow>
        create_program_address S (ss @ [[b]]) p = Some k) \<and>
     (\<forall>ss p k. create_program_address S ss p = Some k \<longrightarrow> \<not> is_on_curve S k) \<and>
     (\<forall>ss ss' p k. create_program_address S ss p = Some k \<longrightarrow>
        create_program_address S ss' p = Some k \<longrightarrow> concat ss = concat ss')"

lemma pda_canonical:
  "pda_laws S \<Longrightarrow> find_program_address S ss p = (k, b) \<Longrightarrow>
     create_program_address S (ss @ [[b]]) p = Some k"
  by (auto simp: pda_laws_def)

lemma pda_off_curve: "pda_laws S \<Longrightarrow> create_program_address S ss p = Some k \<Longrightarrow> \<not> is_on_curve S k"
  unfolding pda_laws_def by blast

lemma pda_collision_free:
  "pda_laws S \<Longrightarrow> create_program_address S ss p = Some k \<Longrightarrow>
     create_program_address S ss' p = Some k \<Longrightarrow> concat ss = concat ss'"
  unfolding pda_laws_def by blast

text \<open>
  The constructors of the \<open>spl_token\<close> crate check that the token program they are given is the
  crate's own program id, and fail with \<open>IncorrectProgramId\<close> otherwise.
\<close>

definition spl_laws :: "solana_lib \<Rightarrow> bool" where
  "spl_laws S \<longleftrightarrow>
     (\<forall>tp src mint dst auth n dec.
        (\<exists>ix. spl_transfer_checked S tp src mint dst auth n dec = Ok ix \<and> program_id ix = tp) \<longleftrightarrow>
        tp = spl_token_id S) \<and>
     (\<forall>tp src mint dst auth n dec.
        tp \<noteq> spl_token_id S \<longrightarrow> (\<exists>e. spl_transfer_checked S tp src mint dst auth n dec = Err e)) \<and>
     (\<forall>tp acct dst auth.
        if tp = spl_token_id S then \<exists>ix. spl_close_account S tp acct dst auth = Ok ix
        else \<exists>e. spl_close_account S tp acct dst auth = Err e)"

text \<open>
  The effect of a system transfer on the lamports of all accounts, for a runtime \<open>exec\<close>; a transfer
  of more than the source holds fails.
\<close>

definition transfer_law ::
  "solana_lib \<Rightarrow> (instruction \<Rightarrow> (pubkey \<Rightarrow> nat) \<Rightarrow> (pubkey \<Rightarrow> nat) option) \<Rightarrow> bool" where
  "transfer_law S exec \<longleftrightarrow>
     (\<forall>a b n bal. exec (system_transfer S a b n) bal =
        (if unat n \<le> bal a
         then Some (let bal' = bal(a := bal a - unat n) in bal'(b := bal' b + unat n))
         else None))"

end
