(* ===== verification/Instances.thy ===== *)
theory Instances
  imports Libs
begin

text \<open>
  Concrete values of the third-party parameters, on which witnesses are evaluated, and the proofs
  that they satisfy the hypotheses of \<open>Libs\<close>: the named hypotheses are consistent.

  The borsh and hex instances are the real formats. The cryptographic instance keeps the
  structure of edwards25519, the product of a cyclic group of scalars and a group of torsion
  points of order 8, over a small scalar ring; hashes are byte sums.
\<close>

section \<open>Bytes as text\<close>

definition hex_of :: "bytes \<Rightarrow> string" where
  "hex_of d = concat (map show_02x d)"

definition unhex_digit :: "char \<Rightarrow> nat option" where
  "unhex_digit c =
     (let n = of_char c :: nat in
      if 48 \<le> n \<and> n \<le> 57 then Some (n - 48)
      else if 97 \<le> n \<and> n \<le> 102 then Some (n - 87)
      else if 65 \<le> n \<and> n \<le> 70 then Some (n - 55)
      else None)"

fun unhex :: "string \<Rightarrow> (string, bytes) outcome" where
  "unhex [] = Ok []"
| "unhex [c] = Err ''Odd number of digits''"
| "unhex (c # d # s) =
     (case (unhex_digit c, unhex_digit d) of
        (Some h, Some l) \<Rightarrow> obind (unhex s) (\<lambda>bs. Ok (of_nat (16 * h + l) # bs))
      | _ \<Rightarrow> Err ''Invalid character'')"

lemma of_char_hex_digit:
  "n < 16 \<Longrightarrow> (of_char (hex_digit n) :: nat) = (if n < 10 then 48 + n else 87 + n)"
  by (simp add: hex_digit_def)

lemma unhex_hex_digit: "n < 16 \<Longrightarrow> unhex_digit (hex_digit n) = Some n"
  by (simp add: unhex_digit_def of_char_hex_digit Let_def)

lemma printable_hex_digit: "n < 16 \<Longrightarrow> printable (hex_digit n)"
  by (auto simp: printable_def of_char_hex_digit Let_def)

lemma u8_nibbles: "unat (b :: u8) div 16 < 16" "unat b mod 16 < 16"
proof -
  have "unat b < 2 ^ LENGTH(8)" by (rule unsigned_less)
  then show "unat b div 16 < 16" "unat b mod 16 < 16" by simp_all
qed

lemma unhex_hex_of: "unhex (hex_of d) = Ok d"
  by (induction d)
    (simp_all add: hex_of_def show_02x_def unhex_hex_digit u8_nibbles mult_div_mod_eq)

lemma hex_of_printable: "c \<in> set (hex_of d) \<Longrightarrow> printable c"
  by (auto simp: hex_of_def show_02x_def intro: printable_hex_digit u8_nibbles)

definition hex_text :: text_lib where
  "hex_text = \<lparr>b58_encode = hex_of, b58_decode = unhex, b64_encode = hex_of,
     b64_decode = unhex, hex_encode = hex_of, hex_decode = unhex\<rparr>"

lemma text_laws_hex_text: "text_laws hex_text"
  by (auto simp: text_laws_def hex_text_def unhex_hex_of hex_of_printable)
     (simp add: hex_of_def)

text \<open>A bech32 stand-in: the part, a \<open>1\<close>, the payload in hex.\<close>

definition plain_bech32_decode :: "string \<Rightarrow> (string, string \<times> bytes) outcome" where
  "plain_bech32_decode t =
     (let h = takeWhile (\<lambda>c. c \<noteq> CHR ''1'') t in
      obind (unhex (drop (Suc (length h)) t)) (\<lambda>d. Ok (h, d)))"

definition plain_bech32 :: "string bech32_lib" where
  "plain_bech32 = \<lparr>hrp_parse = Some, hrp_as_str = (\<lambda>h. h),
     bech32m_encode = (\<lambda>h d. Some (h @ ''1'' @ hex_of d)),
     bech32_decode = plain_bech32_decode\<rparr>"

lemma bech32_laws_plain: "bech32_laws plain_bech32"
  by (auto simp: bech32_laws_def plain_bech32_def plain_bech32_decode_def unhex_hex_of
      hex_of_printable) (simp_all add: printable_def)

section \<open>borsh\<close>

fun le_read_u8 :: "bytes \<Rightarrow> (string, u8 \<times> bytes) outcome" where
  "le_read_u8 (b # bs) = Ok (b, bs)"
| "le_read_u8 [] = Err ''Unexpected length of input''"

fun le_read_u16 :: "bytes \<Rightarrow> (string, u16 \<times> bytes) outcome" where
  "le_read_u16 (a # b # bs) = Ok (word_cat b a, bs)"
| "le_read_u16 bs = Err ''Unexpected length of input''"

definition le_read_array :: "nat \<Rightarrow> bytes \<Rightarrow> (string, bytes \<times> bytes) outcome" where
  "le_read_array n bs =
     (if length bs < n then Err ''Unexpected length of input'' else Ok (take n bs, drop n bs))"

definition le_write_len :: "nat \<Rightarrow> bytes option" where
  "le_write_len n =
     (if n < 2 ^ 32
      then Some (map of_nat [n mod 256, n div 256 mod 256, n div 65536 mod 256, n div 16777216])
      else None)"

fun le_read_len :: "bytes \<Rightarrow> (string, nat \<times> bytes) outcome" where
  "le_read_len (a # b # c # d # bs) =
     Ok (unat a + 256 * unat b + 65536 * unat c + 16777216 * unat d, bs)"
| "le_read_len bs = Err ''Unexpected length of input''"

definition le_write_vec :: "bytes \<Rightarrow> bytes option" where
  "le_write_vec x = map_option (\<lambda>w. w @ x) (le_write_len (length x))"

definition le_read_vec :: "bytes \<Rightarrow> (string, bytes \<times> bytes) outcome" where
  "le_read_vec bs = obind (le_read_len bs) (\<lambda>(n, r). le_read_array n r)"

definition borsh_le :: borsh_lib where
  "borsh_le = \<lparr>write_u8 = (\<lambda>b. [b]), read_u8 = le_read_u8,
     write_u16 = u16_to_le_bytes, read_u16 = le_read_u16,
     write_array = (\<lambda>x. x), read_array = le_read_array,
     write_len = le_write_len, read_len = le_read_len,
     write_vec = le_write_vec, read_vec = le_read_vec,
     left_over = ''Not all bytes read''\<rparr>"

lemma word_cat_u16: "word_cat (ucast (drop_bit 8 h) :: u8) (ucast h :: u8) = (h :: u16)"
  by (rule bit_word_eqI) (auto simp: bit_word_cat_iff bit_ucast_iff bit_drop_bit_eq)

lemma le_len_roundtrip:
  assumes "n < 2 ^ 32"
  shows "\<exists>w. le_write_len n = Some w \<and> length w = 4 \<and> (\<forall>r. le_read_len (w @ r) = Ok (n, r))"
proof -
  have top: "n div 16777216 < 256" using assms by (simp add: div_less_iff_less_mult)
  have u: "unat (of_nat m :: u8) = m" if "m < 256" for m
    using that by (simp add: unat_of_nat)
  have split: "n div 65536 = n div 256 div 256" "n div 16777216 = n div 256 div 256 div 256"
    by (simp_all add: div_mult2_eq [symmetric])
  have "n mod 256 + 256 * (n div 256 mod 256) + 65536 * (n div 65536 mod 256)
      + 16777216 * (n div 16777216) = n"
    unfolding split
    using mod_mult_div_eq [of n 256] mod_mult_div_eq [of "n div 256" 256]
      mod_mult_div_eq [of "n div 256 div 256" 256] by linarith
  with assms top show ?thesis
    by (simp add: le_write_len_def u)
qed

lemma le_vec_roundtrip:
  assumes "length x < 2 ^ 32"
  shows "\<exists>w. le_write_vec x = Some w \<and> length w = 4 + length x \<and>
    (\<forall>r. le_read_vec (w @ r) = Ok (x, r))"
  using le_len_roundtrip [OF assms]
  by (auto simp: le_write_vec_def le_read_vec_def le_read_array_def)

lemma borsh_laws_le: "borsh_laws borsh_le"
  unfolding borsh_laws_def borsh_le_def
  using le_len_roundtrip le_vec_roundtrip
  by (simp add: u16_to_le_bytes_def le_read_array_def word_cat_u16) blast

lemma borsh_sizes_le: "borsh_sizes borsh_le"
proof -
  have "length w = 4 + length x" if "le_write_vec x = Some w" for x w
    using that by (auto simp: le_write_vec_def le_write_len_def split: if_splits)
  then show ?thesis by (simp add: borsh_sizes_def borsh_le_def)
qed

section \<open>Cryptography\<close>

type_synonym toy_point = "u8 \<times> 3 word"

definition pad32 :: "bytes \<Rightarrow> bytes" where
  "pad32 bs = bs @ replicate (32 - length bs) 0"

fun toy_decompress :: "bytes \<Rightarrow> toy_point option" where
  "toy_decompress (a # b # bs) =
     (if bs = replicate 30 0 \<and> unat b < 8 then Some (a, ucast b) else None)"
| "toy_decompress bs = None"

definition toy_crypto :: "(u8, toy_point, u8) crypto" where
  "toy_crypto = \<lparr>
     from_bytes_mod_order = hd,
     from_bytes_mod_order_wide = hd,
     scalar_to_bytes = (\<lambda>a. pad32 [a]),
     scalar_zero = 0,
     scalar_add = (+),
     scalar_mul = (*),
     point_add = (\<lambda>(a, s) (b, t). (a + b, s + t)),
     point_mul = (\<lambda>k (a, s). (k * a, ucast k * s)),
     basepoint = (1, 0),
     compress = (\<lambda>(a, s). pad32 [a, ucast s]),
     decompress = toy_decompress,
     is_small_order = (\<lambda>(a, s). a = 0),
     is_torsion_free = (\<lambda>(a, s). s = 0),
     static_secret_from = hd,
     x25519_public = (\<lambda>k. pad32 [k]),
     diffie_hellman = (\<lambda>k q. pad32 [k * hd q]),
     sha256 = (\<lambda>d. replicate 32 (sum_list d)),
     sha512 = (\<lambda>d. replicate 64 (sum_list d)),
     hmac_sha512 = (\<lambda>k d. replicate 64 (sum_list k + 3 * sum_list d)),
     hkdf_sha256 = (\<lambda>salt ikm info n.
       if n \<le> 255 * 32 then Some (replicate n (sum_list ikm + 5 * sum_list info + 1)) else None)\<rparr>"

lemma length_pad32 [simp]: "length bs \<le> 32 \<Longrightarrow> length (pad32 bs) = 32"
  by (simp add: pad32_def)

lemma ucast_3_8: "ucast (ucast (s :: 3 word) :: u8) = s" "unat (ucast s :: u8) < 8"
proof -
  show "ucast (ucast s :: u8) = s"
    by (rule bit_word_eqI) (simp add: bit_ucast_iff)
  have s: "unat s < 2 ^ LENGTH(3)" by (rule unsigned_less)
  then have "unat (ucast s :: u8) = unat s" by (simp add: unsigned_ucast_eq take_bit_nat_eq_self)
  with s show "unat (ucast s :: u8) < 8" by simp
qed

lemma group_laws_toy: "group_laws toy_crypto"
  by (auto simp: group_laws_def toy_crypto_def)

lemma compress_laws_toy: "compress_laws toy_crypto"
  by (auto simp: compress_laws_def toy_crypto_def ucast_3_8)
     (auto simp: pad32_def ucast_3_8)

lemma scalar_laws_toy: "scalar_laws toy_crypto"
  by (auto simp: scalar_laws_def toy_crypto_def) (simp add: pad32_def)

lemma dh_laws_toy: "dh_laws toy_crypto"
  by (auto simp: dh_laws_def toy_crypto_def) (simp add: pad32_def mult.commute)

lemma hash_laws_toy: "hash_laws toy_crypto"
  by (auto simp: hash_laws_def toy_crypto_def)

lemmas toy_crypto_laws =
  group_laws_toy compress_laws_toy scalar_laws_toy dh_laws_toy hash_laws_toy

section \<open>Solana\<close>

definition toy_instruction :: "pubkey \<Rightarrow> pubkey list \<Rightarrow> bytes \<Rightarrow> instruction" where
  "toy_instruction p ks d =
     \<lparr>program_id = p, accounts = map (\<lambda>k. account_meta_new k False) ks, data = d\<rparr>"

fun le_digits :: "nat \<Rightarrow> nat \<Rightarrow> bytes" where
  "le_digits 0 m = []"
| "le_digits (Suc n) m = of_nat (m mod 256) # le_digits n (m div 256)"

fun le_value :: "bytes \<Rightarrow> nat" where
  "le_value [] = 0"
| "le_value (b # bs) = unat b + 256 * le_value bs"

definition u64_to_le_bytes :: "u64 \<Rightarrow> bytes" where
  "u64_to_le_bytes w = le_digits 8 (unat w)"

lemma le_value_digits: "le_value (le_digits n m) = m mod 256 ^ n"
proof (induction n arbitrary: m)
  case (Suc n)
  have "unat (of_nat (m mod 256) :: u8) = m mod 256" by (simp add: unat_of_nat)
  with Suc show ?case by (simp add: mod_mult2_eq)
qed simp

lemma le_value_u64: "le_value (u64_to_le_bytes w) = unat w"
  using unat_u64_less [of w] by (simp add: u64_to_le_bytes_def le_value_digits)

definition toy_solana :: solana_lib where
  "toy_solana = \<lparr>
     find_program_address = (\<lambda>ss p. (concat ss @ [255], 255)),
     create_program_address = (\<lambda>ss p. if ss \<noteq> [] \<and> last ss = [255] then Some (concat ss) else None),
     is_on_curve = (\<lambda>k. k = [] \<or> last k \<noteq> 255),
     system_program = replicate 32 0,
     system_transfer = (\<lambda>a b n.
       toy_instruction (replicate 32 0) [a, b] ([2, 0, 0, 0] @ u64_to_le_bytes n)),
     spl_transfer_checked = (\<lambda>tp src mint dst auth n dec.
       if tp = [6] then Ok (toy_instruction tp [src, mint, dst, auth] ([12] @ u64_to_le_bytes n @ [dec]))
       else Err ''IncorrectProgramId''),
     spl_close_account = (\<lambda>tp acct dst auth.
       if tp = [6] then Ok (toy_instruction tp [acct, dst, auth] [9])
       else Err ''IncorrectProgramId''),
     spl_token_id = [6],
     associated_token_address = (\<lambda>w m t. w @ m @ t),
     create_ata_idempotent = (\<lambda>f w m t. toy_instruction [97] [f, w @ m @ t, w, m, t] [1])\<rparr>"

lemma concat_last_255: "ss \<noteq> [] \<Longrightarrow> last ss = [255] \<Longrightarrow> concat ss \<noteq> [] \<and> last (concat ss) = (255 :: u8)"
  by (metis append_butlast_last_id concat_append concat.simps append_Nil2 last_snoc snoc_eq_iff_butlast)

lemma pda_laws_toy: "pda_laws toy_solana"
  using concat_last_255 by (auto simp: pda_laws_def toy_solana_def split: if_splits)

lemma spl_laws_toy: "spl_laws toy_solana"
  by (simp add: spl_laws_def toy_solana_def toy_instruction_def)

text \<open>The effect of the toy system transfer.\<close>

definition toy_exec :: "instruction \<Rightarrow> (pubkey \<Rightarrow> nat) \<Rightarrow> (pubkey \<Rightarrow> nat) option" where
  "toy_exec ix bal =
     (let a = am_pubkey (accounts ix ! 0); b = am_pubkey (accounts ix ! 1);
          n = le_value (drop 4 (data ix))
      in if n \<le> bal a then Some (let bal' = bal(a := bal a - n) in bal'(b := bal' b + n)) else None)"

lemma transfer_law_toy: "transfer_law toy_solana toy_exec"
  by (simp add: transfer_law_def toy_exec_def toy_solana_def toy_instruction_def le_value_u64 Let_def)

end
