(* ===== verification/Keys.thy ===== *)
theory Keys
  imports Leb128 Instances
begin

text \<open>
  \<open>crates/slnt-sdk/src/keys.rs\<close>, key derivation: the network-bound canonical message, Method 2
  (HKDF over a signature), Method 1 (SLIP-0010 HD nodes), the mapping of two secrets to the
  spend and scan keys, and label tweaks.
\<close>

section \<open>Networks and the canonical message\<close>

datatype network = Mainnet | Devnet | Testnet | Localnet

fun label :: "network \<Rightarrow> string" where
  "label Mainnet = ''Mainnet''"
| "label Devnet = ''Devnet''"
| "label Testnet = ''Testnet''"
| "label Localnet = ''Localnet''"

definition canonical_message :: "network \<Rightarrow> string" where
  "canonical_message n =
     ''Slnt Protocol: Derive Stealth Keys'' @ [newline, newline] @
     ''Version: 1'' @ [newline] @
     ''Network: '' @ label n @ [newline] @
     ''Warning: Only sign this message in the Slnt wallet or a trusted Slnt integration.'' @
     [newline] @
     ''Signing this in any other context will reveal your stealth address scanning ability.''"

definition CANONICAL_MESSAGE_LOCALNET :: string where
  "CANONICAL_MESSAGE_LOCALNET =
     ''Slnt Protocol: Derive Stealth Keys'' @ [newline, newline] @
     ''Version: 1'' @ [newline] @ ''Network: Localnet'' @ [newline] @
     ''Warning: Only sign this message in the Slnt wallet or a trusted Slnt integration.'' @
     [newline] @
     ''Signing this in any other context will reveal your stealth address scanning ability.''"

text \<open>The four networks are an enumeration, so statements about all of them compute.\<close>

instantiation network :: enum
begin

definition enum_network :: "network list" where
  "enum_network = [Mainnet, Devnet, Testnet, Localnet]"

definition enum_all_network :: "(network \<Rightarrow> bool) \<Rightarrow> bool" where
  "enum_all_network P \<longleftrightarrow> P Mainnet \<and> P Devnet \<and> P Testnet \<and> P Localnet"

definition enum_ex_network :: "(network \<Rightarrow> bool) \<Rightarrow> bool" where
  "enum_ex_network P \<longleftrightarrow> P Mainnet \<or> P Devnet \<or> P Testnet \<or> P Localnet"

instance
proof
  show univ: "(UNIV :: network set) = set enum_class.enum"
    unfolding enum_network_def using network.exhaust by auto
  show "distinct (enum_class.enum :: network list)"
    by (simp add: enum_network_def)
  show "enum_class.enum_all P \<longleftrightarrow> Ball UNIV P" for P :: "network \<Rightarrow> bool"
    unfolding univ by (simp add: enum_all_network_def enum_network_def)
  show "enum_class.enum_ex P \<longleftrightarrow> Bex UNIV P" for P :: "network \<Rightarrow> bool"
    unfolding univ by (simp add: enum_ex_network_def enum_network_def)
qed

end

section \<open>Keys\<close>

definition META_ADDRESS_VERSION_V1 :: u8 where
  "META_ADDRESS_VERSION_V1 = 1"
definition SCHEME_ID_V1 :: u16 where
  "SCHEME_ID_V1 = 1"

definition HKDF_SALT_DERIVE :: bytes where
  "HKDF_SALT_DERIVE = ascii ''slnt-v1-derive''"
definition HKDF_INFO_SPEND_AND_SCAN :: bytes where
  "HKDF_INFO_SPEND_AND_SCAN = ascii ''spend-and-scan''"
definition HKDF_SALT_LABEL :: bytes where
  "HKDF_SALT_LABEL = ascii ''slnt-v1-label''"

record ('s, 'p) spend_key =
  spend_scalar :: 's
  spend_point :: 'p

definition spend_public_bytes :: "('s, 'p, 'k) crypto \<Rightarrow> ('s, 'p) spend_key \<Rightarrow> bytes" where
  "spend_public_bytes C k = compress C (spend_point k)"

record 'k scan_key =
  scan_raw :: bytes
  scan_secret :: 'k
  scan_public :: bytes

definition scan_public_bytes :: "'k scan_key \<Rightarrow> bytes" where
  "scan_public_bytes k = scan_public k"

definition from_raw :: "('s, 'p, 'k) crypto \<Rightarrow> bytes \<Rightarrow> 'k scan_key" where
  "from_raw C raw =
     (let static_secret = static_secret_from C raw;
          public = x25519_public C static_secret
      in \<lparr>scan_raw = raw, scan_secret = static_secret, scan_public = public\<rparr>)"

definition keys_from_secrets ::
  "('s, 'p, 'k) crypto \<Rightarrow> bytes \<Rightarrow> bytes \<Rightarrow>
     (slnt_error, ('s, 'p) spend_key \<times> 'k scan_key) outcome" where
  "keys_from_secrets C b_spend_raw b_scan_raw =
     (let b_spend = from_bytes_mod_order C b_spend_raw in
      if b_spend = scalar_zero C then Err Derivation
      else
        (let b_spend_point = point_mul C b_spend (basepoint C);
             scan_static = static_secret_from C b_scan_raw;
             scan_pub = x25519_public C scan_static
         in Ok (\<lparr>spend_scalar = b_spend, spend_point = b_spend_point\<rparr>,
                \<lparr>scan_raw = b_scan_raw, scan_secret = scan_static, scan_public = scan_pub\<rparr>)))"

text \<open>Method 2: the seed is split after expansion; \<open>copy_from_slice\<close> of \<open>seed[0..32]\<close>, \<open>seed[32..64]\<close>.\<close>

definition derive_stealth_keys ::
  "('s, 'p, 'k) crypto \<Rightarrow> bytes \<Rightarrow> (slnt_error, ('s, 'p) spend_key \<times> 'k scan_key) outcome" where
  "derive_stealth_keys C signature =
     obind (ok_or Derivation
              (hkdf_sha256 C HKDF_SALT_DERIVE signature HKDF_INFO_SPEND_AND_SCAN 64))
       (\<lambda>seed. keys_from_secrets C (take 32 seed) (take 32 (drop 32 seed)))"

definition derive_stealth_keys_checked ::
  "('s, 'p, 'k) crypto \<Rightarrow> bytes \<Rightarrow> bytes \<Rightarrow>
     (slnt_error, ('s, 'p) spend_key \<times> 'k scan_key) outcome" where
  "derive_stealth_keys_checked C signature confirmation =
     (if signature \<noteq> confirmation then Err NonDeterministicSignature
      else derive_stealth_keys C signature)"

section \<open>Method 1: SLIP-0010\<close>

definition SLNT_HD_PURPOSE :: u32 where
  "SLNT_HD_PURPOSE = 0x534C4E54"
definition SOLANA_COIN_TYPE :: u32 where
  "SOLANA_COIN_TYPE = 501"

definition harden :: "u32 \<Rightarrow> u32" where
  "harden index = index OR 0x80000000"

text \<open>One child step: \<open>HMAC-SHA512(chain, 0x00 || key || ser32(index))\<close>, split in key and chain.\<close>

fun slip10_children :: "('s, 'p, 'k) crypto \<Rightarrow> bytes \<Rightarrow> bytes \<Rightarrow> u32 list \<Rightarrow> bytes" where
  "slip10_children C key chain [] = key"
| "slip10_children C key chain (index # path) =
     (let i = hmac_sha512 C chain ([0] @ key @ u32_to_be_bytes index)
      in slip10_children C (take 32 i) (take 32 (drop 32 i)) path)"

definition slip10_ed25519_node :: "('s, 'p, 'k) crypto \<Rightarrow> bytes \<Rightarrow> u32 list \<Rightarrow> bytes" where
  "slip10_ed25519_node C seed path =
     (let i = hmac_sha512 C (ascii ''ed25519 seed'') seed
      in slip10_children C (take 32 i) (take 32 (drop 32 i)) path)"

definition derive_stealth_keys_hd ::
  "('s, 'p, 'k) crypto \<Rightarrow> bytes \<Rightarrow> u32 \<Rightarrow>
     (slnt_error, ('s, 'p) spend_key \<times> 'k scan_key) outcome" where
  "derive_stealth_keys_hd C seed account =
     (if length seed < 16 \<or> length seed > 64 then Err (InvalidSeedLength (length seed))
      else
        (let base = [harden SLNT_HD_PURPOSE, harden SOLANA_COIN_TYPE, harden account];
             spend_path = base @ [harden 0];
             scan_path = base @ [harden 1];
             b_spend_raw = slip10_ed25519_node C seed spend_path;
             b_scan_raw = slip10_ed25519_node C seed scan_path
         in keys_from_secrets C b_spend_raw b_scan_raw))"

section \<open>Label tweaks\<close>

definition label_tweak_scalar ::
  "('s, 'p, 'k) crypto \<Rightarrow> 'k scan_key \<Rightarrow> u32 \<Rightarrow> ('e, 's) outcome" where
  "label_tweak_scalar C scan label_index =
     (let info = write_leb128_u32 (ascii ''label-'') label_index in
      obind (expect_some (hkdf_sha256 C HKDF_SALT_LABEL (scan_raw scan) info 32))
        (\<lambda>out. Ok (from_bytes_mod_order C out)))"

section \<open>Well-formed keys\<close>

text \<open>
  What every derivation guarantees of its result: the spend point is the scalar's multiple of the
  base point, the scalar is not zero, and the scan key is the one its raw bytes determine.
\<close>

definition wf_spend :: "('s, 'p, 'k) crypto \<Rightarrow> ('s, 'p) spend_key \<Rightarrow> bool" where
  "wf_spend C k \<longleftrightarrow>
     spend_scalar k \<noteq> scalar_zero C \<and>
     spend_point k = point_mul C (spend_scalar k) (basepoint C)"

definition wf_scan :: "('s, 'p, 'k) crypto \<Rightarrow> 'k scan_key \<Rightarrow> bool" where
  "wf_scan C k \<longleftrightarrow> k = from_raw C (scan_raw k)"

lemma wf_scan_from_raw [wf_rules]: "wf_scan C (from_raw C raw)"
  by (simp add: wf_scan_def from_raw_def Let_def)

lemma wf_scanD:
  assumes "wf_scan C k"
  shows "scan_secret k = static_secret_from C (scan_raw k)"
    and "scan_public k = x25519_public C (scan_secret k)"
  using assms by (metis from_raw_def scan_key.select_convs wf_scan_def)+

lemma keys_from_secrets_wf [wf_rules]:
  assumes "keys_from_secrets C a b = Ok (spend, scan)"
  shows "wf_spend C spend" and "wf_scan C scan" and "scan_raw scan = b"
    and "spend_scalar spend = from_bytes_mod_order C a"
  using assms
  by (auto simp: keys_from_secrets_def Let_def wf_spend_def wf_scan_def from_raw_def split: if_splits)

lemma keys_from_secrets_no_panic: "keys_from_secrets C a b \<noteq> Panic"
  by (simp add: keys_from_secrets_def Let_def)

lemma keys_from_secrets_Err: "keys_from_secrets C a b = Err e \<Longrightarrow> e = Derivation"
  by (simp add: keys_from_secrets_def Let_def split: if_splits)

lemma derive_stealth_keys_wf [wf_rules]:
  assumes "derive_stealth_keys C sig = Ok (spend, scan)"
  shows "wf_spend C spend" and "wf_scan C scan"
  using assms keys_from_secrets_wf
  by (fastforce simp: derive_stealth_keys_def obind_Ok_iff)+

lemma derive_stealth_keys_hd_wf [wf_rules]:
  assumes "derive_stealth_keys_hd C seed account = Ok (spend, scan)"
  shows "wf_spend C spend" and "wf_scan C scan"
  using assms keys_from_secrets_wf
  by (fastforce simp: derive_stealth_keys_hd_def Let_def split: if_splits)+

lemma slip10_children_length:
  "hash_laws C \<Longrightarrow> length key = 32 \<Longrightarrow> length (slip10_children C key chain path) = 32"
  by (induction path arbitrary: key chain) (auto simp: Let_def hash_lawsD)

lemma slip10_node_length: "hash_laws C \<Longrightarrow> length (slip10_ed25519_node C seed path) = 32"
  by (simp add: slip10_ed25519_node_def Let_def slip10_children_length hash_lawsD)

text \<open>Derivation runs along the path: a longer path continues from the node of its prefix.\<close>

fun slip10_step :: "('s, 'p, 'k) crypto \<Rightarrow> bytes \<times> bytes \<Rightarrow> u32 \<Rightarrow> bytes \<times> bytes" where
  "slip10_step C (key, chain) index =
     (let i = hmac_sha512 C chain ([0] @ key @ u32_to_be_bytes index)
      in (take 32 i, take 32 (drop 32 i)))"

lemma slip10_children_foldl:
  "slip10_children C key chain path = fst (foldl (slip10_step C) (key, chain) path)"
  by (induction path arbitrary: key chain) (auto simp: Let_def)

text \<open>The label tweak is total once HKDF is: its \<open>expect\<close> never fires.\<close>

lemma label_tweak_total: "hash_laws C \<Longrightarrow> \<exists>m. label_tweak_scalar C scan i = Ok m"
  using hkdf_total [of C 32 HKDF_SALT_LABEL "scan_raw scan" "write_leb128_u32 (ascii ''label-'') i"]
  by (auto simp: label_tweak_scalar_def Let_def)

lemma label_tweak_retype:
  "label_tweak_scalar C scan i = (Ok m :: ('e, 's) outcome) \<Longrightarrow>
   label_tweak_scalar C scan i = (Ok m :: ('f, 's) outcome)"
  by (cases "hkdf_sha256 C HKDF_SALT_LABEL (scan_raw scan) (write_leb128_u32 (ascii ''label-'') i) 32")
    (auto simp: label_tweak_scalar_def Let_def)

text \<open>A signature and the keys the concrete instance derives from it, for witnesses.\<close>

definition toy_sig :: bytes where
  "toy_sig = 1 # replicate 63 0"
definition toy_spend :: "(u8, toy_point) spend_key" where
  "toy_spend = \<lparr>spend_scalar = 126, spend_point = (126, 0)\<rparr>"
definition toy_scan :: "u8 scan_key" where
  "toy_scan = from_raw toy_crypto (replicate 32 126)"

lemma toy_keys: "derive_stealth_keys toy_crypto toy_sig = Ok (toy_spend, toy_scan)"
  by code_simp

lemmas toy_keys_wf = derive_stealth_keys_wf [OF toy_keys]

section \<open>Properties\<close>

text \<open>The canonical message names exactly one network: two networks never share a message, so
  identities derived from signatures over it are separated per network.\<close>

theorem canonical_message_injective: "inj canonical_message"
proof (rule injI)
  fix m n :: network
  assume "canonical_message m = canonical_message n"
  then show "m = n" by (cases m; cases n) (simp_all add: canonical_message_def)
qed

text \<open>C20: Method 1 ignores the top bit of the account number. \<open>harden\<close> ORs the hardened bit in
  instead of adding it, so an account of at least \<open>2^31\<close> silently yields the keys of another
  account.\<close>

theorem hd_account_top_bit_ignored:
  "derive_stealth_keys_hd C seed (account OR 0x80000000) = derive_stealth_keys_hd C seed account"
  by (simp add: derive_stealth_keys_hd_def harden_def or.assoc)

text \<open>On accounts below \<open>2^31\<close> the hardened index is injective, so within the range SLIP-0010
  defines the paths of different accounts differ.\<close>

theorem harden_injective_below:
  assumes "a < 0x80000000" "b < 0x80000000" "harden a = harden b"
  shows "a = b"
proof -
  have low: "take_bit 31 w = w" if "w < 0x80000000" for w :: u32
    using that by (simp add: word_unat_eq_iff unsigned_take_bit_eq take_bit_nat_eq_self
        word_less_nat_alt)
  have clear: "take_bit 31 (harden w) = take_bit 31 w" for w
    by (rule bit_word_eqI) (auto simp: harden_def bit_take_bit_iff bit_or_iff
        dest: bit_imp_le_length)
  show ?thesis using arg_cong [OF assms(3), of "take_bit 31"] low assms(1,2) by (simp add: clear)
qed

theorem harden_injective_below_witness:
  "(0 :: u32) < 0x80000000 \<and> (harden 5 = harden 5 \<longrightarrow> (5 :: u32) = 5)"
  using harden_injective_below [of 5 5] by simp

text \<open>A Method 2 derivation that returns keys has split the 64 bytes HKDF expands from the
  signature: the spend scalar is the first half reduced, not zero, its point is its multiple of the
  base point, and the scan key is the one of the second half.\<close>

theorem derive_stealth_keys_spec:
  assumes "derive_stealth_keys C sig = Ok (spend, scan)"
  shows "\<exists>seed. hkdf_sha256 C HKDF_SALT_DERIVE sig HKDF_INFO_SPEND_AND_SCAN 64 = Some seed
     \<and> spend_scalar spend = from_bytes_mod_order C (take 32 seed)
     \<and> spend_scalar spend \<noteq> scalar_zero C
     \<and> spend_point spend = point_mul C (spend_scalar spend) (basepoint C)
     \<and> scan = from_raw C (take 32 (drop 32 seed))"
proof -
  from assms obtain seed where
    seed: "hkdf_sha256 C HKDF_SALT_DERIVE sig HKDF_INFO_SPEND_AND_SCAN 64 = Some seed"
    and keys: "keys_from_secrets C (take 32 seed) (take 32 (drop 32 seed)) = Ok (spend, scan)"
    by (auto simp: derive_stealth_keys_def obind_Ok_iff)
  from keys_from_secrets_wf [OF keys] seed show ?thesis
    by (intro exI [of _ seed]) (auto simp: wf_spend_def wf_scan_def)
qed

theorem derive_stealth_keys_spec_witness:
  "\<exists>seed. hkdf_sha256 toy_crypto HKDF_SALT_DERIVE toy_sig HKDF_INFO_SPEND_AND_SCAN 64 = Some seed
     \<and> spend_scalar toy_spend = from_bytes_mod_order toy_crypto (take 32 seed)
     \<and> toy_scan = from_raw toy_crypto (take 32 (drop 32 seed))"
  using derive_stealth_keys_spec [OF toy_keys] by blast

text \<open>Derivation never panics and fails only as documented: Method 1 with the seed's length
  outside 16..64 bytes, and either method when the spend scalar reduces to zero; the guarded
  Method 2 rejects two different signatures before deriving anything.\<close>

theorem derivation_errors:
  assumes "hash_laws C"
  shows "derive_stealth_keys C sig \<noteq> Panic
    \<and> derive_stealth_keys_hd C seed account \<noteq> Panic
    \<and> (derive_stealth_keys C sig = Err e \<longrightarrow> e = Derivation)
    \<and> (derive_stealth_keys_hd C seed account = Err e \<longrightarrow>
         (if length seed < 16 \<or> 64 < length seed then e = InvalidSeedLength (length seed)
          else e = Derivation))
    \<and> derive_stealth_keys_checked C sig conf =
         (if sig = conf then derive_stealth_keys C sig else Err NonDeterministicSignature)"
proof -
  obtain s where s: "hkdf_sha256 C HKDF_SALT_DERIVE sig HKDF_INFO_SPEND_AND_SCAN 64 = Some s"
    using hkdf_total [OF assms, of 64 HKDF_SALT_DERIVE sig HKDF_INFO_SPEND_AND_SCAN] by auto
  then show ?thesis
    by (auto simp: derive_stealth_keys_def derive_stealth_keys_hd_def derive_stealth_keys_checked_def
        Let_def keys_from_secrets_no_panic keys_from_secrets_Err split: if_splits)
qed

theorem derivation_errors_witness:
  "derive_stealth_keys_hd toy_crypto (replicate 15 0) 0 = Err (InvalidSeedLength 15)
   \<and> derive_stealth_keys_hd toy_crypto (replicate 16 0) 0 \<noteq> Panic"
  using derivation_errors [OF hash_laws_toy, of "replicate 64 7" "replicate 16 0" 0 Derivation "[]"]
  by (simp add: derive_stealth_keys_hd_def)

end
