(* ===== verification/Meta_Address.thy ===== *)
theory Meta_Address
  imports Keys
begin

text \<open>
  \<open>crates/slnt-sdk/src/keys.rs\<close>, the meta-address: building it from keys, with and without a
  label, and its bech32m codec. The body of \<open>decode_bech32m\<close> after the bech32 layer is
  \<open>decode_payload\<close>, the payload \<open>encode_bech32m\<close> builds is \<open>encode_payload\<close>.
\<close>

record meta_address =
  ma_version :: u8
  ma_b_spend :: bytes
  ma_b_scan :: bytes
  ma_label_index :: u32
  ma_flags :: u8

definition META_ADDRESS_HRP :: string where
  "META_ADDRESS_HRP = ''slnt''"

definition from_keys :: "('s, 'p, 'k) crypto \<Rightarrow> ('s, 'p) spend_key \<Rightarrow> 'k scan_key \<Rightarrow> meta_address" where
  "from_keys C spend scan =
     \<lparr>ma_version = META_ADDRESS_VERSION_V1,
      ma_b_spend = spend_public_bytes C spend,
      ma_b_scan = scan_public_bytes scan,
      ma_label_index = 0,
      ma_flags = 0\<rparr>"

definition for_label ::
  "('s, 'p, 'k) crypto \<Rightarrow> ('s, 'p) spend_key \<Rightarrow> 'k scan_key \<Rightarrow> u32 \<Rightarrow> ('e, meta_address) outcome" where
  "for_label C spend scan label_index =
     (if label_index = 0 then Ok (from_keys C spend scan)
      else
        obind (label_tweak_scalar C scan label_index) (\<lambda>m_i.
          let b_spend_i = point_add C (spend_point spend) (point_mul C m_i (basepoint C)) in
          Ok \<lparr>ma_version = META_ADDRESS_VERSION_V1,
              ma_b_spend = compress C b_spend_i,
              ma_b_scan = scan_public_bytes scan,
              ma_label_index = label_index,
              ma_flags = 0\<rparr>))"

definition encode_payload :: "meta_address \<Rightarrow> bytes" where
  "encode_payload m =
     write_leb128_u32 ([ma_version m] @ ma_b_spend m @ ma_b_scan m) (ma_label_index m)
     @ [ma_flags m]"

definition encode_bech32m :: "'h bech32_lib \<Rightarrow> meta_address \<Rightarrow> (slnt_error, string) outcome" where
  "encode_bech32m L m =
     obind (ok_or MetaAddressEncode (hrp_parse L META_ADDRESS_HRP)) (\<lambda>hrp.
       ok_or MetaAddressEncode (bech32m_encode L hrp (encode_payload m)))"

definition decode_payload :: "bytes \<Rightarrow> (slnt_error, meta_address) outcome" where
  "decode_payload d =
     (if length d < 67
      then Err (MetaAddressDecode (''payload too short: '' @ show_nat (length d) @ '' bytes''))
      else
        (let version = d ! 0 in
         if version \<noteq> META_ADDRESS_VERSION_V1 then Err (UnsupportedVersion version)
         else
           (let b_spend = take 32 (drop 1 d);
                b_scan = take 32 (drop 33 d)
            in obind (read_leb128_u32 (drop 65 d)) (\<lambda>(label_index, consumed).
                 let flags_offset = 65 + consumed in
                 if length d \<le> flags_offset then Err (MetaAddressDecode ''missing flags byte'')
                 else
                   (let flags = d ! flags_offset in
                    if length d \<noteq> flags_offset + 1
                    then Err (MetaAddressDecode
                           (show_nat (length d - flags_offset - 1) @ '' trailing bytes after payload''))
                    else if flags \<noteq> 0 then Err (UnsupportedFlags flags)
                    else Ok \<lparr>ma_version = version, ma_b_spend = b_spend, ma_b_scan = b_scan,
                             ma_label_index = label_index, ma_flags = flags\<rparr>)))))"

definition decode_bech32m :: "'h bech32_lib \<Rightarrow> string \<Rightarrow> (slnt_error, meta_address) outcome" where
  "decode_bech32m L s =
     obind (omap_err MetaAddressDecode (bech32_decode L s)) (\<lambda>(hrp, d).
       if hrp_as_str L hrp \<noteq> META_ADDRESS_HRP
       then Err (MetaAddressDecode
              (''expected HRP `slnt`, got `'' @ hrp_as_str L hrp @ ''`''))
       else decode_payload d)"

section \<open>Type invariant\<close>

text \<open>
  \<open>array_fields\<close> is what the Rust type says (two 32-byte arrays), \<open>wf_meta\<close> what a v1 client
  accepts.
\<close>

definition array_fields :: "meta_address \<Rightarrow> bool" where
  "array_fields m \<longleftrightarrow> is_array 32 (ma_b_spend m) \<and> is_array 32 (ma_b_scan m)"

definition wf_meta :: "meta_address \<Rightarrow> bool" where
  "wf_meta m \<longleftrightarrow> array_fields m \<and> ma_version m = META_ADDRESS_VERSION_V1 \<and> ma_flags m = 0"

lemma from_keys_wf [wf_rules]:
  assumes "compress_laws C" "dh_laws C" "wf_scan C scan"
  shows "wf_meta (from_keys C spend scan)"
  using assms by (simp add: wf_meta_def array_fields_def from_keys_def spend_public_bytes_def
      scan_public_bytes_def compress_lawsD dh_lawsD wf_scanD)

lemma for_label_wf [wf_rules]:
  assumes "compress_laws C" "dh_laws C" "wf_scan C scan" "for_label C spend scan i = Ok m"
  shows "wf_meta m \<and> ma_label_index m = i \<and> ma_b_scan m = scan_public scan"
  using assms from_keys_wf [OF assms(1-3), of spend]
  by (auto simp: for_label_def obind_Ok_iff Let_def wf_meta_def array_fields_def compress_lawsD
      scan_public_bytes_def dh_lawsD wf_scanD from_keys_def split: if_splits)

section \<open>The payload codec\<close>

lemma encode_payload_split:
  "encode_payload m = ma_version m # ma_b_spend m @ ma_b_scan m @ leb128 (ma_label_index m) @ [ma_flags m]"
  using write_leb128_append [of "[ma_version m] @ ma_b_spend m @ ma_b_scan m" "ma_label_index m"]
  by (simp add: encode_payload_def)

lemma length_encode_payload:
  "array_fields m \<Longrightarrow> length (encode_payload m) = 66 + length (leb128 (ma_label_index m))"
  by (simp add: encode_payload_split array_fields_def)

lemma payload_length_bounds:
  "array_fields m \<Longrightarrow> 67 \<le> length (encode_payload m) \<and> length (encode_payload m) \<le> 71"
  using length_leb128_ge_1 [of "ma_label_index m"] length_leb128_le_5 [of "ma_label_index m"]
  by (simp add: length_encode_payload)

text \<open>
  Decoding a payload whose label field is any byte string \<open>lab\<close> the LEB128 reader accepts as a
  whole: what the decoder does after the two arrays.
\<close>

lemma decode_payload_parts:
  assumes "is_array 32 bsp" "is_array 32 bsc" "lab \<noteq> []"
    and "read_leb128_u32 (lab @ [fl]) = Ok (i, length lab)"
  shows "decode_payload (v # bsp @ bsc @ lab @ [fl]) =
    (if v \<noteq> META_ADDRESS_VERSION_V1 then Err (UnsupportedVersion v)
     else if fl \<noteq> 0 then Err (UnsupportedFlags fl)
     else Ok \<lparr>ma_version = v, ma_b_spend = bsp, ma_b_scan = bsc, ma_label_index = i, ma_flags = fl\<rparr>)"
proof -
  let ?d = "v # bsp @ bsc @ lab @ [fl]"
  have len: "length ?d = 66 + length lab" using assms by simp
  have long: "\<not> length ?d < 67" using len assms(3) by (cases lab) auto
  have at: "drop 65 ?d = lab @ [fl]" "take 32 (drop 33 ?d) = bsc" "take 32 (drop 1 ?d) = bsp"
    "?d ! (65 + length lab) = fl"
    using assms by (simp_all add: drop_Cons' nth_Cons' nth_append)
  show ?thesis
    using long len at assms(4) by (simp add: decode_payload_def Let_def)
qed

lemma decode_encode_payload:
  assumes "array_fields m"
  shows "decode_payload (encode_payload m) =
    (if ma_version m \<noteq> META_ADDRESS_VERSION_V1 then Err (UnsupportedVersion (ma_version m))
     else if ma_flags m \<noteq> 0 then Err (UnsupportedFlags (ma_flags m))
     else Ok m)"
  using decode_payload_parts [of "ma_b_spend m" "ma_b_scan m" "leb128 (ma_label_index m)"
      "ma_flags m" "ma_label_index m" "ma_version m"] assms
  by (simp add: encode_payload_split array_fields_def read_leb128_write)

text \<open>Cutting a payload where the decoder cuts it.\<close>

lemma payload_split:
  assumes "67 \<le> length d"
  shows "d = [d ! 0] @ take 32 (drop 1 d) @ take 32 (drop 33 d) @ take (length d - 66) (drop 65 d)
    @ [last d]"
proof -
  have "drop 65 d \<noteq> []" "last (drop 65 d) = last d" using assms by auto
  then have "drop 65 d = butlast (drop 65 d) @ [last d]"
    by (metis append_butlast_last_id)
  moreover have "butlast (drop 65 d) = take (length d - 66) (drop 65 d)"
    using assms by (simp add: butlast_conv_take)
  moreover have "drop 33 d = take 32 (drop 33 d) @ drop 65 d" "drop 1 d = take 32 (drop 1 d) @ drop 33 d"
    using append_take_drop_id [of 32 "drop 33 d"] append_take_drop_id [of 32 "drop 1 d"]
    by (simp_all add: drop_drop)
  moreover have "d = [d ! 0] @ drop 1 d" using assms by (cases d) auto
  ultimately show ?thesis by metis
qed

text \<open>What a successful decode says about the bytes.\<close>

lemma decode_payload_Ok:
  assumes "decode_payload d = Ok m"
  shows "wf_meta m" and "67 \<le> length d" and "length d \<le> 71"
    and "length (encode_payload m) \<le> length d"
    and "\<exists>n. read_leb128_u32 (drop 65 d) = Ok (ma_label_index m, n) \<and> length d = 66 + n"
    and "d ! 0 = ma_version m" and "take 32 (drop 1 d) = ma_b_spend m"
    and "take 32 (drop 33 d) = ma_b_scan m" and "last d = ma_flags m"
proof -
  from assms have long: "67 \<le> length d" by (auto simp: decode_payload_def split: if_splits)
  with assms obtain i n where
    rd: "read_leb128_u32 (drop 65 d) = Ok (i, n)" and len: "length d = 66 + n"
    and m: "m = \<lparr>ma_version = d ! 0, ma_b_spend = take 32 (drop 1 d),
      ma_b_scan = take 32 (drop 33 d), ma_label_index = i, ma_flags = d ! (65 + n)\<rparr>"
    and v: "d ! 0 = META_ADDRESS_VERSION_V1" and fl: "d ! (65 + n) = 0"
    by (auto simp: decode_payload_def Let_def obind_Ok_iff split: if_splits)
  note b = read_leb128_bounds [OF rd]
  show wf: "wf_meta m" using long m v fl by (simp add: wf_meta_def array_fields_def)
  show "67 \<le> length d" by (rule long)
  show "length d \<le> 71" using len b by simp
  show "length (encode_payload m) \<le> length d"
  proof -
    have "ma_label_index m = i" using m by simp
    moreover have "array_fields m" using wf by (simp only: wf_meta_def)
    ultimately show ?thesis using length_encode_payload [of m] b(4) len by simp
  qed
  show "\<exists>n. read_leb128_u32 (drop 65 d) = Ok (ma_label_index m, n) \<and> length d = 66 + n"
    using rd len m by auto
  show "d ! 0 = ma_version m" "take 32 (drop 1 d) = ma_b_spend m"
    "take 32 (drop 33 d) = ma_b_scan m" using m by simp_all
  show "last d = ma_flags m" using len m long last_conv_nth [of d] by fastforce
qed

text \<open>
  The text of any meta-address with 32-byte keys is free of surrounding space, and decodes to the
  meta-address, or to the error that names its version or flags.
\<close>

lemma encode_any:
  assumes "bech32_laws L" "array_fields m"
  shows "\<exists>t. encode_bech32m L m = Ok t \<and> trimmed t \<and>
    decode_bech32m L t =
      (if ma_version m \<noteq> META_ADDRESS_VERSION_V1 then Err (UnsupportedVersion (ma_version m))
       else if ma_flags m \<noteq> 0 then Err (UnsupportedFlags (ma_flags m))
       else Ok m)"
proof -
  obtain h where h: "hrp_parse L ''slnt'' = Some h" "hrp_as_str L h = ''slnt''"
    and enc: "\<And>d. length d \<le> 71 \<Longrightarrow>
      \<exists>t. bech32m_encode L h d = Some t \<and> (\<forall>c \<in> set t. printable c) \<and> bech32_decode L t = Ok (h, d)"
    using bech32_lawsE [OF assms(1)] by blast
  from enc payload_length_bounds [OF assms(2)] obtain t where
    "bech32m_encode L h (encode_payload m) = Some t" "\<forall>c \<in> set t. printable c"
    "bech32_decode L t = Ok (h, encode_payload m)"
    by blast
  with h show ?thesis
    by (intro exI [of _ t]) (simp add: encode_bech32m_def decode_bech32m_def META_ADDRESS_HRP_def
        decode_encode_payload [OF assms(2)] printable_trimmed)
qed

lemma encode_printable:
  "bech32_laws L \<Longrightarrow> wf_meta m \<Longrightarrow> \<exists>t. encode_bech32m L m = Ok t \<and> trimmed t \<and> decode_bech32m L t = Ok m"
  using encode_any [of L m] by (auto simp: wf_meta_def)

section \<open>Properties\<close>

text \<open>C15: encoding a meta-address never fails and decoding its text gives exactly the same
  meta-address back, or, for a version or flags byte a v1 client must reject, the error that names
  that byte (the version first).\<close>

theorem meta_address_roundtrip:
  assumes "bech32_laws L" "array_fields m"
  shows "\<exists>t. encode_bech32m L m = Ok t \<and>
    decode_bech32m L t =
      (if ma_version m \<noteq> META_ADDRESS_VERSION_V1 then Err (UnsupportedVersion (ma_version m))
       else if ma_flags m \<noteq> 0 then Err (UnsupportedFlags (ma_flags m))
       else Ok m)"
  using encode_any [OF assms] by blast

theorem meta_address_roundtrip_witness:
  "\<exists>t. encode_bech32m plain_bech32 (from_keys toy_crypto toy_spend toy_scan) = Ok t
     \<and> decode_bech32m plain_bech32 t = Ok (from_keys toy_crypto toy_spend toy_scan)"
proof -
  have "wf_meta (from_keys toy_crypto toy_spend toy_scan)"
    using toy_keys_wf by (intro from_keys_wf compress_laws_toy dh_laws_toy)
  then show ?thesis
    using meta_address_roundtrip [OF bech32_laws_plain, of "from_keys toy_crypto toy_spend toy_scan"]
    by (simp add: wf_meta_def)
qed

text \<open>C16: whatever text \<open>decode_bech32m\<close> accepts, the result is a v1 meta-address with 32-byte
  keys, version 1 and zero flags, read from a payload of 67 to 71 bytes that has nothing after the
  flags byte.\<close>

theorem decode_bech32m_sound:
  assumes "decode_bech32m L s = Ok m"
  shows "\<exists>hrp d. bech32_decode L s = Ok (hrp, d) \<and> hrp_as_str L hrp = ''slnt'' \<and>
    is_array 32 (ma_b_spend m) \<and> is_array 32 (ma_b_scan m) \<and>
    ma_version m = 1 \<and> ma_flags m = 0 \<and> 67 \<le> length d \<and> length d \<le> 71 \<and>
    d = [ma_version m] @ ma_b_spend m @ ma_b_scan m @ take (length d - 66) (drop 65 d) @ [ma_flags m]"
proof -
  from assms obtain hrp d where bd: "bech32_decode L s = Ok (hrp, d)"
    and hrp: "hrp_as_str L hrp = ''slnt''" and dec: "decode_payload d = Ok m"
    by (auto simp: decode_bech32m_def obind_Ok_iff META_ADDRESS_HRP_def split: if_splits)
  note ok = decode_payload_Ok [OF dec]
  have "d = [ma_version m] @ ma_b_spend m @ ma_b_scan m @ take (length d - 66) (drop 65 d) @ [ma_flags m]"
    using payload_split [OF ok(2)] ok(6-9) by simp
  then show ?thesis
    using bd hrp ok(1,2,3) by (auto simp: wf_meta_def array_fields_def META_ADDRESS_VERSION_V1_def)
qed

theorem decode_bech32m_sound_witness:
  "\<exists>t hrp d. bech32_decode plain_bech32 t = Ok (hrp, d) \<and> hrp_as_str plain_bech32 hrp = ''slnt''
     \<and> length d = 67
     \<and> decode_bech32m plain_bech32 t = Ok (from_keys toy_crypto toy_spend toy_scan)"
proof -
  let ?m = "from_keys toy_crypto toy_spend toy_scan"
  let ?t = "''slnt1'' @ hex_of (encode_payload ?m)"
  have dec: "decode_bech32m plain_bech32 ?t = Ok ?m" by code_simp
  obtain hrp d where "bech32_decode plain_bech32 ?t = Ok (hrp, d)" "hrp_as_str plain_bech32 hrp = ''slnt''"
    using decode_bech32m_sound [OF dec] by blast
  moreover from this(1) have "length d = 67"
    by (auto simp: plain_bech32_def plain_bech32_decode_def unhex_hex_of Let_def
        length_encode_payload array_fields_def from_keys_def spend_public_bytes_def
        scan_public_bytes_def toy_spend_def toy_scan_def from_raw_def toy_crypto_def leb128_last)
  ultimately show ?thesis using dec by blast
qed

text \<open>C17: the decoder is not injective: padding the label's LEB128 with a zero digit gives a
  different payload that is accepted as the same meta-address, for every label below \<open>2^28\<close>. The
  sRFC (5.2.2, 5.2.3) requires the canonical minimal representation.\<close>

theorem decode_accepts_padded_label:
  assumes "wf_meta m" "ma_label_index m < 0x10000000"
  shows "decode_payload ([ma_version m] @ ma_b_spend m @ ma_b_scan m
           @ leb128_padded (ma_label_index m) @ [ma_flags m]) = Ok m
    \<and> [ma_version m] @ ma_b_spend m @ ma_b_scan m @ leb128_padded (ma_label_index m) @ [ma_flags m]
        \<noteq> encode_payload m"
proof -
  let ?i = "ma_label_index m"
  have "unat ?i < 128 ^ 4" using assms(2) by (simp add: word_less_nat_alt)
  then have short: "length (leb128_padded ?i) \<le> 5"
    using length_leb128_le_iff [of 4 ?i] by (simp add: length_leb128_padded)
  then have "read_leb128_u32 (leb128_padded ?i @ [ma_flags m]) = Ok (?i, length (leb128_padded ?i))"
    using u32_in_u64 [of ?i] by (simp add: read_leb128_u32_def read_leb128_loop_padded)
  moreover have "leb128_padded ?i \<noteq> []" by (simp add: leb128_padded_def)
  ultimately have "decode_payload ([ma_version m] @ ma_b_spend m @ ma_b_scan m
           @ leb128_padded ?i @ [ma_flags m]) = Ok m"
    using decode_payload_parts [of "ma_b_spend m" "ma_b_scan m" "leb128_padded ?i" "ma_flags m" ?i
        "ma_version m"] assms(1)
    by (simp add: wf_meta_def array_fields_def)
  moreover have "leb128_padded ?i \<noteq> leb128 ?i"
    using length_leb128_padded [of ?i] by (metis n_not_Suc_n Suc_eq_plus1)
  ultimately show ?thesis by (simp add: encode_payload_split)
qed

theorem decode_accepts_padded_label_witness:
  "decode_payload ([1] @ replicate 32 3 @ replicate 32 4 @ leb128_padded 12345 @ [0]) =
     Ok \<lparr>ma_version = 1, ma_b_spend = replicate 32 3, ma_b_scan = replicate 32 4,
         ma_label_index = 12345, ma_flags = 0\<rparr>"
  using decode_accepts_padded_label [of "\<lparr>ma_version = 1, ma_b_spend = replicate 32 3,
      ma_b_scan = replicate 32 4, ma_label_index = 12345, ma_flags = 0\<rparr>"]
  by (simp add: wf_meta_def array_fields_def META_ADDRESS_VERSION_V1_def)

text \<open>Among all payloads that decode to a given meta-address the encoder's is the shortest, and
  the only one of its length.\<close>

theorem encode_payload_minimal:
  assumes "decode_payload d = Ok m"
  shows "length (encode_payload m) \<le> length d
    \<and> (length (encode_payload m) = length d \<longrightarrow> d = encode_payload m)"
proof (intro conjI impI)
  show "length (encode_payload m) \<le> length d" using assms by (rule decode_payload_Ok)
next
  assume same: "length (encode_payload m) = length d"
  note ok = decode_payload_Ok [OF assms]
  obtain n where n: "read_leb128_u32 (drop 65 d) = Ok (ma_label_index m, n)" "length d = 66 + n"
    using ok(5) by blast
  have "length (leb128 (ma_label_index m)) = n"
    using same n(2) ok(1) length_encode_payload [of m] by (simp add: wf_meta_def)
  with n(1) have "take n (drop 65 d) = leb128 (ma_label_index m)" by (rule read_leb128_minimal)
  then show "d = encode_payload m"
    using payload_split [OF ok(2)] ok(6-9) n(2) by (simp add: encode_payload_split)
qed

theorem encode_payload_minimal_witness:
  "length (encode_payload \<lparr>ma_version = 1, ma_b_spend = replicate 32 3, ma_b_scan = replicate 32 4,
     ma_label_index = 12345, ma_flags = 0\<rparr>)
   \<le> length ([1 :: u8] @ replicate 32 3 @ replicate 32 4 @ [0xb9, 0xe0, 0] @ [0])"
proof -
  have "decode_payload ([1] @ replicate 32 3 @ replicate 32 4 @ [0xb9, 0xe0, 0] @ [0]) =
      Ok \<lparr>ma_version = 1, ma_b_spend = replicate 32 3, ma_b_scan = replicate 32 4,
        ma_label_index = 12345, ma_flags = 0\<rparr>"
    by code_simp
  then show ?thesis using encode_payload_minimal by blast
qed

end
