(* ===== verification/Sender.thy ===== *)
theory Sender
  imports Meta_Address
begin

text \<open>
  \<open>crates/slnt-sdk/src/sender.rs\<close>: the sender derives a one-time address for a meta-address. The
  random generator is passed and returned; \<open>fill\<close> is its \<open>fill_bytes\<close>. An error before the
  ephemeral key is drawn leaves the generator as it was.
\<close>

text \<open>The tag has 13 bytes, one fewer than its comment in the source says; 13 is what is hashed.\<close>

definition TWEAK_TAG :: bytes where
  "TWEAK_TAG = ascii ''slnt-v1-tweak''"

record stealth_payment =
  stealth_address :: pubkey
  ephemeral_pub :: bytes
  view_tag :: u8

definition shared_secret_is_zero :: "bytes \<Rightarrow> bool" where
  "shared_secret_is_zero s = list_all (\<lambda>b. b = 0) s"

definition compute_view_tag :: "('s, 'p, 'k) crypto \<Rightarrow> bytes \<Rightarrow> u8" where
  "compute_view_tag C s = sha256 C ([of_nat (length TWEAK_TAG)] @ TWEAK_TAG @ s) ! 0"

definition compute_tweak :: "('s, 'p, 'k) crypto \<Rightarrow> bytes \<Rightarrow> u8 \<Rightarrow> 's" where
  "compute_tweak C s vt =
     from_bytes_mod_order C
       (sha256 C ([of_nat (length TWEAK_TAG)] @ TWEAK_TAG @ s @ [vt]))"

definition derive_payment ::
  "('s, 'p, 'k) crypto \<Rightarrow> ('r \<Rightarrow> nat \<Rightarrow> bytes \<times> 'r) \<Rightarrow> meta_address \<Rightarrow> 'r \<Rightarrow>
     (slnt_error, stealth_payment) outcome \<times> 'r" where
  "derive_payment C fill meta rng =
     (if ma_version meta \<noteq> META_ADDRESS_VERSION_V1
      then (Err (UnsupportedVersion (ma_version meta)), rng)
      else if ma_flags meta \<noteq> 0 then (Err (UnsupportedFlags (ma_flags meta)), rng)
      else
        (case decompress C (ma_b_spend meta) of
           None \<Rightarrow> (Err InvalidPoint, rng)
         | Some b_spend \<Rightarrow>
             if is_small_order C b_spend \<or> \<not> is_torsion_free C b_spend
             then (Err InvalidPoint, rng)
             else
               (let (r_bytes, rng') = fill rng 32;
                    r = static_secret_from C r_bytes;
                    r_public = x25519_public C r;
                    s = diffie_hellman C r (ma_b_scan meta)
                in if shared_secret_is_zero s then (Err InvalidSharedSecret, rng')
                   else
                     (let vt = compute_view_tag C s;
                          t = compute_tweak C s vt;
                          p_stealth = point_add C b_spend (point_mul C t (basepoint C))
                      in (Ok \<lparr>stealth_address = compress C p_stealth,
                              ephemeral_pub = r_public,
                              view_tag = vt\<rparr>, rng')))))"

text \<open>What a successful derivation has computed.\<close>

lemma derive_payment_Ok:
  assumes "derive_payment C fill meta rng = (Ok p, rng')"
  obtains b_spend r_bytes r s where
    "ma_version meta = META_ADDRESS_VERSION_V1" "ma_flags meta = 0"
    "decompress C (ma_b_spend meta) = Some b_spend"
    "\<not> is_small_order C b_spend" "is_torsion_free C b_spend"
    "fill rng 32 = (r_bytes, rng')" "r = static_secret_from C r_bytes"
    "s = diffie_hellman C r (ma_b_scan meta)" "\<not> shared_secret_is_zero s"
    "ephemeral_pub p = x25519_public C r" "view_tag p = compute_view_tag C s"
    "stealth_address p =
       compress C (point_add C b_spend (point_mul C (compute_tweak C s (view_tag p)) (basepoint C)))"
  using assms
  by (auto simp: derive_payment_def Let_def split: if_splits option.splits prod.splits)

section \<open>Properties\<close>

text \<open>C18: what the sender refuses and what it pays. A payment is made only to a usable meta-address:
  version 1, zero flags, a spend key that decompresses to a point of prime order (not small-order,
  no torsion) and a scan key with a nonzero shared secret; its address, ephemeral key and view tag
  are computed from fresh randomness and the shared secret under the 13-byte tag the code hashes.
  Otherwise the error names the first check that failed, and only a zero shared secret is found
  after randomness was drawn.\<close>

theorem derive_payment_checks:
  assumes "derive_payment C fill meta rng = (r, rng')"
  shows "(\<forall>p. r = Ok p \<longrightarrow>
      ma_version meta = 1 \<and> ma_flags meta = 0 \<and>
      (\<exists>b_spend r_bytes.
         decompress C (ma_b_spend meta) = Some b_spend \<and>
         \<not> is_small_order C b_spend \<and> is_torsion_free C b_spend \<and>
         fill rng 32 = (r_bytes, rng') \<and>
         (let k = static_secret_from C r_bytes; s = diffie_hellman C k (ma_b_scan meta) in
            (\<exists>b \<in> set s. b \<noteq> 0) \<and>
            ephemeral_pub p = x25519_public C k \<and>
            view_tag p = sha256 C ([13] @ ascii ''slnt-v1-tweak'' @ s) ! 0 \<and>
            stealth_address p = compress C (point_add C b_spend
              (point_mul C (from_bytes_mod_order C
                 (sha256 C ([13] @ ascii ''slnt-v1-tweak'' @ s @ [view_tag p]))) (basepoint C))))))
    \<and> (\<forall>e. r = Err e \<longrightarrow>
      (if ma_version meta \<noteq> 1 then e = UnsupportedVersion (ma_version meta) \<and> rng' = rng
       else if ma_flags meta \<noteq> 0 then e = UnsupportedFlags (ma_flags meta) \<and> rng' = rng
       else if \<exists>P. decompress C (ma_b_spend meta) = Some P \<and> \<not> is_small_order C P \<and> is_torsion_free C P
       then e = InvalidSharedSecret \<and> rng' = snd (fill rng 32) \<and>
         (\<forall>b \<in> set (diffie_hellman C (static_secret_from C (fst (fill rng 32))) (ma_b_scan meta)). b = 0)
       else e = InvalidPoint \<and> rng' = rng))"
proof (intro conjI allI impI)
  fix p assume "r = Ok p"
  with assms have "derive_payment C fill meta rng = (Ok p, rng')" by simp
  note ok = derive_payment_Ok [OF this]
  have tag: "[of_nat (length TWEAK_TAG)] = [13 :: u8]" by (simp add: TWEAK_TAG_def ascii_def)
  show "ma_version meta = 1" "ma_flags meta = 0"
    by (rule ok, simp add: META_ADDRESS_VERSION_V1_def)+
  show "\<exists>b_spend r_bytes.
         decompress C (ma_b_spend meta) = Some b_spend \<and>
         \<not> is_small_order C b_spend \<and> is_torsion_free C b_spend \<and>
         fill rng 32 = (r_bytes, rng') \<and>
         (let k = static_secret_from C r_bytes; s = diffie_hellman C k (ma_b_scan meta) in
            (\<exists>b \<in> set s. b \<noteq> 0) \<and>
            ephemeral_pub p = x25519_public C k \<and>
            view_tag p = sha256 C ([13] @ ascii ''slnt-v1-tweak'' @ s) ! 0 \<and>
            stealth_address p = compress C (point_add C b_spend
              (point_mul C (from_bytes_mod_order C
                 (sha256 C ([13] @ ascii ''slnt-v1-tweak'' @ s @ [view_tag p]))) (basepoint C))))"
    by (rule ok)
      (auto simp: compute_view_tag_def compute_tweak_def tag TWEAK_TAG_def [symmetric]
        shared_secret_is_zero_def list_all_iff Let_def)
next
  fix e assume "r = Err e"
  with assms show "if ma_version meta \<noteq> 1 then e = UnsupportedVersion (ma_version meta) \<and> rng' = rng
       else if ma_flags meta \<noteq> 0 then e = UnsupportedFlags (ma_flags meta) \<and> rng' = rng
       else if \<exists>P. decompress C (ma_b_spend meta) = Some P \<and> \<not> is_small_order C P \<and> is_torsion_free C P
       then e = InvalidSharedSecret \<and> rng' = snd (fill rng 32) \<and>
         (\<forall>b \<in> set (diffie_hellman C (static_secret_from C (fst (fill rng 32))) (ma_b_scan meta)). b = 0)
       else e = InvalidPoint \<and> rng' = rng"
    by (auto simp: derive_payment_def Let_def META_ADDRESS_VERSION_V1_def shared_secret_is_zero_def
        list_all_iff split: if_splits option.splits prod.splits)
qed

text \<open>A generator for witnesses: it returns its state and moves on.\<close>

definition toy_fill :: "u8 \<Rightarrow> nat \<Rightarrow> bytes \<times> u8" where
  "toy_fill rng n = (rng # replicate (n - 1) 0, rng + 1)"

definition toy_meta :: meta_address where
  "toy_meta = from_keys toy_crypto toy_spend toy_scan"

definition toy_payment :: stealth_payment where
  "toy_payment =
     (case fst (derive_payment toy_crypto toy_fill toy_meta 3) of Ok p \<Rightarrow> p)"

lemma toy_payment: "derive_payment toy_crypto toy_fill toy_meta 3 = (Ok toy_payment, 4)"
  by code_simp

theorem derive_payment_checks_witness:
  "ephemeral_pub toy_payment = pad32 [3] \<and>
   (\<exists>b_spend. decompress toy_crypto (ma_b_spend toy_meta) = Some b_spend
      \<and> is_torsion_free toy_crypto b_spend) \<and>
   fst (derive_payment toy_crypto toy_fill (toy_meta\<lparr>ma_flags := 1\<rparr>) 3) = Err (UnsupportedFlags 1)"
proof -
  have "fst (derive_payment toy_crypto toy_fill (toy_meta\<lparr>ma_flags := 1\<rparr>) 3) = Err (UnsupportedFlags 1)"
    by code_simp
  then show ?thesis
    using conjunct1 [OF derive_payment_checks [OF toy_payment]]
    by (auto simp: toy_fill_def toy_crypto_def Let_def)
qed

text \<open>Paying a meta-address built from derived keys fails only with a zero shared secret: the
  checks on version, flags and spend key all pass, for every generator.\<close>

theorem derived_meta_is_payable:
  assumes "group_laws C" "compress_laws C" "wf_spend C spend" "wf_scan C scan"
    and "fill rng 32 = (r_bytes, rng')"
  shows "(\<exists>p. derive_payment C fill (from_keys C spend scan) rng = (Ok p, rng')) \<longleftrightarrow>
    (\<exists>b \<in> set (diffie_hellman C (static_secret_from C r_bytes) (scan_public scan)). b \<noteq> 0)"
  using assms
  by (auto simp: derive_payment_def from_keys_def spend_public_bytes_def scan_public_bytes_def
      compress_lawsD group_lawsD wf_spend_def shared_secret_is_zero_def list_all_iff Let_def)

theorem derived_meta_is_payable_witness:
  "\<exists>p. derive_payment toy_crypto toy_fill (from_keys toy_crypto toy_spend toy_scan) 3 = (Ok p, 4)"
proof -
  have "toy_fill 3 32 = (3 # replicate 31 0, 4)" by (simp add: toy_fill_def)
  moreover have "\<exists>b \<in> set (diffie_hellman toy_crypto (static_secret_from toy_crypto (3 # replicate 31 0))
      (scan_public toy_scan)). b \<noteq> 0"
    by (simp add: toy_crypto_def toy_scan_def from_raw_def pad32_def)
  ultimately show ?thesis
    using derived_meta_is_payable [OF group_laws_toy compress_laws_toy toy_keys_wf, of toy_fill 3]
    by blast
qed

end
