(* ===== verification/Recipient.thy ===== *)
theory Recipient
  imports Sender
begin

text \<open>
  \<open>crates/slnt-sdk/src/recipient.rs\<close>: scanning announcements with the scan key, with and without
  labels, and the view-only filter of a delegated scanner.
\<close>

record 's note_match =
  nm_stealth_address :: pubkey
  nm_stealth_scalar :: 's
  nm_label_index :: u32

definition address_for_scalar :: "('s, 'p, 'k) crypto \<Rightarrow> 's \<Rightarrow> pubkey" where
  "address_for_scalar C a = compress C (point_mul C a (basepoint C))"

definition scan_note ::
  "('s, 'p, 'k) crypto \<Rightarrow> ('s, 'p) spend_key \<Rightarrow> 'k scan_key \<Rightarrow> bytes \<Rightarrow> u8 \<Rightarrow>
     (slnt_error, 's note_match option) outcome" where
  "scan_note C spend scan eph note_view_tag =
     (let s_candidate = diffie_hellman C (scan_secret scan) eph in
      if shared_secret_is_zero s_candidate then Ok None
      else
        (let vt_candidate = compute_view_tag C s_candidate in
         if vt_candidate \<noteq> note_view_tag then Ok None
         else
           (let t = compute_tweak C s_candidate note_view_tag;
                p_stealth_point =
                  point_add C (spend_point spend) (point_mul C t (basepoint C))
            in Ok (Some \<lparr>nm_stealth_address = compress C p_stealth_point,
                         nm_stealth_scalar = scalar_add C (spend_scalar spend) t,
                         nm_label_index = 0\<rparr>))))"

text \<open>The loop over the known labels appends to \<open>out\<close>; label 0 is skipped.\<close>

fun label_candidates ::
  "('s, 'p, 'k) crypto \<Rightarrow> ('s, 'p) spend_key \<Rightarrow> 'k scan_key \<Rightarrow> 's \<Rightarrow> u32 list \<Rightarrow>
     's note_match list \<Rightarrow> (slnt_error, 's note_match list) outcome" where
  "label_candidates C spend scan t [] out = Ok out"
| "label_candidates C spend scan t (i # known_labels) out =
     (if i = 0 then label_candidates C spend scan t known_labels out
      else
        obind (label_tweak_scalar C scan i) (\<lambda>m_i.
          let scalar = scalar_add C (scalar_add C (spend_scalar spend) m_i) t in
          label_candidates C spend scan t known_labels
            (out @ [\<lparr>nm_stealth_address = address_for_scalar C scalar,
                     nm_stealth_scalar = scalar,
                     nm_label_index = i\<rparr>])))"

definition scan_note_candidates ::
  "('s, 'p, 'k) crypto \<Rightarrow> ('s, 'p) spend_key \<Rightarrow> 'k scan_key \<Rightarrow> bytes \<Rightarrow> u8 \<Rightarrow> u32 list \<Rightarrow>
     (slnt_error, 's note_match list) outcome" where
  "scan_note_candidates C spend scan eph note_view_tag known_labels =
     (let s_candidate = diffie_hellman C (scan_secret scan) eph in
      if shared_secret_is_zero s_candidate then Ok []
      else if compute_view_tag C s_candidate \<noteq> note_view_tag then Ok []
      else
        (let t = compute_tweak C s_candidate note_view_tag in
         label_candidates C spend scan t known_labels
           [\<lparr>nm_stealth_address = address_for_scalar C (scalar_add C (spend_scalar spend) t),
             nm_stealth_scalar = scalar_add C (spend_scalar spend) t,
             nm_label_index = 0\<rparr>]))"

definition view_tag_matches :: "('s, 'p, 'k) crypto \<Rightarrow> 'k scan_key \<Rightarrow> bytes \<Rightarrow> u8 \<Rightarrow> bool" where
  "view_tag_matches C scan eph note_view_tag =
     (let s_candidate = diffie_hellman C (scan_secret scan) eph in
      if shared_secret_is_zero s_candidate then False
      else compute_view_tag C s_candidate = note_view_tag)"

section \<open>The candidates as a list\<close>

text \<open>The candidate for a label, and the whole list, without the loop.\<close>

definition candidate ::
  "('s, 'p, 'k) crypto \<Rightarrow> ('s, 'p) spend_key \<Rightarrow> 'k scan_key \<Rightarrow> 's \<Rightarrow> u32 \<Rightarrow> 's note_match" where
  "candidate C spend scan t i =
     (let scalar =
        (if i = 0 then scalar_add C (spend_scalar spend) t
         else (case label_tweak_scalar C scan i :: (slnt_error, 's) outcome of
                 Ok m_i \<Rightarrow> scalar_add C (scalar_add C (spend_scalar spend) m_i) t
               | _ \<Rightarrow> scalar_zero C))
      in \<lparr>nm_stealth_address = address_for_scalar C scalar, nm_stealth_scalar = scalar,
          nm_label_index = i\<rparr>)"

lemma label_candidates_eq:
  assumes "hash_laws C"
  shows "label_candidates C spend scan t ls out =
    Ok (out @ map (candidate C spend scan t) (filter (\<lambda>i. i \<noteq> 0) ls))"
proof (induction ls arbitrary: out)
  case Nil
  then show ?case by simp
next
  case (Cons i ls)
  obtain m where "label_tweak_scalar C scan i = (Ok m :: (slnt_error, 'a) outcome)"
    using label_tweak_total [OF assms] by blast
  with Cons show ?case by (simp add: candidate_def Let_def)
qed

lemma scan_note_candidates_eq:
  assumes "hash_laws C"
  shows "scan_note_candidates C spend scan eph vt ls =
    (if view_tag_matches C scan eph vt
     then Ok (map (candidate C spend scan
            (compute_tweak C (diffie_hellman C (scan_secret scan) eph) vt))
            (0 # filter (\<lambda>i. i \<noteq> 0) ls))
     else Ok [])"
  by (simp add: scan_note_candidates_def label_candidates_eq [OF assms] view_tag_matches_def
      candidate_def Let_def)

lemma scan_note_eq:
  assumes "group_laws C" "wf_spend C spend"
  shows "scan_note C spend scan eph vt =
    Ok (if view_tag_matches C scan eph vt
        then Some (candidate C spend scan
          (compute_tweak C (diffie_hellman C (scan_secret scan) eph) vt) 0)
        else None)"
  using assms
  by (simp add: scan_note_def view_tag_matches_def candidate_def address_for_scalar_def wf_spend_def
      group_lawsD Let_def)

text \<open>The recipient's shared secret is the sender's, so the tag matches and the tweak agrees.\<close>

lemma payment_shared_secret:
  assumes "dh_laws C" "wf_scan C scan" "ma_b_scan meta = scan_public scan"
    and "derive_payment C fill meta rng = (Ok p, rng')"
  shows "view_tag_matches C scan (ephemeral_pub p) (view_tag p)"
    and "\<exists>b_spend. decompress C (ma_b_spend meta) = Some b_spend \<and>
      stealth_address p = compress C (point_add C b_spend
        (point_mul C (compute_tweak C (diffie_hellman C (scan_secret scan) (ephemeral_pub p))
           (view_tag p)) (basepoint C)))"
proof -
  obtain b_spend r s where ok: "decompress C (ma_b_spend meta) = Some b_spend"
    "s = diffie_hellman C r (ma_b_scan meta)" "\<not> shared_secret_is_zero s"
    "ephemeral_pub p = x25519_public C r" "view_tag p = compute_view_tag C s"
    "stealth_address p =
       compress C (point_add C b_spend (point_mul C (compute_tweak C s (view_tag p)) (basepoint C)))"
    using assms(4) by (rule derive_payment_Ok) blast
  have "diffie_hellman C (scan_secret scan) (ephemeral_pub p) = s"
    using ok(2,4) assms(3) wf_scanD(2) [OF assms(2)] dh_agreement [OF assms(1), of "scan_secret scan" r]
    by simp
  with ok show "view_tag_matches C scan (ephemeral_pub p) (view_tag p)"
    and "\<exists>b_spend. decompress C (ma_b_spend meta) = Some b_spend \<and>
      stealth_address p = compress C (point_add C b_spend
        (point_mul C (compute_tweak C (diffie_hellman C (scan_secret scan) (ephemeral_pub p))
           (view_tag p)) (basepoint C)))"
    by (auto simp: view_tag_matches_def Let_def)
qed

lemma scan_finds_match:
  assumes "group_laws C" "compress_laws C" "dh_laws C" "wf_spend C spend" "wf_scan C scan"
    and "derive_payment C fill (from_keys C spend scan) rng = (Ok p, rng')"
  shows "\<exists>m. scan_note C spend scan (ephemeral_pub p) (view_tag p) = Ok (Some m) \<and>
    nm_stealth_address m = stealth_address p \<and>
    compress C (point_mul C (nm_stealth_scalar m) (basepoint C)) = stealth_address p \<and>
    nm_label_index m = 0"
proof -
  have "ma_b_scan (from_keys C spend scan) = scan_public scan"
    by (simp add: from_keys_def scan_public_bytes_def)
  note shared = payment_shared_secret [OF assms(3,5) this assms(6)]
  from shared(2) have "stealth_address p = compress C (point_add C (spend_point spend)
      (point_mul C (compute_tweak C (diffie_hellman C (scan_secret scan) (ephemeral_pub p))
         (view_tag p)) (basepoint C)))"
    using assms(2) by (simp add: from_keys_def spend_public_bytes_def compress_lawsD)
  with shared(1) show ?thesis
    using assms(1,4)
    by (simp add: scan_note_eq candidate_def address_for_scalar_def wf_spend_def group_lawsD Let_def)
qed

text \<open>The candidate of the label that was paid is the payment.\<close>

lemma labeled_match:
  assumes "group_laws C" "compress_laws C" "dh_laws C" "hash_laws C" "wf_spend C spend" "wf_scan C scan"
    and "for_label C spend scan i = (Ok meta :: (slnt_error, meta_address) outcome)"
    and "derive_payment C fill meta rng = (Ok p, rng')"
    and "i = 0 \<or> i \<in> set known"
  shows "\<exists>ms m. scan_note_candidates C spend scan (ephemeral_pub p) (view_tag p) known = Ok ms \<and>
    m \<in> set ms \<and> nm_label_index m = i \<and> nm_stealth_address m = stealth_address p \<and>
    compress C (point_mul C (nm_stealth_scalar m) (basepoint C)) = stealth_address p"
proof -
  let ?t = "compute_tweak C (diffie_hellman C (scan_secret scan) (ephemeral_pub p)) (view_tag p)"
  have bscan: "ma_b_scan meta = scan_public scan"
    using for_label_wf [OF assms(2,3,6,7)] by simp
  note shared = payment_shared_secret [OF assms(3,6) bscan assms(8)]
  obtain m_i where mi: "label_tweak_scalar C scan i = (Ok m_i :: (slnt_error, 'a) outcome)"
    using label_tweak_total [OF assms(4)] by blast
  have bspend: "decompress C (ma_b_spend meta) = Some
     (if i = 0 then spend_point spend
      else point_add C (spend_point spend) (point_mul C m_i (basepoint C)))"
    using assms(7) mi assms(2)
    by (auto simp: for_label_def from_keys_def spend_public_bytes_def compress_lawsD Let_def
        split: if_splits)
  have addr: "nm_stealth_address (candidate C spend scan ?t i) = stealth_address p"
    using shared(2) bspend assms(1,5) mi
    by (auto simp: candidate_def address_for_scalar_def wf_spend_def group_lawsD Let_def)
  have "candidate C spend scan ?t i \<in>
      set (map (candidate C spend scan ?t) (0 # filter (\<lambda>i. i \<noteq> 0) known))"
    using assms(9) by (cases "i = 0") auto
  moreover have "nm_label_index (candidate C spend scan ?t i) = i"
    "nm_stealth_address (candidate C spend scan ?t i) =
      compress C (point_mul C (nm_stealth_scalar (candidate C spend scan ?t i)) (basepoint C))"
    by (simp_all add: candidate_def address_for_scalar_def Let_def)
  ultimately show ?thesis
    using shared(1) addr scan_note_candidates_eq [OF assms(4), of spend scan "ephemeral_pub p"]
    by (metis (no_types, lifting))
qed

section \<open>Properties\<close>

text \<open>The recipient finds every payment to their meta-address: scanning the announced ephemeral
  key and view tag with the keys the meta-address was built from returns the payment's address and
  a scalar whose multiple of the base point is that address.\<close>

theorem scan_finds_payment:
  assumes "group_laws C" "compress_laws C" "dh_laws C" "wf_spend C spend" "wf_scan C scan"
    and "derive_payment C fill (from_keys C spend scan) rng = (Ok p, rng')"
  shows "\<exists>m. scan_note C spend scan (ephemeral_pub p) (view_tag p) = Ok (Some m) \<and>
    nm_stealth_address m = stealth_address p \<and>
    compress C (point_mul C (nm_stealth_scalar m) (basepoint C)) = stealth_address p \<and>
    nm_label_index m = 0"
  by (rule scan_finds_match [OF assms])

theorem scan_finds_payment_witness:
  "\<exists>m. scan_note toy_crypto toy_spend toy_scan (ephemeral_pub toy_payment) (view_tag toy_payment) =
       Ok (Some m) \<and> nm_stealth_address m = stealth_address toy_payment"
  using scan_finds_payment [OF group_laws_toy compress_laws_toy dh_laws_toy toy_keys_wf
      toy_payment [unfolded toy_meta_def]]
  by blast

text \<open>C4: a payment to a labeled meta-address is found by scanning with that label among the known
  ones: one of the candidates has the payment's address, the label, and the scalar that controls
  the address.\<close>

theorem scan_finds_labeled_payment:
  assumes "group_laws C" "compress_laws C" "dh_laws C" "hash_laws C" "wf_spend C spend" "wf_scan C scan"
    and "for_label C spend scan i = (Ok meta :: (slnt_error, meta_address) outcome)"
    and "derive_payment C fill meta rng = (Ok p, rng')"
    and "i = 0 \<or> i \<in> set known"
  shows "\<exists>ms m. scan_note_candidates C spend scan (ephemeral_pub p) (view_tag p) known = Ok ms \<and>
    m \<in> set ms \<and> nm_label_index m = i \<and> nm_stealth_address m = stealth_address p \<and>
    compress C (point_mul C (nm_stealth_scalar m) (basepoint C)) = stealth_address p"
  by (rule labeled_match [OF assms])

theorem scan_finds_labeled_payment_witness:
  "\<exists>meta p ms m. for_label toy_crypto toy_spend toy_scan 9 = (Ok meta :: (slnt_error, meta_address) outcome)
     \<and> derive_payment toy_crypto toy_fill meta 3 = (Ok p, 4)
     \<and> scan_note_candidates toy_crypto toy_spend toy_scan (ephemeral_pub p) (view_tag p) [4, 9] = Ok ms
     \<and> m \<in> set ms \<and> nm_label_index m = 9 \<and> nm_stealth_address m = stealth_address p"
proof -
  obtain m where m: "label_tweak_scalar toy_crypto toy_scan 9 = (Ok m :: (slnt_error, u8) outcome)"
    using label_tweak_total [OF hash_laws_toy] by blast
  obtain meta where meta: "for_label toy_crypto toy_spend toy_scan 9 =
      (Ok meta :: (slnt_error, meta_address) outcome)"
    using m by (auto simp: for_label_def Let_def)
  have "case for_label toy_crypto toy_spend toy_scan 9 :: (slnt_error, meta_address) outcome of
      Ok m \<Rightarrow> (case derive_payment toy_crypto toy_fill m 3 of (Ok _, rng) \<Rightarrow> rng = 4 | _ \<Rightarrow> False)
    | _ \<Rightarrow> False"
    by code_simp
  with meta obtain p where pay: "derive_payment toy_crypto toy_fill meta 3 = (Ok p, 4)"
    by (cases "derive_payment toy_crypto toy_fill meta 3"; cases "fst (derive_payment toy_crypto toy_fill meta 3)")
       auto
  show ?thesis
    using scan_finds_labeled_payment [OF group_laws_toy compress_laws_toy dh_laws_toy hash_laws_toy
        toy_keys_wf meta pay, of "[4, 9]"] meta pay
    by auto
qed

text \<open>C19: scanning is sound: it never panics, every candidate it reports carries a scalar whose
  public key is the reported address, and the candidates are the unlabeled one followed by one per
  nonzero known label, in the order given (duplicates kept).\<close>

theorem scan_candidates_sound:
  assumes "hash_laws C"
  shows "\<exists>ms. scan_note_candidates C spend scan eph vt known = Ok ms \<and>
    (\<forall>m \<in> set ms. nm_stealth_address m =
       compress C (point_mul C (nm_stealth_scalar m) (basepoint C))) \<and>
    (ms \<noteq> [] \<longrightarrow> map nm_label_index ms = 0 # filter (\<lambda>i. i \<noteq> 0) known) \<and>
    (ms = [] \<longleftrightarrow> \<not> view_tag_matches C scan eph vt)"
proof (cases "view_tag_matches C scan eph vt")
  case True
  then show ?thesis
    by (simp add: scan_note_candidates_eq [OF assms])
       (auto simp: candidate_def address_for_scalar_def Let_def comp_def)
next
  case False
  then show ?thesis by (simp add: scan_note_candidates_eq [OF assms])
qed

theorem scan_candidates_sound_witness:
  "\<exists>ms. scan_note_candidates toy_crypto toy_spend toy_scan (ephemeral_pub toy_payment)
       (view_tag toy_payment) [0, 4, 9] = Ok ms \<and> map nm_label_index ms = [0, 4, 9]"
proof -
  have "view_tag_matches toy_crypto toy_scan (ephemeral_pub toy_payment) (view_tag toy_payment)"
    by code_simp
  then show ?thesis
    using scan_candidates_sound [OF hash_laws_toy, of toy_spend toy_scan "ephemeral_pub toy_payment"
        "view_tag toy_payment" "[0, 4, 9]"]
    by auto
qed

text \<open>The three scanners agree: a delegated scanner holding only the raw scan material passes
  exactly the notes the recipient's own scan matches, and scanning with no labels is scanning for
  the single unlabeled candidate.\<close>

theorem scanners_agree:
  assumes "group_laws C" "hash_laws C" "wf_spend C spend" "wf_scan C scan"
  shows "(scan_note C spend scan eph vt \<noteq> Ok None) =
           view_tag_matches C (from_raw C (scan_raw scan)) eph vt
    \<and> scan_note_candidates C spend scan eph vt [] =
        (case scan_note C spend scan eph vt of
           Ok (Some m) \<Rightarrow> Ok [m] | Ok None \<Rightarrow> Ok [] | Err e \<Rightarrow> Err e | Panic \<Rightarrow> Panic)"
proof -
  have "from_raw C (scan_raw scan) = scan" using assms(4) by (simp add: wf_scan_def)
  then show ?thesis
    using assms by (simp add: scan_note_eq scan_note_candidates_eq)
qed

theorem scanners_agree_witness:
  "view_tag_matches toy_crypto (from_raw toy_crypto (scan_raw toy_scan)) (ephemeral_pub toy_payment)
     (view_tag toy_payment)"
proof -
  have "scan_note toy_crypto toy_spend toy_scan (ephemeral_pub toy_payment) (view_tag toy_payment)
      \<noteq> Ok None"
    by code_simp
  then show ?thesis
    using scanners_agree [OF group_laws_toy hash_laws_toy toy_keys_wf] by blast
qed

text \<open>An announcement whose shared secret is zero (a low-order ephemeral key) is ignored by every
  scanner, whatever its view tag, so no such key passes the filter for everyone.\<close>

theorem zero_secret_ignored:
  assumes "\<forall>b \<in> set (diffie_hellman C (scan_secret scan) eph). b = 0"
  shows "scan_note C spend scan eph vt = Ok None
    \<and> scan_note_candidates C spend scan eph vt known = Ok []
    \<and> \<not> view_tag_matches C scan eph vt"
  using assms
  by (simp add: scan_note_def scan_note_candidates_def view_tag_matches_def
      shared_secret_is_zero_def list_all_iff)

theorem zero_secret_ignored_witness:
  "scan_note toy_crypto toy_spend toy_scan (replicate 32 0)
     (compute_view_tag toy_crypto (replicate 32 0)) = Ok None"
proof -
  have "\<forall>b \<in> set (diffie_hellman toy_crypto (scan_secret toy_scan) (replicate 32 0)). b = 0"
    by code_simp
  then show ?thesis using zero_secret_ignored by blast
qed

end
