(* ===== verification/Stealth_Signing.thy ===== *)
theory Stealth_Signing
  imports Recipient
begin

text \<open>
  \<open>crates/slnt-sdk/src/stealth_signing.rs\<close>: Ed25519 signatures with a key held as a scalar.
\<close>

definition NONCE_TAG :: bytes where
  "NONCE_TAG = ascii ''slnt-v1-nonce''"

record ('s, 'p) signing_key =
  sk_scalar :: 's
  sk_public_point :: 'p
  sk_hash_prefix :: bytes

definition signing_key_new :: "('s, 'p, 'k) crypto \<Rightarrow> 's \<Rightarrow> ('s, 'p) signing_key" where
  "signing_key_new C scalar =
     (let hash = sha512 C (NONCE_TAG @ scalar_to_bytes C scalar);
          hash_prefix = take 32 (drop 32 hash);
          public_point = point_mul C scalar (basepoint C)
      in \<lparr>sk_scalar = scalar, sk_public_point = public_point, sk_hash_prefix = hash_prefix\<rparr>)"

definition public_bytes :: "('s, 'p, 'k) crypto \<Rightarrow> ('s, 'p) signing_key \<Rightarrow> bytes" where
  "public_bytes C k = compress C (sk_public_point k)"

text \<open>\<open>VerifyingKey::from_bytes\<close> decompresses the key; the \<open>expect\<close> is a panic.\<close>

definition verifying_key :: "('s, 'p, 'k) crypto \<Rightarrow> ('s, 'p) signing_key \<Rightarrow> ('e, 'p) outcome" where
  "verifying_key C k = expect_some (decompress C (public_bytes C k))"

definition sign :: "('s, 'p, 'k) crypto \<Rightarrow> ('s, 'p) signing_key \<Rightarrow> bytes \<Rightarrow> bytes" where
  "sign C k message =
     (let a_compressed = compress C (sk_public_point k);
          r = from_bytes_mod_order_wide C (sha512 C (sk_hash_prefix k @ message));
          r_point = compress C (point_mul C r (basepoint C));
          h = from_bytes_mod_order_wide C (sha512 C (r_point @ a_compressed @ message));
          s = scalar_add C r (scalar_mul C h (sk_scalar k))
      in r_point @ scalar_to_bytes C s)"

section \<open>Specification: the RFC 8032 verification equation\<close>

definition verifies :: "('s, 'p, 'k) crypto \<Rightarrow> bytes \<Rightarrow> bytes \<Rightarrow> bytes \<Rightarrow> bool" where
  "verifies C pub message sig \<longleftrightarrow>
     length sig = 64 \<and>
     (case (decompress C pub, decompress C (take 32 sig)) of
        (Some A, Some R) \<Rightarrow>
          (let s = from_bytes_mod_order C (drop 32 sig);
               h = from_bytes_mod_order_wide C (sha512 C (take 32 sig @ pub @ message))
           in point_mul C s (basepoint C) = point_add C R (point_mul C h A))
      | _ \<Rightarrow> False)"

definition wf_signing_key :: "('s, 'p, 'k) crypto \<Rightarrow> ('s, 'p) signing_key \<Rightarrow> bool" where
  "wf_signing_key C k \<longleftrightarrow> k = signing_key_new C (sk_scalar k)"

lemma signing_key_new_wf [wf_rules]: "wf_signing_key C (signing_key_new C a)"
  by (simp add: wf_signing_key_def signing_key_new_def Let_def)

lemma public_bytes_new: "public_bytes C (signing_key_new C a) = address_for_scalar C a"
  by (simp add: public_bytes_def signing_key_new_def address_for_scalar_def Let_def)

lemma sign_new_verifies:
  assumes "group_laws C" "compress_laws C" "scalar_laws C"
  shows "verifies C (public_bytes C (signing_key_new C a)) message (sign C (signing_key_new C a) message)"
  using assms
  by (simp add: verifies_def sign_def public_bytes_def signing_key_new_def
      compress_lawsD scalar_lawsD group_lawsD Let_def)

section \<open>Properties\<close>

text \<open>Every signature of a scalar-form key is 64 bytes and verifies, by the RFC 8032 equation,
  under the key's own public bytes; those bytes are the compressed multiple of the base point and
  decompressing them never panics.\<close>

theorem sign_verifies:
  assumes "group_laws C" "compress_laws C" "scalar_laws C"
  shows "verifies C (public_bytes C (signing_key_new C a)) message (sign C (signing_key_new C a) message)
    \<and> public_bytes C (signing_key_new C a) = compress C (point_mul C a (basepoint C))
    \<and> verifying_key C (signing_key_new C a) = Ok (point_mul C a (basepoint C))"
  using sign_new_verifies [OF assms] assms(2)
  by (simp add: public_bytes_new address_for_scalar_def verifying_key_def compress_lawsD)

theorem sign_verifies_witness:
  "verifies toy_crypto (pad32 [77, 0]) [1, 2, 3] (sign toy_crypto (signing_key_new toy_crypto 77) [1, 2, 3])"
proof -
  have "public_bytes toy_crypto (signing_key_new toy_crypto 77) = pad32 [77, 0]"
    by code_simp
  then show ?thesis
    using sign_verifies [OF group_laws_toy compress_laws_toy scalar_laws_toy, of 77 "[1, 2, 3]"]
    by metis
qed

text \<open>C5: what the recipient recovers controls the payment: signing with the scalar of a scanned
  match produces signatures that verify under the paid stealth address itself.\<close>

theorem recovered_key_signs_for_address:
  assumes "group_laws C" "compress_laws C" "dh_laws C" "scalar_laws C" "wf_spend C spend" "wf_scan C scan"
    and "derive_payment C fill (from_keys C spend scan) rng = (Ok p, rng')"
    and "scan_note C spend scan (ephemeral_pub p) (view_tag p) = Ok (Some m)"
  shows "verifies C (stealth_address p) message
    (sign C (signing_key_new C (nm_stealth_scalar m)) message)"
proof -
  obtain m' where m': "scan_note C spend scan (ephemeral_pub p) (view_tag p) = Ok (Some m')"
    "compress C (point_mul C (nm_stealth_scalar m') (basepoint C)) = stealth_address p"
    using scan_finds_match [OF assms(1-3,5-7)] by blast
  with assms(8) have "compress C (point_mul C (nm_stealth_scalar m) (basepoint C)) = stealth_address p"
    by simp
  then show ?thesis
    using sign_new_verifies [OF assms(1,2,4), of "nm_stealth_scalar m" message]
    by (simp add: public_bytes_new address_for_scalar_def)
qed

theorem recovered_key_signs_for_address_witness:
  "\<exists>m. scan_note toy_crypto toy_spend toy_scan (ephemeral_pub toy_payment) (view_tag toy_payment) =
       Ok (Some m) \<and>
     verifies toy_crypto (stealth_address toy_payment) [1, 2]
       (sign toy_crypto (signing_key_new toy_crypto (nm_stealth_scalar m)) [1, 2])"
proof -
  note laws = group_laws_toy compress_laws_toy dh_laws_toy
  note pay = toy_payment [unfolded toy_meta_def]
  obtain m where "scan_note toy_crypto toy_spend toy_scan (ephemeral_pub toy_payment)
      (view_tag toy_payment) = Ok (Some m)"
    using scan_finds_match [OF laws toy_keys_wf pay] by blast
  then show ?thesis
    using recovered_key_signs_for_address [OF laws scalar_laws_toy toy_keys_wf pay] by blast
qed

end
