(* ===== verification/Flows.thy ===== *)
theory Flows
  imports Keys
begin

text \<open>
  \<open>crates/slnt-sdk/src/flows.rs\<close> and \<open>sweep.rs\<close>: the transfers that pay a stealth address and the
  transfers that sweep it. The system and token programs' constructors are parameters.
\<close>

definition RENT_EXEMPT_MIN :: u64 where
  "RENT_EXEMPT_MIN = 890880"

definition build_sol_payment ::
  "solana_lib \<Rightarrow> pubkey \<Rightarrow> pubkey \<Rightarrow> u64 \<Rightarrow> (slnt_error, instruction) outcome" where
  "build_sol_payment S sender stealth_address amount =
     obind (ok_or (LamportOverflow amount RENT_EXEMPT_MIN) (checked_add_u64 amount RENT_EXEMPT_MIN))
       (\<lambda>lamports. Ok (system_transfer S sender stealth_address lamports))"

definition build_spl_payment ::
  "solana_lib \<Rightarrow> pubkey \<Rightarrow> pubkey \<Rightarrow> pubkey \<Rightarrow> pubkey \<Rightarrow> pubkey \<Rightarrow> u64 \<Rightarrow> u8 \<Rightarrow>
     ('e, instruction list) outcome" where
  "build_spl_payment S sender stealth_address mint sender_token_account token_program_id amount decimals =
     (let stealth_ata = associated_token_address S stealth_address mint token_program_id;
          create_ata = create_ata_idempotent S sender stealth_address mint token_program_id
      in case spl_transfer_checked S token_program_id sender_token_account mint stealth_ata sender
                amount decimals of
           Ok transfer \<Rightarrow> Ok [create_ata, transfer]
         | _ \<Rightarrow> Panic)"

definition build_nft_payment ::
  "solana_lib \<Rightarrow> pubkey \<Rightarrow> pubkey \<Rightarrow> pubkey \<Rightarrow> pubkey \<Rightarrow> pubkey \<Rightarrow> ('e, instruction list) outcome" where
  "build_nft_payment S sender stealth_address mint sender_token_account token_program_id =
     build_spl_payment S sender stealth_address mint sender_token_account token_program_id 1 0"

definition ensure_not_main_wallet :: "pubkey \<Rightarrow> pubkey option \<Rightarrow> (slnt_error, unit) outcome" where
  "ensure_not_main_wallet candidate main_wallet =
     (if main_wallet = Some candidate then Err CloseToMainWallet else Ok ())"

text \<open>\<open>balance - relayer_take\<close> is a checked subtraction: it panics below zero.\<close>

definition sub_u64 :: "u64 \<Rightarrow> u64 \<Rightarrow> ('e, u64) outcome" where
  "sub_u64 a b = (if b \<le> a then Ok (a - b) else Panic)"

definition build_sol_sweep ::
  "solana_lib \<Rightarrow> pubkey \<Rightarrow> pubkey \<Rightarrow> pubkey \<Rightarrow> u64 \<Rightarrow> u64 \<Rightarrow> pubkey option \<Rightarrow>
     (slnt_error, instruction list) outcome" where
  "build_sol_sweep S stealth_address destination relayer balance relayer_take main_wallet =
     obind (ensure_not_main_wallet destination main_wallet) (\<lambda>_.
     if balance \<le> relayer_take then Err (RelayerTakeTooLarge relayer_take balance)
     else
       obind (sub_u64 balance relayer_take) (\<lambda>to_recipient.
         Ok [system_transfer S stealth_address relayer relayer_take,
             system_transfer S stealth_address destination to_recipient]))"

definition build_spl_sweep ::
  "solana_lib \<Rightarrow> pubkey \<Rightarrow> pubkey \<Rightarrow> pubkey \<Rightarrow> pubkey \<Rightarrow> pubkey \<Rightarrow> pubkey \<Rightarrow> u64 \<Rightarrow> u64 \<Rightarrow> u8 \<Rightarrow> pubkey \<Rightarrow>
     pubkey option \<Rightarrow> (slnt_error, instruction list) outcome" where
  "build_spl_sweep S stealth_authority stealth_ata destination_ata relayer_token_account mint
       token_program_id amount relayer_take decimals close_destination main_wallet =
     obind (ensure_not_main_wallet close_destination main_wallet) (\<lambda>_.
     if amount < relayer_take then Err (RelayerTakeTooLarge relayer_take amount)
     else
       obind (sub_u64 amount relayer_take) (\<lambda>to_recipient.
       obind (omap_err Rpc (spl_transfer_checked S token_program_id stealth_ata mint destination_ata
                stealth_authority to_recipient decimals)) (\<lambda>transfer_to_dest.
       obind (omap_err Rpc (spl_transfer_checked S token_program_id stealth_ata mint
                relayer_token_account stealth_authority relayer_take decimals)) (\<lambda>pay_relayer.
       obind (omap_err Rpc (spl_close_account S token_program_id stealth_ata close_destination
                stealth_authority)) (\<lambda>closing.
         Ok [transfer_to_dest, pay_relayer, closing])))))"

section \<open>Running a transaction\<close>

text \<open>The instructions of a transaction run in order, all or none.\<close>

fun run_all ::
  "(instruction \<Rightarrow> (pubkey \<Rightarrow> nat) \<Rightarrow> (pubkey \<Rightarrow> nat) option) \<Rightarrow> instruction list \<Rightarrow>
     (pubkey \<Rightarrow> nat) \<Rightarrow> (pubkey \<Rightarrow> nat) option" where
  "run_all exec [] bal = Some bal"
| "run_all exec (ix # ixs) bal = Option.bind (exec ix bal) (run_all exec ixs)"

lemma sub_u64_Ok: "b \<le> a \<Longrightarrow> sub_u64 a b = Ok (a - b)"
  by (simp add: sub_u64_def)

lemma unat_sub_u64: "(b :: u64) \<le> a \<Longrightarrow> unat (a - b) = unat a - unat b"
  by (rule unat_sub)

lemma rent_exempt_unat: "unat RENT_EXEMPT_MIN = 890880"
  by (simp add: RENT_EXEMPT_MIN_def)

lemma exec_transfer:
  "transfer_law S exec \<Longrightarrow> a \<noteq> b \<Longrightarrow> unat n \<le> bal a \<Longrightarrow>
     exec (system_transfer S a b n) bal = Some (bal(a := bal a - unat n, b := bal b + unat n))"
  by (auto simp: transfer_law_def Let_def)

lemma sol_sweep_Ok:
  "build_sol_sweep S stealth dest relayer balance taken main = Ok ixs \<longleftrightarrow>
     main \<noteq> Some dest \<and> taken < balance \<and>
     ixs = [system_transfer S stealth relayer taken, system_transfer S stealth dest (balance - taken)]"
  by (auto simp: build_sol_sweep_def ensure_not_main_wallet_def sub_u64_def)

section \<open>Properties\<close>

text \<open>A SOL payment moves exactly the amount plus the rent buffer, never a wrapped sum: it is
  built exactly when the sum fits 64 bits, and the error otherwise reports both addends.\<close>

theorem sol_payment_exact:
  assumes "transfer_law S exec" "sender \<noteq> stealth"
  shows "if unat amount + 890880 < 2 ^ 64
    then \<exists>ix. build_sol_payment S sender stealth amount = Ok ix \<and>
      (unat amount + 890880 \<le> bal sender \<longrightarrow>
        exec ix bal = Some (bal(sender := bal sender - (unat amount + 890880),
                                stealth := bal stealth + (unat amount + 890880))))
    else build_sol_payment S sender stealth amount = Err (LamportOverflow amount RENT_EXEMPT_MIN)"
proof (cases "unat amount + 890880 < 2 ^ 64")
  case True
  then have "unat (amount + RENT_EXEMPT_MIN) = unat amount + 890880"
    using unat_add_u64 [of amount RENT_EXEMPT_MIN] by (simp add: rent_exempt_unat)
  with True show ?thesis
    using assms by (simp add: build_sol_payment_def checked_add_u64_def rent_exempt_unat transfer_law_def Let_def)
next
  case False
  then show ?thesis by (simp add: build_sol_payment_def checked_add_u64_def rent_exempt_unat)
qed

theorem sol_payment_exact_witness:
  "\<exists>ix bal. build_sol_payment toy_solana [1] [2] 1000 = Ok ix \<and>
     toy_exec ix (\<lambda>_. 900000) = Some bal \<and> bal [2] = 1791880"
proof -
  have "[1 :: u8] \<noteq> [2]" by simp
  from sol_payment_exact [OF transfer_law_toy this, of 1000 "\<lambda>_. 900000"] show ?thesis by auto
qed

text \<open>C36: a SOL sweep empties the stealth account and loses nothing: it never panics; when it is
  built, the two transfers add up to the balance, the recipient's part is not zero, and running
  them leaves the stealth account at zero with relayer and destination credited. It is refused
  exactly for the main wallet or a take of at least the whole balance.\<close>

theorem sol_sweep_conserves:
  assumes "transfer_law S exec" "distinct [stealth, relayer, dest]"
    and "bal stealth = unat balance"
  shows "(build_sol_sweep S stealth dest relayer balance taken main = Err CloseToMainWallet \<longleftrightarrow> main = Some dest)
    \<and> (main \<noteq> Some dest \<and> balance \<le> taken \<longrightarrow>
         build_sol_sweep S stealth dest relayer balance taken main = Err (RelayerTakeTooLarge taken balance))
    \<and> (main \<noteq> Some dest \<and> taken < balance \<longrightarrow>
         (\<exists>ixs. build_sol_sweep S stealth dest relayer balance taken main = Ok ixs \<and>
            run_all exec ixs bal = Some (bal(stealth := 0, relayer := bal relayer + unat taken,
              dest := bal dest + (unat balance - unat taken)))))
    \<and> (taken < balance \<longrightarrow> 0 < unat balance - unat taken)"
proof -
  have "exec (system_transfer S stealth relayer taken) bal =
      Some (bal(stealth := unat balance - unat taken, relayer := bal relayer + unat taken))"
    if "taken < balance"
    using that assms unat_mono [OF that] by (auto simp: transfer_law_def Let_def)
  moreover have "exec (system_transfer S stealth dest (balance - taken))
        (bal(stealth := unat balance - unat taken, relayer := bal relayer + unat taken)) =
      Some (bal(stealth := 0, relayer := bal relayer + unat taken,
        dest := bal dest + (unat balance - unat taken)))"
    if "taken < balance"
    using that assms by (auto simp: transfer_law_def Let_def unat_sub_u64 fun_upd_twist)
  ultimately show ?thesis
    by (auto simp: build_sol_sweep_def ensure_not_main_wallet_def sub_u64_def unat_mono)
qed

theorem sol_sweep_conserves_witness:
  "\<exists>ixs bal. build_sol_sweep toy_solana [1] [3] [2] 1000 30 (Some [9]) = Ok ixs \<and>
     run_all toy_exec ixs (\<lambda>k. if k = [1] then 1000 else 0) = Some bal \<and>
     bal [1] = 0 \<and> bal [2] = 30 \<and> bal [3] = 970"
proof -
  have "distinct [[1 :: u8], [2], [3]]" by simp
  from sol_sweep_conserves [OF transfer_law_toy this, where bal = "\<lambda>k. if k = [1] then 1000 else 0"
      and balance = 1000 and main = "Some [9]" and taken = 30]
  show ?thesis by auto
qed

text \<open>C35: pay and sweep round trip: sweeping the balance a SOL payment created delivers the amount
  and the rent buffer to the relayer and the destination together, and the stealth account is
  empty again.\<close>

theorem pay_then_sweep:
  assumes "transfer_law S exec" "distinct [sender, stealth, relayer, dest]"
    and "unat amount + 890880 < 2 ^ 64" "unat amount + 890880 \<le> bal sender" "bal stealth = 0"
    and "main \<noteq> Some dest" "taken < amount + RENT_EXEMPT_MIN"
  shows "\<exists>pay sweep. build_sol_payment S sender stealth amount = Ok pay \<and>
    build_sol_sweep S stealth dest relayer (amount + RENT_EXEMPT_MIN) taken main = Ok sweep \<and>
    (\<exists>bal'. run_all exec (pay # sweep) bal = Some bal' \<and> bal' stealth = 0 \<and>
       bal' relayer = bal relayer + unat taken \<and>
       bal' dest + unat taken = bal dest + unat amount + 890880 \<and>
       bal' sender + unat amount + 890880 = bal sender)"
proof -
  have sum: "unat (amount + RENT_EXEMPT_MIN) = unat amount + 890880"
    using assms(3) unat_add_u64 [of amount RENT_EXEMPT_MIN] by (simp add: rent_exempt_unat)
  have less: "unat taken < unat amount + 890880"
    using unat_mono [OF assms(7)] sum by simp
  have pay: "build_sol_payment S sender stealth amount =
      Ok (system_transfer S sender stealth (amount + RENT_EXEMPT_MIN))"
    using assms(3) by (simp add: build_sol_payment_def checked_add_u64_def rent_exempt_unat)
  have sweep: "build_sol_sweep S stealth dest relayer (amount + RENT_EXEMPT_MIN) taken main =
      Ok [system_transfer S stealth relayer taken,
          system_transfer S stealth dest (amount + RENT_EXEMPT_MIN - taken)]"
    using assms(6,7) by (simp add: sol_sweep_Ok)
  have "unat (amount + RENT_EXEMPT_MIN - taken) = unat amount + 890880 - unat taken"
    using unat_sub_u64 [of taken "amount + RENT_EXEMPT_MIN"] assms(7) sum by simp
  note rest = this
  let ?b1 = "bal(sender := bal sender - (unat amount + 890880), stealth := unat amount + 890880)"
  let ?b2 = "?b1(stealth := unat amount + 890880 - unat taken, relayer := bal relayer + unat taken)"
  have "exec (system_transfer S sender stealth (amount + RENT_EXEMPT_MIN)) bal = Some ?b1"
    using exec_transfer [OF assms(1), of sender stealth "amount + RENT_EXEMPT_MIN" bal] assms(2,4,5) sum
    by simp
  moreover have "exec (system_transfer S stealth relayer taken) ?b1 = Some ?b2"
    using exec_transfer [OF assms(1), of stealth relayer taken ?b1] assms(2) less by auto
  moreover have "exec (system_transfer S stealth dest (amount + RENT_EXEMPT_MIN - taken)) ?b2 =
      Some (?b2(stealth := 0, dest := bal dest + (unat amount + 890880 - unat taken)))"
    using exec_transfer [OF assms(1), of stealth dest "amount + RENT_EXEMPT_MIN - taken" ?b2]
      assms(2) rest by auto
  ultimately show ?thesis
    using pay sweep assms(2,4) less by auto
qed

theorem pay_then_sweep_witness:
  "\<exists>pay sweep bal'. build_sol_payment toy_solana [7] [1] 1000 = Ok pay \<and>
     build_sol_sweep toy_solana [1] [3] [2] (1000 + RENT_EXEMPT_MIN) 30 None = Ok sweep \<and>
     run_all toy_exec (pay # sweep) (\<lambda>k. if k = [7] then 1000000 else 0) = Some bal' \<and> bal' [1] = 0"
proof -
  have "distinct [[7 :: u8], [1], [2], [3]]" by simp
  moreover have "(30 :: u64) < 1000 + RENT_EXEMPT_MIN" by (simp add: RENT_EXEMPT_MIN_def)
  ultimately show ?thesis
    using pay_then_sweep [OF transfer_law_toy, of "[7]" "[1]" "[2]" "[3]" 1000
        "\<lambda>k. if k = [7] then 1000000 else 0" None 30]
    by auto
qed

text \<open>An SPL sweep splits the token amount exactly between destination and relayer and sends the
  reclaimed rent anywhere but the main wallet; with a token program other than \<open>spl_token\<close>'s own
  it is refused with an \<open>Rpc\<close> error.\<close>

theorem spl_sweep_splits:
  assumes "spl_laws S"
  shows "(build_spl_sweep S auth ata dest rel mint tp amount taken dec cl main = Ok ixs \<longrightarrow>
      main \<noteq> Some cl \<and> tp = spl_token_id S \<and> unat taken + unat (amount - taken) = unat amount \<and>
      (\<exists>a b c. ixs = [a, b, c] \<and>
        spl_transfer_checked S tp ata mint dest auth (amount - taken) dec = Ok a \<and>
        spl_transfer_checked S tp ata mint rel auth taken dec = Ok b \<and>
        spl_close_account S tp ata cl auth = Ok c))
    \<and> (main \<noteq> Some cl \<and> taken \<le> amount \<longrightarrow>
        (if tp = spl_token_id S
         then \<exists>ixs. build_spl_sweep S auth ata dest rel mint tp amount taken dec cl main = Ok ixs
         else \<exists>e. build_spl_sweep S auth ata dest rel mint tp amount taken dec cl main = Err (Rpc e)))"
proof -
  note laws = assms [unfolded spl_laws_def]
  have sum: "unat taken + unat (amount - taken) = unat amount" if "\<not> amount < taken"
    using that by (simp add: unat_sub_u64 word_le_nat_alt not_less)
  show ?thesis
  proof (cases "tp = spl_token_id S")
    case True
    have "\<exists>ixs. build_spl_sweep S auth ata dest rel mint tp amount taken dec cl main = Ok ixs"
      if "main \<noteq> Some cl" "taken \<le> amount"
    proof -
      obtain a b c where "spl_transfer_checked S tp ata mint dest auth (amount - taken) dec = Ok a"
        "spl_transfer_checked S tp ata mint rel auth taken dec = Ok b"
        "spl_close_account S tp ata cl auth = Ok c"
        using laws True by metis
      with that show ?thesis
        by (simp add: build_spl_sweep_def ensure_not_main_wallet_def sub_u64_def not_less [symmetric])
    qed
    with True sum show ?thesis
      by (auto simp: build_spl_sweep_def ensure_not_main_wallet_def obind_Ok_iff sub_u64_def
          split: if_splits)
  next
    case False
    with laws obtain e where "spl_transfer_checked S tp ata mint dest auth (amount - taken) dec = Err e"
      by metis
    with False show ?thesis
      by (auto simp: build_spl_sweep_def ensure_not_main_wallet_def obind_Ok_iff sub_u64_def not_less
          split: if_splits)
  qed
qed

theorem spl_sweep_splits_witness:
  "\<exists>ixs. build_spl_sweep toy_solana [1] [2] [3] [4] [5] [6] 100 7 2 [8] (Some [9]) = Ok ixs"
proof -
  have "[6] = spl_token_id toy_solana" by (simp add: toy_solana_def)
  then show ?thesis
    using spl_sweep_splits [OF spl_laws_toy, of "[1]" "[2]" "[3]" "[4]" "[5]" "[6]" 100 7 2 "[8]" "Some [9]"]
    by auto
qed

text \<open>C37: an SPL payment with the classic token program always builds, into the account the stealth
  address owns; with any other token program, Token-2022 included, the builder panics.\<close>

theorem spl_payment_classic_only:
  assumes "spl_laws S"
  shows "if tp = spl_token_id S
    then \<exists>t. build_spl_payment S sender stealth mint src tp amount dec =
        (Ok [create_ata_idempotent S sender stealth mint tp, t] :: (slnt_error, instruction list) outcome) \<and>
      spl_transfer_checked S tp src mint (associated_token_address S stealth mint tp) sender amount dec = Ok t
    else build_spl_payment S sender stealth mint src tp amount dec =
        (Panic :: (slnt_error, instruction list) outcome)"
proof -
  note laws = assms [unfolded spl_laws_def]
  obtain r where r: "spl_transfer_checked S tp src mint (associated_token_address S stealth mint tp)
      sender amount dec = r" by blast
  show ?thesis
  proof (cases "tp = spl_token_id S")
    case True
    with laws r obtain ix where "r = Ok ix" by metis
    with True r show ?thesis by (simp add: build_spl_payment_def Let_def)
  next
    case False
    with laws r obtain e where "r = Err e" by metis
    with False r show ?thesis by (simp add: build_spl_payment_def Let_def)
  qed
qed

theorem spl_payment_classic_only_witness:
  "build_spl_payment toy_solana [1] [2] [3] [4] [20, 22] 5 0 = (Panic :: (slnt_error, instruction list) outcome)"
proof -
  have "[20, 22] \<noteq> spl_token_id toy_solana" by (simp add: toy_solana_def)
  then show ?thesis using spl_payment_classic_only [OF spl_laws_toy, of "[20, 22]"] by simp
qed

end
