(* ===== verification/Anchor.thy ===== *)
theory Anchor
  imports Instances Interfaces
begin

text \<open>
  What the two on-chain programs take from Anchor's attributes: the errors of account validation,
  the checks a \<open>#[derive(Accounts)]\<close> struct stands for, and the discriminators. Anchor itself is
  not part of the repository; the facts used of it are the documented meaning of the attributes
  the sources write, and the discriminator convention that \<open>pinboard.rs\<close> and \<open>registry.rs\<close> state
  in their comments and check in their unit tests.
\<close>

datatype anchor_error =
    InstructionDidNotDeserialize
  | AccountNotEnoughKeys
  | AccountNotSigner
  | AccountNotInitialized
  | AccountOwnedByWrongProgram
  | AccountAlreadyInUse
  | ConstraintMut
  | ConstraintSeeds
  | ConstraintHasOne
  | InvalidProgramId
  | InsufficientFunds
  | ExternalAccountLamportSpend

text \<open>A \<open>Signer\<close> and the \<open>mut\<close> constraint on an account of the transaction.\<close>

definition signer :: "account_meta \<Rightarrow> (anchor_error, unit) outcome" where
  "signer m = (if is_signer m then Ok () else Err AccountNotSigner)"

definition mut :: "account_meta \<Rightarrow> (anchor_error, unit) outcome" where
  "mut m = (if is_writable m then Ok () else Err ConstraintMut)"

lemma signer_Ok_iff [simp]: "signer m = Ok u \<longleftrightarrow> is_signer m"
  by (simp add: signer_def)

lemma mut_Ok_iff [simp]: "mut m = Ok u \<longleftrightarrow> is_writable m"
  by (simp add: mut_def)

text \<open>\<open>SHA-256("<namespace>:<name>")[..8]\<close>.\<close>

definition discriminator :: "('s, 'p, 'k) crypto \<Rightarrow> string \<Rightarrow> string \<Rightarrow> bytes" where
  "discriminator C namespace name =
     take 8 (sha256 C (ascii (namespace @ '':'' @ name)))"

text \<open>
  The toy instance with a SHA-256 that has given values on given inputs, for witnesses that need
  the real discriminators.
\<close>

definition sha_table :: "(bytes \<times> bytes) list \<Rightarrow> (u8, toy_point, u8) crypto" where
  "sha_table table = toy_crypto\<lparr>sha256 := \<lambda>d.
     (case map_of table d of
        Some h \<Rightarrow> take 32 (h @ replicate 32 0)
      | None \<Rightarrow> sha256 toy_crypto d)\<rparr>"

lemma sha_table_laws:
  "group_laws (sha_table t)" "compress_laws (sha_table t)" "scalar_laws (sha_table t)"
  "dh_laws (sha_table t)" "hash_laws (sha_table t)"
  using toy_crypto_laws
  by (simp_all add: sha_table_def group_laws_def compress_laws_def scalar_laws_def dh_laws_def
      hash_laws_def min_def split: option.splits)

text \<open>
  The argument structs of an instruction are read from the front of the bytes after the
  discriminator; bytes left over are not an error.
\<close>

definition read_args :: "(bytes \<Rightarrow> (string, 'a \<times> bytes) outcome) \<Rightarrow> bytes \<Rightarrow> (anchor_error, 'a) outcome" where
  "read_args dec body =
     (case dec body of
        Ok (args, _) \<Rightarrow> Ok args
      | Err _ \<Rightarrow> Err InstructionDidNotDeserialize
      | Panic \<Rightarrow> Panic)"

lemma read_args_enc:
  assumes "codec valid enc dec" "valid a"
  shows "read_args dec (enc a @ rest) = Ok a"
  using codec.dec_enc [OF assms] by (simp add: read_args_def)

end
