(* ===== verification/Pinboard_Program.thy ===== *)
theory Pinboard_Program
  imports Anchor
begin

text \<open>
  \<open>programs/pinboard/src/lib.rs\<close>, the on-chain bulletin board. A handler returns the notes it has
  emitted to the transaction's log, in order, and its result: an \<open>Err\<close> fails the transaction but
  does not take back what the program has written to the log.
\<close>

definition MAX_METADATA_LEN :: nat where
  "MAX_METADATA_LEN = 64"
definition MAX_BATCH_ENTRIES :: nat where
  "MAX_BATCH_ENTRIES = 50"

text \<open>The event \<open>Note\<close> and the argument \<open>NoteEntry\<close>.\<close>

record pin_note =
  note_scheme_id :: u16
  note_ephemeral_pub :: bytes
  note_view_tag :: u8
  note_metadata :: bytes

record pin_entry =
  pe_scheme_id :: u16
  pe_ephemeral_pub :: bytes
  pe_view_tag :: u8
  pe_metadata :: bytes

datatype pinboard_error =
    PinboardAnchor anchor_error
  | NoteMetadataTooLong
  | EmptyBatch
  | BatchTooLarge

definition post :: "u16 \<Rightarrow> bytes \<Rightarrow> u8 \<Rightarrow> bytes \<Rightarrow> pin_note list \<times> (pinboard_error, unit) outcome" where
  "post scheme_id eph vt metadata =
     (if \<not> length metadata \<le> MAX_METADATA_LEN then ([], Err NoteMetadataTooLong)
      else ([\<lparr>note_scheme_id = scheme_id, note_ephemeral_pub = eph, note_view_tag = vt,
              note_metadata = metadata\<rparr>], Ok ()))"

text \<open>The loop of \<open>post_batch\<close>: each entry is checked, then emitted.\<close>

fun post_entries :: "pin_entry list \<Rightarrow> pin_note list \<times> (pinboard_error, unit) outcome" where
  "post_entries [] = ([], Ok ())"
| "post_entries (e # es) =
     (if \<not> length (pe_metadata e) \<le> MAX_METADATA_LEN then ([], Err NoteMetadataTooLong)
      else
        (let (notes, r) = post_entries es in
         (\<lparr>note_scheme_id = pe_scheme_id e, note_ephemeral_pub = pe_ephemeral_pub e,
           note_view_tag = pe_view_tag e, note_metadata = pe_metadata e\<rparr> # notes, r)))"

definition post_batch :: "pin_entry list \<Rightarrow> pin_note list \<times> (pinboard_error, unit) outcome" where
  "post_batch entries =
     (if entries = [] then ([], Err EmptyBatch)
      else if \<not> length entries \<le> MAX_BATCH_ENTRIES then ([], Err BatchTooLarge)
      else post_entries entries)"

text \<open>\<open>Post\<close> and \<open>PostBatch\<close>: one account, a signer, mutable.\<close>

fun post_accounts :: "account_meta list \<Rightarrow> (anchor_error, unit) outcome" where
  "post_accounts [] = Err AccountNotEnoughKeys"
| "post_accounts (fee_payer # _) = obind (signer fee_payer) (\<lambda>_. mut fee_payer)"

text \<open>
  The argument layouts, read in declaration order, and the two instructions as the runtime calls
  them: arguments, then accounts, then the handler. \<open>body\<close> is what follows the discriminator.
\<close>

definition read_note_fields ::
  "borsh_lib \<Rightarrow> bytes \<Rightarrow> (string, (u16 \<times> bytes \<times> u8 \<times> bytes) \<times> bytes) outcome" where
  "read_note_fields B bs =
     obind (read_u16 B bs) (\<lambda>(scheme_id, bs).
     obind (read_array B 32 bs) (\<lambda>(eph, bs).
     obind (read_u8 B bs) (\<lambda>(vt, bs).
     obind (read_vec B bs) (\<lambda>(metadata, bs).
       Ok ((scheme_id, eph, vt, metadata), bs)))))"

definition read_pin_entry :: "borsh_lib \<Rightarrow> bytes \<Rightarrow> (string, pin_entry \<times> bytes) outcome" where
  "read_pin_entry B bs =
     obind (read_note_fields B bs) (\<lambda>((s, e, v, m), bs).
       Ok (\<lparr>pe_scheme_id = s, pe_ephemeral_pub = e, pe_view_tag = v, pe_metadata = m\<rparr>, bs))"

definition read_pin_entries :: "borsh_lib \<Rightarrow> bytes \<Rightarrow> (string, pin_entry list \<times> bytes) outcome" where
  "read_pin_entries B bs = obind (read_len B bs) (\<lambda>(n, bs). dec_n (read_pin_entry B) n bs)"

text \<open>
  \<open>emit!\<close> writes the event as a log line: its discriminator and its borsh bytes, in base64.
\<close>

definition write_note_fields :: "borsh_lib \<Rightarrow> u16 \<Rightarrow> bytes \<Rightarrow> u8 \<Rightarrow> bytes \<Rightarrow> bytes option" where
  "write_note_fields B scheme_id eph vt metadata =
     map_option (\<lambda>v. write_u16 B scheme_id @ write_array B eph @ write_u8 B vt @ v)
       (write_vec B metadata)"

definition note_log_line :: "('s, 'p, 'k) crypto \<Rightarrow> text_lib \<Rightarrow> borsh_lib \<Rightarrow> pin_note \<Rightarrow> string" where
  "note_log_line C T B n =
     ''Program data: '' @ b64_encode T (discriminator C ''event'' ''Note'' @
       written (write_note_fields B (note_scheme_id n) (note_ephemeral_pub n) (note_view_tag n)
         (note_metadata n)))"

fun emit_nothing :: "(pinboard_error, 'a) outcome \<Rightarrow> ('a \<Rightarrow> pin_note list \<times> (pinboard_error, unit) outcome) \<Rightarrow>
  pin_note list \<times> (pinboard_error, unit) outcome" where
  "emit_nothing (Ok x) f = f x"
| "emit_nothing (Err e) f = ([], Err e)"
| "emit_nothing Panic f = ([], Panic)"

definition run_post ::
  "borsh_lib \<Rightarrow> account_meta list \<Rightarrow> bytes \<Rightarrow> pin_note list \<times> (pinboard_error, unit) outcome" where
  "run_post B metas body =
     emit_nothing (omap_err PinboardAnchor (read_args (read_note_fields B) body)) (\<lambda>(s, e, v, m).
     emit_nothing (omap_err PinboardAnchor (post_accounts metas)) (\<lambda>_.
       post s e v m))"

definition run_post_batch ::
  "borsh_lib \<Rightarrow> account_meta list \<Rightarrow> bytes \<Rightarrow> pin_note list \<times> (pinboard_error, unit) outcome" where
  "run_post_batch B metas body =
     emit_nothing (omap_err PinboardAnchor (read_args (read_pin_entries B) body)) (\<lambda>es.
     emit_nothing (omap_err PinboardAnchor (post_accounts metas)) (\<lambda>_.
       post_batch es))"

section \<open>Specification\<close>

definition note_of_entry :: "pin_entry \<Rightarrow> pin_note" where
  "note_of_entry e =
     \<lparr>note_scheme_id = pe_scheme_id e, note_ephemeral_pub = pe_ephemeral_pub e,
      note_view_tag = pe_view_tag e, note_metadata = pe_metadata e\<rparr>"

definition fits :: "pin_entry \<Rightarrow> bool" where
  "fits e \<longleftrightarrow> length (pe_metadata e) \<le> MAX_METADATA_LEN"

lemma post_entries_eq:
  "post_entries es = (map note_of_entry (takeWhile fits es),
     if \<forall>e \<in> set es. fits e then Ok () else Err NoteMetadataTooLong)"
  by (induction es) (auto simp: note_of_entry_def fits_def Let_def)

lemma post_batch_accepts:
  assumes "es \<noteq> []" "length es \<le> MAX_BATCH_ENTRIES" "\<forall>e \<in> set es. fits e"
  shows "post_batch es = (map note_of_entry es, Ok ())"
  using assms by (simp add: post_batch_def post_entries_eq)

section \<open>Properties\<close>

text \<open>C12: a batch succeeds exactly when it has between 1 and 50 entries, none with more than 64
  bytes of metadata, and then emits one note per entry, in order, with the entry's fields. The
  other outcomes are one named error each, checked in the order empty, too large, metadata.\<close>

theorem post_batch_outcomes:
  "post_batch es =
     (if es = [] then ([], Err EmptyBatch)
      else if 50 < length es then ([], Err BatchTooLarge)
      else if \<exists>e \<in> set es. 64 < length (pe_metadata e)
           then (map note_of_entry (takeWhile (\<lambda>e. length (pe_metadata e) \<le> 64) es), Err NoteMetadataTooLong)
      else (map note_of_entry es, Ok ()))"
proof -
  have fits: "fits = (\<lambda>e. length (pe_metadata e) \<le> 64)"
    by (auto simp: fits_def MAX_METADATA_LEN_def)
  show ?thesis
    by (auto simp: post_batch_def post_entries_eq MAX_BATCH_ENTRIES_def fits not_le)
qed

text \<open>A batch is the sequence of its single posts: it succeeds exactly when it has an allowed
  size and every entry's own \<open>post\<close> succeeds, and then it emits what those posts emit.\<close>

theorem post_batch_is_posts:
  "(snd (post_batch es) = Ok () \<longleftrightarrow>
      es \<noteq> [] \<and> length es \<le> 50 \<and>
      (\<forall>e \<in> set es. snd (post (pe_scheme_id e) (pe_ephemeral_pub e) (pe_view_tag e) (pe_metadata e)) = Ok ()))
   \<and> (snd (post_batch es) = Ok () \<longrightarrow>
      fst (post_batch es) =
        concat (map (\<lambda>e. fst (post (pe_scheme_id e) (pe_ephemeral_pub e) (pe_view_tag e) (pe_metadata e))) es))"
  (is "(?ok \<longleftrightarrow> ?all) \<and> (?ok \<longrightarrow> ?eq)")
proof (intro conjI impI)
  show iff: "?ok \<longleftrightarrow> ?all"
    by (auto simp: post_batch_def post_entries_eq post_def MAX_BATCH_ENTRIES_def fits_def)
  assume ?ok
  with iff have "es \<noteq> []" "length es \<le> MAX_BATCH_ENTRIES" and all: "\<forall>e \<in> set es. fits e"
    by (auto simp: MAX_BATCH_ENTRIES_def post_def fits_def split: if_splits)
  then have "fst (post_batch es) = map note_of_entry es" by (simp add: post_batch_accepts)
  also have "map note_of_entry es =
      concat (map (\<lambda>e. fst (post (pe_scheme_id e) (pe_ephemeral_pub e) (pe_view_tag e) (pe_metadata e))) es)"
    using all by (induction es) (simp_all add: post_def note_of_entry_def fits_def)
  finally show ?eq .
qed

theorem post_batch_is_posts_witness:
  "fst (post_batch (replicate 2 \<lparr>pe_scheme_id = 1, pe_ephemeral_pub = replicate 32 7, pe_view_tag = 9,
      pe_metadata = [5]\<rparr>)) =
   replicate 2 \<lparr>note_scheme_id = 1, note_ephemeral_pub = replicate 32 7, note_view_tag = 9,
      note_metadata = [5]\<rparr>"
proof -
  let ?es = "replicate 2 \<lparr>pe_scheme_id = 1, pe_ephemeral_pub = replicate 32 7, pe_view_tag = 9,
      pe_metadata = [5]\<rparr> :: pin_entry list"
  have "snd (post_batch ?es) = Ok ()"
    using post_batch_is_posts [of ?es] by (auto simp: post_def MAX_METADATA_LEN_def)
  then show ?thesis
    using post_batch_is_posts [of ?es] by (auto simp: post_def MAX_METADATA_LEN_def numeral_2_eq_2)
qed

text \<open>A batch that fails on the metadata of a later entry has already emitted the notes before
  it: the log is empty only if the first entry is the oversized one.\<close>

theorem oversized_entry_emits_prefix:
  assumes "length (pre @ e # post_es) \<le> 50" "\<forall>x \<in> set pre. length (pe_metadata x) \<le> 64"
    and "64 < length (pe_metadata e)"
  shows "post_batch (pre @ e # post_es) = (map note_of_entry pre, Err NoteMetadataTooLong)"
proof -
  have "takeWhile fits (pre @ e # post_es) = pre"
    using assms by (subst takeWhile_append2) (auto simp: fits_def MAX_METADATA_LEN_def)
  with assms show ?thesis
    by (auto simp: post_batch_def post_entries_eq MAX_BATCH_ENTRIES_def fits_def MAX_METADATA_LEN_def)
qed

theorem oversized_entry_emits_prefix_witness:
  "\<exists>small big. post_batch [small, big] = ([note_of_entry small], Err NoteMetadataTooLong)"
proof -
  let ?e = "\<lambda>n. \<lparr>pe_scheme_id = 1, pe_ephemeral_pub = replicate 32 7, pe_view_tag = 9,
    pe_metadata = replicate n 0\<rparr>"
  show ?thesis
    using oversized_entry_emits_prefix [of "[?e 3]" "?e 65" "[]"] by auto
qed

end
