(* ===== verification/Pinboard_Sdk.thy ===== *)
theory Pinboard_Sdk
  imports Pinboard_Program
begin

text \<open>
  \<open>crates/slnt-sdk/src/pinboard.rs\<close>: the instructions for the pinboard program and the parser of
  its events. A derived borsh writer writes the fields in declaration order; it fails only where
  a \<open>Vec\<close> is too long for its length prefix.
\<close>

definition POST_DISCRIMINATOR :: bytes where
  "POST_DISCRIMINATOR = [223, 96, 234, 236, 158, 106, 145, 94]"
definition POST_BATCH_DISCRIMINATOR :: bytes where
  "POST_BATCH_DISCRIMINATOR = [172, 123, 234, 102, 14, 213, 76, 36]"
definition NOTE_EVENT_DISCRIMINATOR :: bytes where
  "NOTE_EVENT_DISCRIMINATOR = [40, 182, 5, 151, 115, 43, 27, 97]"

record post_args =
  pa_scheme_id :: u16
  pa_ephemeral_pub :: bytes
  pa_view_tag :: u8
  pa_metadata :: bytes

record note_entry =
  ne_scheme_id :: u16
  ne_ephemeral_pub :: bytes
  ne_view_tag :: u8
  ne_metadata :: bytes

record note_event =
  ev_scheme_id :: u16
  ev_ephemeral_pub :: bytes
  ev_view_tag :: u8
  ev_metadata :: bytes

section \<open>borsh layouts\<close>

definition write_post_args :: "borsh_lib \<Rightarrow> post_args \<Rightarrow> bytes option" where
  "write_post_args B a =
     write_note_fields B (pa_scheme_id a) (pa_ephemeral_pub a) (pa_view_tag a) (pa_metadata a)"

definition write_note_entry :: "borsh_lib \<Rightarrow> note_entry \<Rightarrow> bytes option" where
  "write_note_entry B e =
     write_note_fields B (ne_scheme_id e) (ne_ephemeral_pub e) (ne_view_tag e) (ne_metadata e)"

definition write_note_event :: "borsh_lib \<Rightarrow> note_event \<Rightarrow> bytes option" where
  "write_note_event B e =
     write_note_fields B (ev_scheme_id e) (ev_ephemeral_pub e) (ev_view_tag e) (ev_metadata e)"

definition read_note_event :: "borsh_lib \<Rightarrow> bytes \<Rightarrow> (string, note_event \<times> bytes) outcome" where
  "read_note_event B bs =
     obind (read_note_fields B bs) (\<lambda>((s, e, v, m), bs).
       Ok (\<lparr>ev_scheme_id = s, ev_ephemeral_pub = e, ev_view_tag = v, ev_metadata = m\<rparr>, bs))"

text \<open>\<open>Vec<NoteEntry>\<close>: a length, then the entries.\<close>

fun write_each :: "('a \<Rightarrow> bytes option) \<Rightarrow> 'a list \<Rightarrow> bytes option" where
  "write_each w [] = Some []"
| "write_each w (x # xs) =
     Option.bind (w x) (\<lambda>a. map_option (\<lambda>b. a @ b) (write_each w xs))"

definition write_note_entries :: "borsh_lib \<Rightarrow> note_entry list \<Rightarrow> bytes option" where
  "write_note_entries B es =
     Option.bind (write_len B (length es)) (\<lambda>n.
       map_option (\<lambda>b. n @ b) (write_each (write_note_entry B) es))"

section \<open>Instructions and events\<close>

definition build_post_instruction ::
  "borsh_lib \<Rightarrow> pubkey \<Rightarrow> pubkey \<Rightarrow> u16 \<Rightarrow> bytes \<Rightarrow> u8 \<Rightarrow> bytes \<Rightarrow> ('e, instruction) outcome" where
  "build_post_instruction B pinboard_program_id fee_payer scheme_id eph vt metadata =
     (let args = \<lparr>pa_scheme_id = scheme_id, pa_ephemeral_pub = eph, pa_view_tag = vt,
                  pa_metadata = metadata\<rparr> in
      obind (expect_some (write_post_args B args)) (\<lambda>body.
        Ok \<lparr>program_id = pinboard_program_id,
            accounts = [account_meta_new fee_payer True],
            data = POST_DISCRIMINATOR @ body\<rparr>))"

definition build_post_batch_instruction ::
  "borsh_lib \<Rightarrow> pubkey \<Rightarrow> pubkey \<Rightarrow> note_entry list \<Rightarrow> ('e, instruction) outcome" where
  "build_post_batch_instruction B pinboard_program_id fee_payer entries =
     obind (expect_some (write_note_entries B entries)) (\<lambda>body.
       Ok \<lparr>program_id = pinboard_program_id,
           accounts = [account_meta_new fee_payer True],
           data = POST_BATCH_DISCRIMINATOR @ body\<rparr>)"

definition PREFIX :: string where
  "PREFIX = ''Program data: ''"

definition try_parse_note_log ::
  "text_lib \<Rightarrow> borsh_lib \<Rightarrow> string \<Rightarrow> (string, note_event option) outcome" where
  "try_parse_note_log T B line =
     (case strip_prefix PREFIX line of
        None \<Rightarrow> Ok None
      | Some b64 \<Rightarrow>
          obind (omap_err (\<lambda>e. ''base64 decode: '' @ e) (b64_decode T (trim b64))) (\<lambda>raw.
            if length raw < 8 then Ok None
            else obind (slice_to 8 raw) (\<lambda>disc.
              if disc \<noteq> NOTE_EVENT_DISCRIMINATOR then Ok None
              else obind (slice_from 8 raw) (\<lambda>body.
                obind (omap_err (\<lambda>e. ''borsh deserialize NoteEvent: '' @ e)
                         (dec_all (left_over B) (read_note_event B) body)) (\<lambda>event.
                  Ok (Some event))))))"

text \<open>The slices are in bounds.\<close>

lemma try_parse_note_log_eq:
  "try_parse_note_log T B line =
     (case strip_prefix PREFIX line of
        None \<Rightarrow> Ok None
      | Some b64 \<Rightarrow>
          obind (omap_err (\<lambda>e. ''base64 decode: '' @ e) (b64_decode T (trim b64))) (\<lambda>raw.
            if length raw < 8 \<or> take 8 raw \<noteq> NOTE_EVENT_DISCRIMINATOR then Ok None
            else
              obind (omap_err (\<lambda>e. ''borsh deserialize NoteEvent: '' @ e)
                       (dec_all (left_over B) (read_note_event B) (drop 8 raw))) (\<lambda>event.
                Ok (Some event))))"
  unfolding try_parse_note_log_def
  by (intro arg_cong [where f = "\<lambda>f. case_option _ f _"] ext arg_cong [where f = "obind _"])
    (simp add: slice_to_def slice_from_def)

section \<open>The codecs\<close>

text \<open>The values of the Rust types: 32-byte arrays, and metadata whose length borsh can write.\<close>

definition note_fields_ok :: "bytes \<Rightarrow> bytes \<Rightarrow> bool" where
  "note_fields_ok eph metadata \<longleftrightarrow> is_array 32 eph \<and> length metadata < 2 ^ 32"

definition event_ok :: "note_event \<Rightarrow> bool" where
  "event_ok e \<longleftrightarrow> note_fields_ok (ev_ephemeral_pub e) (ev_metadata e)"

definition entry_ok :: "note_entry \<Rightarrow> bool" where
  "entry_ok e \<longleftrightarrow> note_fields_ok (ne_ephemeral_pub e) (ne_metadata e)"

lemma note_fields_roundtrip:
  assumes "borsh_laws B" "note_fields_ok eph metadata"
  shows "\<exists>w. write_note_fields B s eph vt metadata = Some w \<and>
    (\<forall>r. read_note_fields B (w @ r) = Ok ((s, eph, vt, metadata), r))"
proof -
  from assms obtain v where "write_vec B metadata = Some v" "\<forall>r. read_vec B (v @ r) = Ok (metadata, r)"
    using borsh_vec [OF assms(1)] by (auto simp: note_fields_ok_def)
  then show ?thesis
    using assms by (simp add: write_note_fields_def read_note_fields_def borsh_lawsD note_fields_ok_def)
qed

lemma length_note_fields:
  "borsh_sizes B \<Longrightarrow> write_note_fields B s eph vt metadata = Some w \<Longrightarrow>
     length w = 7 + length eph + length metadata"
  by (auto simp: write_note_fields_def borsh_sizes_def)

text \<open>The three layouts as codecs, on the program's side and on the SDK's.\<close>

lemma write_note_entry_pin:
  "write_note_entry B e = Some w \<Longrightarrow> entry_ok e \<Longrightarrow> borsh_laws B \<Longrightarrow>
     read_pin_entry B (w @ r) =
       Ok (\<lparr>pe_scheme_id = ne_scheme_id e, pe_ephemeral_pub = ne_ephemeral_pub e,
            pe_view_tag = ne_view_tag e, pe_metadata = ne_metadata e\<rparr>, r)"
  using note_fields_roundtrip [of B "ne_ephemeral_pub e" "ne_metadata e" "ne_scheme_id e" "ne_view_tag e"]
  by (auto simp: write_note_entry_def read_pin_entry_def entry_ok_def)

text \<open>An entry as the program reads it.\<close>

definition to_pin :: "note_entry \<Rightarrow> pin_entry" where
  "to_pin e = \<lparr>pe_scheme_id = ne_scheme_id e, pe_ephemeral_pub = ne_ephemeral_pub e,
     pe_view_tag = ne_view_tag e, pe_metadata = ne_metadata e\<rparr>"

definition of_pin :: "pin_entry \<Rightarrow> note_entry" where
  "of_pin e = \<lparr>ne_scheme_id = pe_scheme_id e, ne_ephemeral_pub = pe_ephemeral_pub e,
     ne_view_tag = pe_view_tag e, ne_metadata = pe_metadata e\<rparr>"

lemma to_pin_of_pin [simp]: "to_pin (of_pin e) = e" "of_pin (to_pin n) = n"
  by (simp_all add: to_pin_def of_pin_def)

interpretation event_codec: codec
  "\<lambda>e. borsh_laws B \<and> event_ok e"
  "\<lambda>e. written (write_note_event B e)"
  "read_note_event B" for B
proof
  fix e :: note_event and rest
  assume "borsh_laws B \<and> event_ok e"
  then show "read_note_event B (written (write_note_event B e) @ rest) = Ok (e, rest)"
    using note_fields_roundtrip [of B "ev_ephemeral_pub e" "ev_metadata e" "ev_scheme_id e" "ev_view_tag e"]
    by (auto simp: write_note_event_def read_note_event_def event_ok_def)
qed

interpretation pin_codec: codec
  "\<lambda>p. borsh_laws B \<and> entry_ok (of_pin p)"
  "\<lambda>p. written (write_note_entry B (of_pin p))"
  "read_pin_entry B" for B
proof
  fix p :: pin_entry and rest
  assume ok: "borsh_laws B \<and> entry_ok (of_pin p)"
  then obtain w where "write_note_entry B (of_pin p) = Some w"
    using note_fields_roundtrip [of B "ne_ephemeral_pub (of_pin p)" "ne_metadata (of_pin p)"
        "ne_scheme_id (of_pin p)" "ne_view_tag (of_pin p)"]
    by (auto simp: write_note_entry_def entry_ok_def)
  with ok show "read_pin_entry B (written (write_note_entry B (of_pin p)) @ rest) = Ok (p, rest)"
    using write_note_entry_pin [of B "of_pin p" w rest] by (simp add: of_pin_def)
qed

lemma write_each_eq:
  "\<forall>x \<in> set xs. \<exists>b. w x = Some b \<Longrightarrow> write_each w xs = Some (concat (map (\<lambda>x. written (w x)) xs))"
  by (induction xs) auto

lemma write_note_entry_total: "borsh_laws B \<Longrightarrow> entry_ok e \<Longrightarrow> \<exists>w. write_note_entry B e = Some w"
  using note_fields_roundtrip [of B "ne_ephemeral_pub e" "ne_metadata e" "ne_scheme_id e" "ne_view_tag e"]
  by (auto simp: write_note_entry_def entry_ok_def)

lemma note_entries_roundtrip:
  assumes "borsh_laws B" "length es < 2 ^ 32" "\<forall>e \<in> set es. entry_ok e"
  shows "\<exists>w. write_note_entries B es = Some w \<and>
    (\<forall>r. read_pin_entries B (w @ r) = Ok (map to_pin es, r))"
proof -
  obtain n where n: "write_len B (length es) = Some n"
    "\<forall>r. read_len B (n @ r) = Ok (length es, r)"
    using borsh_len [OF assms(1,2)] by blast
  let ?body = "concat (map (\<lambda>e. written (write_note_entry B e)) es)"
  have "write_each (write_note_entry B) es = Some ?body"
    using assms(1,3) write_note_entry_total by (intro write_each_eq) blast
  moreover have "dec_n (read_pin_entry B) (length es) (?body @ r) = Ok (map to_pin es, r)" for r
    using pin_codec.dec_n_enc [of "map to_pin es" B r] assms(1,3) by (simp add: comp_def)
  ultimately show ?thesis
    using n by (auto simp: write_note_entries_def read_pin_entries_def)
qed

section \<open>Properties\<close>

text \<open>What the unit tests of \<open>pinboard.rs\<close> check of the constants.\<close>

definition pinboard_discriminators :: "('s, 'p, 'k) crypto \<Rightarrow> bool" where
  "pinboard_discriminators C \<longleftrightarrow>
     discriminator C ''global'' ''post'' = POST_DISCRIMINATOR \<and>
     discriminator C ''global'' ''post_batch'' = POST_BATCH_DISCRIMINATOR \<and>
     discriminator C ''event'' ''Note'' = NOTE_EVENT_DISCRIMINATOR"

definition pin_crypto :: "(u8, toy_point, u8) crypto" where
  "pin_crypto = sha_table
     [(ascii ''global:post'', POST_DISCRIMINATOR),
      (ascii ''global:post_batch'', POST_BATCH_DISCRIMINATOR),
      (ascii ''event:Note'', NOTE_EVENT_DISCRIMINATOR)]"

lemma pinboard_discriminators_pin: "pinboard_discriminators pin_crypto"
  by (simp add: pinboard_discriminators_def pin_crypto_def sha_table_def discriminator_def ascii_def
      POST_DISCRIMINATOR_def POST_BATCH_DISCRIMINATOR_def NOTE_EVENT_DISCRIMINATOR_def)

definition event_of_note :: "pin_note \<Rightarrow> note_event" where
  "event_of_note n = \<lparr>ev_scheme_id = note_scheme_id n, ev_ephemeral_pub = note_ephemeral_pub n,
     ev_view_tag = note_view_tag n, ev_metadata = note_metadata n\<rparr>"

lemma note_log_line_parses:
  assumes "text_laws T" "borsh_laws B" "discriminator C ''event'' ''Note'' = NOTE_EVENT_DISCRIMINATOR"
    and "event_ok (event_of_note n)"
  shows "try_parse_note_log T B (note_log_line C T B n) = Ok (Some (event_of_note n))"
proof -
  let ?w = "written (write_note_event B (event_of_note n))"
  have line: "note_log_line C T B n = PREFIX @ b64_encode T (NOTE_EVENT_DISCRIMINATOR @ ?w)"
    by (simp add: note_log_line_def PREFIX_def assms(3) write_note_event_def event_of_note_def)
  have "trim (b64_encode T d) = b64_encode T d" for d
    using text_lawsD(4) [OF assms(1)] by (simp add: printable_trimmed)
  then show ?thesis
    using event_codec.dec_all_enc [of B "event_of_note n" "left_over B"] assms(2,4)
    by (simp add: line try_parse_note_log_eq text_lawsD(3) [OF assms(1)] NOTE_EVENT_DISCRIMINATOR_def)
qed

lemma sdk_post_accepted:
  assumes "text_laws T" "borsh_laws B" "pinboard_discriminators C"
    and "is_array 32 eph" "length metadata \<le> 64"
  shows "\<exists>ix body n.
    build_post_instruction B pid payer s eph vt metadata = (Ok ix :: (slnt_error, instruction) outcome) \<and>
    program_id ix = pid \<and> data ix = POST_DISCRIMINATOR @ body \<and>
    run_post B (accounts ix) body = ([n], Ok ()) \<and>
    try_parse_note_log T B (note_log_line C T B n) =
      Ok (Some \<lparr>ev_scheme_id = s, ev_ephemeral_pub = eph, ev_view_tag = vt, ev_metadata = metadata\<rparr>)"
proof -
  have ok: "note_fields_ok eph metadata" using assms(4,5) by (simp add: note_fields_ok_def)
  let ?n = "\<lparr>note_scheme_id = s, note_ephemeral_pub = eph, note_view_tag = vt, note_metadata = metadata\<rparr>"
  obtain w where w: "write_note_fields B s eph vt metadata = Some w"
    "\<forall>r. read_note_fields B (w @ r) = Ok ((s, eph, vt, metadata), r)"
    using note_fields_roundtrip [OF assms(2) ok] by blast
  have "run_post B [account_meta_new payer True] w = ([?n], Ok ())"
    using w(2) [rule_format, of "[]"] assms(5)
    by (simp add: run_post_def read_args_def signer_def mut_def post_def MAX_METADATA_LEN_def)
  moreover have "try_parse_note_log T B (note_log_line C T B ?n) = Ok (Some (event_of_note ?n))"
    using assms(3) ok by (intro note_log_line_parses [OF assms(1,2)])
      (simp_all add: pinboard_discriminators_def event_ok_def event_of_note_def)
  ultimately show ?thesis
    using w(1) assms(3)
    by (simp add: build_post_instruction_def write_post_args_def pinboard_discriminators_def
        event_of_note_def)
qed

text \<open>A note posted through the SDK comes back through the log. The instruction the SDK builds
  carries the program's discriminator and arguments the program reads back unchanged; with at most
  64 bytes of metadata the program accepts it and emits one note, and the SDK's parser reads the
  note's log line as exactly that note.\<close>

theorem post_through_log:
  assumes "text_laws T" "borsh_laws B" "pinboard_discriminators C"
    and "is_array 32 eph" "length metadata \<le> 64"
  shows "\<exists>ix body n.
    build_post_instruction B pid payer s eph vt metadata = (Ok ix :: (slnt_error, instruction) outcome) \<and>
    program_id ix = pid \<and> data ix = discriminator C ''global'' ''post'' @ body \<and>
    run_post B (accounts ix) body = ([n], Ok ()) \<and>
    try_parse_note_log T B (note_log_line C T B n) =
      Ok (Some \<lparr>ev_scheme_id = s, ev_ephemeral_pub = eph, ev_view_tag = vt, ev_metadata = metadata\<rparr>)"
  using sdk_post_accepted [OF assms] assms(3) by (simp add: pinboard_discriminators_def)

theorem post_through_log_witness:
  "\<exists>ix body n.
    build_post_instruction borsh_le [1] [2] 1 (replicate 32 7) 9 [3, 4] = (Ok ix :: (slnt_error, instruction) outcome) \<and>
    data ix = POST_DISCRIMINATOR @ body \<and>
    run_post borsh_le (accounts ix) body = ([n], Ok ())"
  using post_through_log [OF text_laws_hex_text borsh_laws_le pinboard_discriminators_pin,
      of "replicate 32 7" "[3, 4]" "[1]" "[2]" 1 9] pinboard_discriminators_pin
  by (auto simp: pinboard_discriminators_def)

lemma sdk_batch_accepted:
  assumes "text_laws T" "borsh_laws B" "pinboard_discriminators C"
    and "es \<noteq> []" "length es \<le> 50"
    and "\<forall>e \<in> set es. is_array 32 (ne_ephemeral_pub e) \<and> length (ne_metadata e) \<le> 64"
  shows "\<exists>ix body notes.
    build_post_batch_instruction B pid payer es = (Ok ix :: (slnt_error, instruction) outcome) \<and>
    program_id ix = pid \<and> data ix = discriminator C ''global'' ''post_batch'' @ body \<and>
    run_post_batch B (accounts ix) body = (notes, Ok ()) \<and>
    map (\<lambda>n. try_parse_note_log T B (note_log_line C T B n)) notes =
      map (\<lambda>e. Ok (Some \<lparr>ev_scheme_id = ne_scheme_id e, ev_ephemeral_pub = ne_ephemeral_pub e,
                      ev_view_tag = ne_view_tag e, ev_metadata = ne_metadata e\<rparr>)) es"
proof -
  have ok: "\<forall>e \<in> set es. entry_ok e"
    using assms(6) by (fastforce simp: entry_ok_def note_fields_ok_def)
  obtain w where w: "write_note_entries B es = Some w"
    "\<forall>r. read_pin_entries B (w @ r) = Ok (map to_pin es, r)"
    using note_entries_roundtrip [OF assms(2) _ ok] assms(5) by auto
  let ?notes = "map (\<lambda>e. note_of_entry (to_pin e)) es"
  have "post_batch (map to_pin es) = (?notes, Ok ())"
    using assms(4-6) by (subst post_batch_accepts)
      (auto simp: MAX_BATCH_ENTRIES_def MAX_METADATA_LEN_def fits_def to_pin_def)
  then have "run_post_batch B [account_meta_new payer True] w = (?notes, Ok ())"
    using w(2) [rule_format, of "[]"]
    by (simp add: run_post_batch_def read_args_def signer_def mut_def)
  moreover have "try_parse_note_log T B (note_log_line C T B (note_of_entry (to_pin e))) =
      Ok (Some (event_of_note (note_of_entry (to_pin e))))" if "e \<in> set es" for e
    using ok that assms(3) by (intro note_log_line_parses [OF assms(1,2)])
      (auto simp: pinboard_discriminators_def event_ok_def event_of_note_def note_of_entry_def
        to_pin_def entry_ok_def)
  ultimately show ?thesis
    using w(1) assms(3)
    by (simp add: build_post_batch_instruction_def pinboard_discriminators_def)
      (simp add: event_of_note_def note_of_entry_def to_pin_def)
qed

text \<open>C11: the same for a batch: the SDK's \<open>post_batch\<close> instruction of 1 to 50 entries within the
  metadata bound is accepted by the program, and parsing the log lines it writes returns the
  entries, all of them, in order.\<close>

theorem batch_through_log:
  assumes "text_laws T" "borsh_laws B" "pinboard_discriminators C"
    and "es \<noteq> []" "length es \<le> 50"
    and "\<forall>e \<in> set es. is_array 32 (ne_ephemeral_pub e) \<and> length (ne_metadata e) \<le> 64"
  shows "\<exists>ix body notes.
    build_post_batch_instruction B pid payer es = (Ok ix :: (slnt_error, instruction) outcome) \<and>
    program_id ix = pid \<and> data ix = discriminator C ''global'' ''post_batch'' @ body \<and>
    run_post_batch B (accounts ix) body = (notes, Ok ()) \<and>
    map (\<lambda>n. try_parse_note_log T B (note_log_line C T B n)) notes =
      map (\<lambda>e. Ok (Some \<lparr>ev_scheme_id = ne_scheme_id e, ev_ephemeral_pub = ne_ephemeral_pub e,
                      ev_view_tag = ne_view_tag e, ev_metadata = ne_metadata e\<rparr>)) es"
  by (rule sdk_batch_accepted [OF assms])

theorem batch_through_log_witness:
  "\<exists>ix body notes.
    build_post_batch_instruction borsh_le [1] [2]
      [\<lparr>ne_scheme_id = 1, ne_ephemeral_pub = replicate 32 7, ne_view_tag = 9, ne_metadata = [3]\<rparr>,
       \<lparr>ne_scheme_id = 2, ne_ephemeral_pub = replicate 32 8, ne_view_tag = 0, ne_metadata = []\<rparr>] =
      (Ok ix :: (slnt_error, instruction) outcome) \<and>
    run_post_batch borsh_le (accounts ix) body = (notes, Ok ()) \<and> length notes = 2"
proof -
  let ?es = "[\<lparr>ne_scheme_id = 1, ne_ephemeral_pub = replicate 32 7, ne_view_tag = 9, ne_metadata = [3]\<rparr>,
       \<lparr>ne_scheme_id = 2, ne_ephemeral_pub = replicate 32 8, ne_view_tag = 0, ne_metadata = []\<rparr>] :: note_entry list"
  have "\<exists>ix body notes.
    build_post_batch_instruction borsh_le [1] [2] ?es = (Ok ix :: (slnt_error, instruction) outcome) \<and>
    run_post_batch borsh_le (accounts ix) body = (notes, Ok ()) \<and>
    length (map (\<lambda>n. try_parse_note_log hex_text borsh_le (note_log_line pin_crypto hex_text borsh_le n)) notes) =
      length ?es"
    using batch_through_log [OF text_laws_hex_text borsh_laws_le pinboard_discriminators_pin,
      of ?es "[1]" "[2]"] by (fastforce simp del: length_map)
  then show ?thesis by (simp add: numeral_2_eq_2)
qed

text \<open>What the parser does with lines that are not whole notes: a line without the \<open>Program data\<close>
  prefix or with another event's discriminator is skipped, a note with bytes after it is an
  error, never a note.\<close>

theorem foreign_log_lines:
  assumes "text_laws T" "borsh_laws B"
  shows "((\<nexists>rest. line = ''Program data: '' @ rest) \<longrightarrow> try_parse_note_log T B line = Ok None)
    \<and> (take 8 raw \<noteq> NOTE_EVENT_DISCRIMINATOR \<longrightarrow>
         try_parse_note_log T B (''Program data: '' @ b64_encode T raw) = Ok None)
    \<and> (event_ok e \<and> extra \<noteq> [] \<longrightarrow>
         try_parse_note_log T B
           (''Program data: '' @ b64_encode T
              (NOTE_EVENT_DISCRIMINATOR @ written (write_note_event B e) @ extra)) =
         Err (''borsh deserialize NoteEvent: '' @ left_over B))"
proof -
  have trim: "trim (b64_encode T d) = b64_encode T d" for d
    using text_lawsD(4) [OF assms(1)] by (simp add: printable_trimmed)
  have "strip_prefix PREFIX line = None" if "\<nexists>rest. line = ''Program data: '' @ rest"
    using that by (cases "strip_prefix PREFIX line") (auto simp: strip_prefix_Some_iff PREFIX_def)
  moreover have "strip_prefix PREFIX (''Program data: '' @ r) = Some r" for r
    by (simp only: PREFIX_def strip_prefix_append)
  ultimately show ?thesis
    using event_codec.dec_all_left_over [of B e extra "left_over B"] assms(2)
    by (auto simp: try_parse_note_log_eq trim text_lawsD(3) [OF assms(1)] NOTE_EVENT_DISCRIMINATOR_def)
qed

theorem foreign_log_lines_witness:
  "try_parse_note_log hex_text borsh_le ''Program log: hello'' = Ok None
   \<and> try_parse_note_log hex_text borsh_le (''Program data: '' @ b64_encode hex_text (replicate 12 0)) = Ok None"
proof -
  have "\<nexists>rest. ''Program log: hello'' = ''Program data: '' @ rest" by simp
  moreover have "take 8 (replicate 12 0) \<noteq> NOTE_EVENT_DISCRIMINATOR" by code_simp
  ultimately show ?thesis
    using foreign_log_lines [OF text_laws_hex_text borsh_laws_le] by blast
qed

end
