(* ===== verification/Announce.thy ===== *)
theory Announce
  imports Sender Pinboard_Sdk "HOL-Library.Sublist"
begin

text \<open>
  \<open>crates/slnt-sdk/src/announce.rs\<close>: the announcement of a payment, its publication as a pinboard
  post, the self-announce decision, deduplication, and the wire form of the announcement service.
  A \<open>Duration\<close> is its number of nanoseconds.
\<close>

definition ANNOUNCE_MAX_METADATA_LEN :: nat where
  "ANNOUNCE_MAX_METADATA_LEN = 64"
definition SELF_ANNOUNCE_TIMEOUT :: nat where
  "SELF_ANNOUNCE_TIMEOUT = 60 * 10 ^ 9"

record announcement =
  an_scheme_id :: u16
  an_ephemeral_pub :: bytes
  an_view_tag :: u8
  an_metadata :: bytes

definition from_payment :: "stealth_payment \<Rightarrow> bytes \<Rightarrow> (slnt_error, announcement) outcome" where
  "from_payment payment metadata =
     (if ANNOUNCE_MAX_METADATA_LEN < length metadata then Err (MetadataTooLong (length metadata))
      else Ok \<lparr>an_scheme_id = SCHEME_ID_V1, an_ephemeral_pub = ephemeral_pub payment,
               an_view_tag = view_tag payment, an_metadata = metadata\<rparr>)"

definition to_post_instruction ::
  "borsh_lib \<Rightarrow> announcement \<Rightarrow> pubkey \<Rightarrow> pubkey \<Rightarrow> ('e, instruction) outcome" where
  "to_post_instruction B a pinboard_program_id fee_payer =
     build_post_instruction B pinboard_program_id fee_payer (an_scheme_id a) (an_ephemeral_pub a)
       (an_view_tag a) (an_metadata a)"

datatype announce_mode = Decoupled | Coupled

definition should_self_announce :: "bool \<Rightarrow> nat \<Rightarrow> nat \<Rightarrow> bool" where
  "should_self_announce matching_note_seen elapsed timeout \<longleftrightarrow>
     \<not> matching_note_seen \<and> timeout \<le> elapsed"

text \<open>The loop of \<open>dedup_by_ephemeral_pub\<close>: the set of keys seen and the output so far.\<close>

fun dedup_loop :: "bytes set \<Rightarrow> announcement list \<Rightarrow> announcement list \<Rightarrow> announcement list" where
  "dedup_loop seen out [] = out"
| "dedup_loop seen out (a # announcements) =
     (if an_ephemeral_pub a \<notin> seen
      then dedup_loop (insert (an_ephemeral_pub a) seen) (out @ [a]) announcements
      else dedup_loop seen out announcements)"

definition dedup_by_ephemeral_pub :: "announcement list \<Rightarrow> announcement list" where
  "dedup_by_ephemeral_pub announcements = dedup_loop {} [] announcements"

section \<open>The service's wire types\<close>

record announce_request =
  ar_scheme_id :: u16
  ar_ephemeral_pub :: string
  ar_view_tag :: u8
  ar_metadata :: string
  ar_payment_proof :: "string option"

definition from_announcement :: "text_lib \<Rightarrow> announcement \<Rightarrow> string option \<Rightarrow> announce_request" where
  "from_announcement T a payment_proof =
     \<lparr>ar_scheme_id = an_scheme_id a,
      ar_ephemeral_pub = b58_encode T (an_ephemeral_pub a),
      ar_view_tag = an_view_tag a,
      ar_metadata = b58_encode T (an_metadata a),
      ar_payment_proof = payment_proof\<rparr>"

record announce_response =
  rs_queued :: bool
  rs_batch_id :: string
  rs_expected_slot :: u64

record announce_status =
  as_status :: string
  as_tx_signature :: "string option"

section \<open>Deduplication\<close>

text \<open>Keep an element if no earlier one has its key.\<close>

fun first_by :: "('a \<Rightarrow> 'b) \<Rightarrow> 'a list \<Rightarrow> 'a list" where
  "first_by key [] = []"
| "first_by key (a # as) = a # filter (\<lambda>b. key b \<noteq> key a) (first_by key as)"

lemma dedup_loop_eq:
  "dedup_loop seen out as =
     out @ filter (\<lambda>a. an_ephemeral_pub a \<notin> seen) (first_by an_ephemeral_pub as)"
proof (induction as arbitrary: seen out)
  case (Cons a as)
  have "filter (\<lambda>b. an_ephemeral_pub b \<notin> seen \<and> an_ephemeral_pub b \<noteq> an_ephemeral_pub a) xs =
      filter (\<lambda>b. an_ephemeral_pub b \<notin> seen) xs"
    if "an_ephemeral_pub a \<in> seen" for xs :: "announcement list"
    using that by (intro filter_cong) auto
  with Cons show ?case by (auto simp: conj_commute)
qed simp

lemma dedup_eq: "dedup_by_ephemeral_pub as = first_by an_ephemeral_pub as"
  by (simp add: dedup_by_ephemeral_pub_def dedup_loop_eq)

lemma distinct_map_filter': "distinct (map f xs) \<Longrightarrow> distinct (map f (filter P xs))"
  by (induction xs) auto

lemma first_by_distinct: "distinct (map key (first_by key as))"
  by (induction as) (auto intro: distinct_map_filter')

lemma first_by_keys: "key ` set (first_by key as) = key ` set as"
proof (induction as)
  case (Cons a as)
  have "key ` set (filter (\<lambda>b. key b \<noteq> key a) xs) = key ` set xs - {key a}" for xs by auto
  with Cons show ?case by auto
qed simp

lemma first_by_subseq: "subseq (first_by key as) as"
  by (induction as) (auto intro: subseq_order.trans subseq_filter_left)

lemma first_by_first: "a \<in> set (first_by key as) \<Longrightarrow> find (\<lambda>b. key b = key a) as = Some a"
  by (induction as) auto

lemma first_by_id: "distinct (map key as) \<Longrightarrow> first_by key as = as"
proof (induction as)
  case (Cons a as)
  then have "\<forall>x \<in> set as. key x \<noteq> key a" by (metis distinct.simps(2) image_eqI list.set_map list.simps(9))
  with Cons show ?case by (simp add: filter_id_conv)
qed simp

section \<open>Properties\<close>

text \<open>Deduplication keeps exactly the first announcement of every ephemeral key, in the order
  first seen: no key occurs twice, no key is lost, the kept ones are a subsequence of the input,
  and doing it again changes nothing.\<close>

theorem dedup_keeps_first:
  "distinct (map an_ephemeral_pub (dedup_by_ephemeral_pub as))
   \<and> an_ephemeral_pub ` set (dedup_by_ephemeral_pub as) = an_ephemeral_pub ` set as
   \<and> subseq (dedup_by_ephemeral_pub as) as
   \<and> (\<forall>a \<in> set (dedup_by_ephemeral_pub as).
        find (\<lambda>b. an_ephemeral_pub b = an_ephemeral_pub a) as = Some a)
   \<and> dedup_by_ephemeral_pub (dedup_by_ephemeral_pub as) = dedup_by_ephemeral_pub as"
  by (simp add: dedup_eq first_by_distinct first_by_keys first_by_subseq first_by_first first_by_id)

theorem dedup_keeps_first_witness:
  "\<exists>as. length as = 2 \<and> map an_view_tag (dedup_by_ephemeral_pub as) = [1]
     \<and> an_ephemeral_pub ` set (dedup_by_ephemeral_pub as) = {[1]}"
proof -
  let ?as = "[\<lparr>an_scheme_id = 1, an_ephemeral_pub = [1], an_view_tag = 1, an_metadata = []\<rparr>,
         \<lparr>an_scheme_id = 1, an_ephemeral_pub = [1], an_view_tag = 2, an_metadata = []\<rparr>] :: announcement list"
  have "map an_view_tag (dedup_by_ephemeral_pub ?as) = [1]"
    by (simp add: dedup_by_ephemeral_pub_def)
  moreover have "an_ephemeral_pub ` set (dedup_by_ephemeral_pub ?as) = {[1]}"
    using dedup_keeps_first [of ?as] by simp
  ultimately show ?thesis by (intro exI [of _ ?as]) simp
qed

text \<open>An announcement of a payment exists exactly when the metadata is at most 64 bytes; it has
  scheme 1 and the payment's ephemeral key and tag, and its post instruction is always accepted by
  the pinboard program, whose log line parses back to it.\<close>

theorem announcement_is_postable:
  assumes "text_laws T" "borsh_laws B" "pinboard_discriminators C" "is_array 32 (ephemeral_pub p)"
  shows "((\<exists>a. from_payment p metadata = Ok a) \<longleftrightarrow> length metadata \<le> 64)
    \<and> (\<forall>a. from_payment p metadata = Ok a \<longrightarrow>
        (\<exists>ix body n. to_post_instruction B a pid payer = (Ok ix :: (slnt_error, instruction) outcome) \<and>
           data ix = POST_DISCRIMINATOR @ body \<and>
           run_post B (accounts ix) body = ([n], Ok ()) \<and>
           try_parse_note_log T B (note_log_line C T B n) =
             Ok (Some \<lparr>ev_scheme_id = 1, ev_ephemeral_pub = ephemeral_pub p, ev_view_tag = view_tag p,
                       ev_metadata = metadata\<rparr>)))"
proof (intro conjI allI impI)
  show "(\<exists>a. from_payment p metadata = Ok a) \<longleftrightarrow> length metadata \<le> 64"
    by (simp add: from_payment_def ANNOUNCE_MAX_METADATA_LEN_def)
next
  fix a assume "from_payment p metadata = Ok a"
  then have a: "a = \<lparr>an_scheme_id = 1, an_ephemeral_pub = ephemeral_pub p, an_view_tag = view_tag p,
      an_metadata = metadata\<rparr>" and "length metadata \<le> 64"
    by (auto simp: from_payment_def ANNOUNCE_MAX_METADATA_LEN_def SCHEME_ID_V1_def split: if_splits)
  then show "\<exists>ix body n. to_post_instruction B a pid payer = (Ok ix :: (slnt_error, instruction) outcome) \<and>
           data ix = POST_DISCRIMINATOR @ body \<and>
           run_post B (accounts ix) body = ([n], Ok ()) \<and>
           try_parse_note_log T B (note_log_line C T B n) =
             Ok (Some \<lparr>ev_scheme_id = 1, ev_ephemeral_pub = ephemeral_pub p, ev_view_tag = view_tag p,
                       ev_metadata = metadata\<rparr>)"
    using sdk_post_accepted [OF assms, of metadata pid payer 1 "view_tag p"]
    by (auto simp: to_post_instruction_def)
qed

theorem announcement_is_postable_witness:
  "\<exists>a ix body n. from_payment toy_payment [8, 8] = Ok a \<and>
     to_post_instruction borsh_le a [1] [2] = (Ok ix :: (slnt_error, instruction) outcome) \<and>
     run_post borsh_le (accounts ix) body = ([n], Ok ())"
proof -
  have "is_array 32 (ephemeral_pub toy_payment)"
    using dh_lawsD(1) [OF dh_laws_toy] toy_payment by (elim derive_payment_Ok) simp
  note postable = announcement_is_postable [OF text_laws_hex_text borsh_laws_le pinboard_discriminators_pin this,
      of "[8, 8]" "[1]" "[2]"]
  then obtain a where "from_payment toy_payment [8, 8] = Ok a" by auto
  with postable show ?thesis by blast
qed

end
