(* ===== verification/Net_Client.thy ===== *)
theory Net_Client
  imports Announce
begin

text \<open>
  \<open>crates/slnt-sdk/src/announce_client.rs\<close> and \<open>scan_stream.rs\<close>: the HTTP client of an announcement
  service, and the live scan of the pinboard's logs. The HTTP client and the pubsub connection are
  parameters: a request gives a response or the text of a transport error, a subscription gives the
  logs it delivers until its stream ends.
\<close>

section \<open>The announcement-service client\<close>

record 'j http_response =
  hr_is_success :: bool
  hr_status :: string
  hr_json :: "(string, 'j) outcome"

record announce_client =
  base_url :: string

text \<open>The loop pops trailing slashes one at a time.\<close>

function trim_trailing_slashes :: "string \<Rightarrow> string" where
  "trim_trailing_slashes s =
     (if s \<noteq> [] \<and> last s = CHR ''/'' then trim_trailing_slashes (butlast s) else s)"
  by pat_completeness auto
termination
  by (relation "measure length") auto

declare trim_trailing_slashes.simps [simp del]

definition announce_client_new :: "string \<Rightarrow> announce_client" where
  "announce_client_new url = \<lparr>base_url = trim_trailing_slashes url\<rparr>"

definition announce_url :: "announce_client \<Rightarrow> string" where
  "announce_url c = base_url c @ ''/announce''"

definition status_url :: "announce_client \<Rightarrow> string \<Rightarrow> string" where
  "status_url c batch_id = base_url c @ ''/announce/status/'' @ batch_id"

definition client_submit ::
  "(string \<Rightarrow> announce_request \<Rightarrow> (string, announce_response http_response) outcome) \<Rightarrow>
     announce_client \<Rightarrow> announce_request \<Rightarrow> (slnt_error, announce_response) outcome" where
  "client_submit http_post c req =
     obind (omap_err Rpc (http_post (announce_url c) req)) (\<lambda>resp.
       if \<not> hr_is_success resp then Err (Rpc (''POST /announce: HTTP '' @ hr_status resp))
       else omap_err Rpc (hr_json resp))"

definition client_status ::
  "(string \<Rightarrow> (string, announce_status http_response) outcome) \<Rightarrow>
     announce_client \<Rightarrow> string \<Rightarrow> (slnt_error, announce_status) outcome" where
  "client_status http_get c batch_id =
     obind (omap_err Rpc (http_get (status_url c batch_id))) (\<lambda>resp.
       if \<not> hr_is_success resp then Err (Rpc (''GET /announce/status: HTTP '' @ hr_status resp))
       else omap_err Rpc (hr_json resp))"

section \<open>Live scanning\<close>

definition notes_from_log_lines :: "text_lib \<Rightarrow> borsh_lib \<Rightarrow> string list \<Rightarrow> note_event list" where
  "notes_from_log_lines T B lines =
     List.map_filter
       (\<lambda>l. case try_parse_note_log T B l of Ok (Some e) \<Rightarrow> Some e | _ \<Rightarrow> None) lines"

text \<open>
  A delivered log is its slot and its lines. \<open>on_note\<close> is the caller's closure with its captured
  state.
\<close>

fun on_notes :: "(u64 \<Rightarrow> note_event \<Rightarrow> 's \<Rightarrow> 's) \<Rightarrow> u64 \<Rightarrow> note_event list \<Rightarrow> 's \<Rightarrow> 's" where
  "on_notes on_note slot [] st = st"
| "on_notes on_note slot (n # ns) st = on_notes on_note slot ns (on_note slot n st)"

fun stream_loop ::
  "text_lib \<Rightarrow> borsh_lib \<Rightarrow> (u64 \<Rightarrow> note_event \<Rightarrow> 's \<Rightarrow> 's) \<Rightarrow> (u64 \<times> string list) list \<Rightarrow> 's \<Rightarrow> 's" where
  "stream_loop T B on_note [] st = st"
| "stream_loop T B on_note ((slot, logs) # rest) st =
     stream_loop T B on_note rest (on_notes on_note slot (notes_from_log_lines T B logs) st)"

definition subscribe_pinboard_notes_with_slot ::
  "text_lib \<Rightarrow> borsh_lib \<Rightarrow> (string \<Rightarrow> (string, 'c) outcome) \<Rightarrow>
     ('c \<Rightarrow> string list \<Rightarrow> (string, (u64 \<times> string list) list) outcome) \<Rightarrow>
     string \<Rightarrow> pubkey \<Rightarrow> (u64 \<Rightarrow> note_event \<Rightarrow> 's \<Rightarrow> 's) \<Rightarrow> 's \<Rightarrow> (slnt_error, unit) outcome \<times> 's" where
  "subscribe_pinboard_notes_with_slot T B connect logs_subscribe ws_url pid on_note st =
     (case connect ws_url of
        Err e \<Rightarrow> (Err (Rpc (''pubsub connect: '' @ e)), st)
      | Panic \<Rightarrow> (Panic, st)
      | Ok client \<Rightarrow>
          (case logs_subscribe client [b58_encode T pid] of
             Err e \<Rightarrow> (Err (Rpc (''logs_subscribe: '' @ e)), st)
           | Panic \<Rightarrow> (Panic, st)
           | Ok stream \<Rightarrow> (Ok (), stream_loop T B on_note stream st)))"

definition subscribe_pinboard_notes ::
  "text_lib \<Rightarrow> borsh_lib \<Rightarrow> (string \<Rightarrow> (string, 'c) outcome) \<Rightarrow>
     ('c \<Rightarrow> string list \<Rightarrow> (string, (u64 \<times> string list) list) outcome) \<Rightarrow>
     string \<Rightarrow> pubkey \<Rightarrow> (note_event \<Rightarrow> 's \<Rightarrow> 's) \<Rightarrow> 's \<Rightarrow> (slnt_error, unit) outcome \<times> 's" where
  "subscribe_pinboard_notes T B connect logs_subscribe ws_url pid on_note st =
     subscribe_pinboard_notes_with_slot T B connect logs_subscribe ws_url pid
       (\<lambda>slot. on_note) st"

section \<open>The stream as one list of notes\<close>

definition slot_notes :: "text_lib \<Rightarrow> borsh_lib \<Rightarrow> (u64 \<times> string list) list \<Rightarrow> (u64 \<times> note_event) list" where
  "slot_notes T B stream =
     concat (map (\<lambda>(slot, logs). map (Pair slot) (notes_from_log_lines T B logs)) stream)"

lemma on_notes_foldl: "on_notes f slot ns st = foldl (\<lambda>s (t, n). f t n s) st (map (Pair slot) ns)"
  by (induction ns arbitrary: st) auto

lemma stream_loop_foldl:
  "stream_loop T B f stream st = foldl (\<lambda>s (t, n). f t n s) st (slot_notes T B stream)"
  by (induction stream arbitrary: st) (auto simp: slot_notes_def on_notes_foldl)

lemma notes_from_append [simp]:
  "notes_from_log_lines T B (xs @ ys) = notes_from_log_lines T B xs @ notes_from_log_lines T B ys"
  by (simp add: notes_from_log_lines_def List.map_filter_def)

lemma notes_from_Nil [simp]: "notes_from_log_lines T B [] = []"
  by (simp add: notes_from_log_lines_def List.map_filter_def)

lemma notes_from_Cons:
  "notes_from_log_lines T B (l # ls) =
     (case try_parse_note_log T B l of Ok (Some e) \<Rightarrow> [e] | _ \<Rightarrow> []) @ notes_from_log_lines T B ls"
  by (auto simp: notes_from_log_lines_def List.map_filter_def split: outcome.splits option.splits)

lemma notes_from_note_lines:
  assumes "text_laws T" "borsh_laws B" "discriminator C ''event'' ''Note'' = NOTE_EVENT_DISCRIMINATOR"
    and "\<forall>n \<in> set ns. event_ok (event_of_note n)"
  shows "notes_from_log_lines T B (map (note_log_line C T B) ns) = map event_of_note ns"
  using assms(4)
  by (induction ns) (simp_all add: notes_from_Cons note_log_line_parses [OF assms(1-3)])

lemma trim_trailing_slashes_spec:
  "\<exists>n. s = trim_trailing_slashes s @ replicate n CHR ''/'' \<and>
     (trim_trailing_slashes s = [] \<or> last (trim_trailing_slashes s) \<noteq> CHR ''/'')"
proof (induction s rule: trim_trailing_slashes.induct)
  case (1 s)
  show ?case
  proof (cases "s \<noteq> [] \<and> last s = CHR ''/''")
    case True
    then obtain t where t: "s = t @ [CHR ''/'']" by (cases s rule: rev_cases) auto
    then have trim: "trim_trailing_slashes s = trim_trailing_slashes t"
      by (simp add: trim_trailing_slashes.simps [of "t @ _"])
    have "butlast s = t" by (simp add: t)
    then obtain u n where n: "t = u @ replicate n CHR ''/''" and u: "trim_trailing_slashes t = u"
      "u = [] \<or> last u \<noteq> CHR ''/''"
      using 1 [OF True] by metis
    have s: "s = u @ replicate (Suc n) CHR ''/''"
      unfolding t n by (simp add: replicate_append_same)
    show ?thesis unfolding trim u(1) by (rule exI [of _ "Suc n"], rule conjI, rule s, rule u(2))
  next
    case False
    then have "trim_trailing_slashes s = s" by (subst trim_trailing_slashes.simps) auto
    with False show ?thesis by (auto intro: exI [of _ 0])
  qed
qed

section \<open>Properties\<close>

text \<open>The client's URLs have exactly one slash between the base and the path: the base is the
  given URL without its trailing slashes, whatever their number, and nothing else is removed.\<close>

theorem client_urls:
  "\<exists>u n. url = u @ replicate n CHR ''/'' \<and> (u = [] \<or> last u \<noteq> CHR ''/'')
     \<and> announce_url (announce_client_new url) = u @ ''/announce''
     \<and> status_url (announce_client_new url) b = u @ ''/announce/status/'' @ b"
  using trim_trailing_slashes_spec [of url]
  by (auto simp: announce_url_def status_url_def announce_client_new_def)

text \<open>A live subscription hands over every note of every delivered log, once, in log order, with
  the slot of its log, and skips every other line; a connection or subscription error delivers
  nothing.\<close>

theorem subscription_delivers_notes:
  assumes "text_laws T" "borsh_laws B" "pinboard_discriminators C"
    and "\<forall>(slot, ns) \<in> set txs. \<forall>n \<in> set ns. is_array 32 (note_ephemeral_pub n) \<and> length (note_metadata n) \<le> 64"
    and "\<forall>l \<in> set noise. \<forall>e. try_parse_note_log T B l \<noteq> Ok (Some e)"
    and "connect url = Ok client"
    and "logs_subscribe client [b58_encode T pid] =
      Ok (map (\<lambda>(slot, ns). (slot, noise @ map (note_log_line C T B) ns @ noise)) txs)"
  shows "subscribe_pinboard_notes_with_slot T B connect logs_subscribe url pid
      (\<lambda>slot n seen. seen @ [(slot, n)]) [] =
    (Ok (), concat (map (\<lambda>(slot, ns). map (\<lambda>n. (slot, event_of_note n)) ns) txs))"
proof -
  have quiet: "notes_from_log_lines T B noise = []"
    using assms(5) by (induction noise) (auto simp: notes_from_Cons split: outcome.splits option.splits)
  have "notes_from_log_lines T B (noise @ map (note_log_line C T B) ns @ noise) = map event_of_note ns"
    if "(slot, ns) \<in> set txs" for slot ns
    using assms(4) that quiet
    by (subst notes_from_append, subst notes_from_append, subst notes_from_note_lines [OF assms(1,2)])
      (use assms(3) in \<open>force simp: pinboard_discriminators_def event_ok_def note_fields_ok_def event_of_note_def\<close>)+
  then have "slot_notes T B (map (\<lambda>(slot, ns). (slot, noise @ map (note_log_line C T B) ns @ noise)) txs) =
      concat (map (\<lambda>(slot, ns). map (\<lambda>n. (slot, event_of_note n)) ns) txs)"
    unfolding slot_notes_def
    by (intro arg_cong [of _ _ concat]) (auto simp: comp_def split_def simp del: notes_from_append)
  moreover have "foldl (\<lambda>s (t, n). s @ [(t, n)]) acc xs = acc @ xs" for acc and xs :: "(u64 \<times> note_event) list"
    by (induction xs arbitrary: acc) auto
  ultimately show ?thesis
    using assms(6,7) by (simp add: subscribe_pinboard_notes_with_slot_def stream_loop_foldl)
qed

definition toy_note :: "u8 \<Rightarrow> pin_note" where
  "toy_note b = \<lparr>note_scheme_id = 1, note_ephemeral_pub = replicate 32 b, note_view_tag = b,
     note_metadata = [b]\<rparr>"

theorem subscription_delivers_notes_witness:
  "subscribe_pinboard_notes_with_slot hex_text borsh_le (\<lambda>_. Ok ()) (\<lambda>_ _.
       Ok (map (\<lambda>(slot, ns). (slot, [''Program log: x''] @ map (note_log_line pin_crypto hex_text borsh_le) ns
             @ [''Program log: x'']))
         [(5, [toy_note 1, toy_note 2]), (6, []), (7, [toy_note 3])])) ''ws'' [4]
       (\<lambda>slot n seen. seen @ [(slot, n)]) [] =
     (Ok (), [(5, event_of_note (toy_note 1)), (5, event_of_note (toy_note 2)), (7, event_of_note (toy_note 3))])"
proof -
  let ?txs = "[(5 :: u64, [toy_note 1, toy_note 2]), (6, []), (7, [toy_note 3])]"
  have txs: "\<forall>(slot, ns) \<in> set ?txs.
      \<forall>n \<in> set ns. is_array 32 (note_ephemeral_pub n) \<and> length (note_metadata n) \<le> 64"
    by (simp add: toy_note_def)
  have noise: "\<forall>l \<in> set [''Program log: x'']. \<forall>e. try_parse_note_log hex_text borsh_le l \<noteq> Ok (Some e)"
    by (simp add: try_parse_note_log_eq PREFIX_def)
  show ?thesis
    by (subst subscription_delivers_notes [OF text_laws_hex_text borsh_laws_le pinboard_discriminators_pin
          txs noise, where connect = "\<lambda>_. Ok ()" and client = "()"]) simp_all
qed

end
