(* ===== verification/Lifecycle.thy ===== *)
theory Lifecycle
  imports Stealth_Signing Flows Net_Client "HOL-Library.Sublist"
begin

text \<open>
  \<open>crates/slnt-sdk/examples/lifecycle.rs\<close>: the integration program that plays both sides of a payment
  against a validator. It is a sequence of calls over the state of the network: each call returns
  its result and the next state, a failed \<open>expect\<close> or assertion is a panic, and a loop that polls
  is a partial function whose value \<open>None\<close> is not returning. Printing is left out.
\<close>

section \<open>Sequencing\<close>

text \<open>Only a returned value (\<open>Ok\<close>) goes on; the error type is not used.\<close>

type_synonym ('n, 'a) action = "'n \<Rightarrow> ((unit, 'a) outcome \<times> 'n) option"

definition and_then :: "('n, 'a) action \<Rightarrow> ('a \<Rightarrow> ('n, 'b) action) \<Rightarrow> ('n, 'b) action" where
  "and_then act k n =
     (case act n of
        None \<Rightarrow> None
      | Some (Ok x, n') \<Rightarrow> k x n'
      | Some (Err e, n') \<Rightarrow> Some (Err e, n')
      | Some (Panic, n') \<Rightarrow> Some (Panic, n'))"

definition give :: "'a \<Rightarrow> ('n, 'a) action" where
  "give x n = Some (Ok x, n)"

text \<open>A call, a call whose result is \<open>expect\<close>ed, an \<open>expect\<close> on a value, an assertion.\<close>

definition call :: "('n \<Rightarrow> 'a \<times> 'n) \<Rightarrow> ('n, 'a) action" where
  "call f n = (case f n of (x, n') \<Rightarrow> Some (Ok x, n'))"

definition call_expect :: "('n \<Rightarrow> (string + 'a) \<times> 'n) \<Rightarrow> ('n, 'a) action" where
  "call_expect f n =
     (case f n of (Inr x, n') \<Rightarrow> Some (Ok x, n') | (Inl _, n') \<Rightarrow> Some (Panic, n'))"

definition expecting :: "('e, 'a) outcome \<Rightarrow> ('n, 'a) action" where
  "expecting r n = Some (case r of Ok x \<Rightarrow> Ok x | _ \<Rightarrow> Panic, n)"

definition asserting :: "bool \<Rightarrow> ('n, unit) action" where
  "asserting b n = Some (if b then Ok () else Panic, n)"

section \<open>The crates the program calls\<close>

text \<open>
  \<open>RpcClient\<close> (which hides a connection to the network), the clock (milliseconds) and the random
  generator behind \<open>Keypair::new\<close>. The log messages of a transaction may be missing.
\<close>

record message =
  msg_instructions :: "instruction list"
  msg_payer :: pubkey
  msg_blockhash :: bytes

record transaction =
  tx_signatures :: "bytes list"
  tx_message :: message

record ('n, 'w) cluster =
  clock :: "'n \<Rightarrow> nat"
  sleep :: "nat \<Rightarrow> 'n \<Rightarrow> 'n"
  keypair_new :: "'n \<Rightarrow> 'w \<times> 'n"
  request_airdrop :: "pubkey \<Rightarrow> u64 \<Rightarrow> 'n \<Rightarrow> (string + bytes) \<times> 'n"
  confirm_transaction :: "bytes \<Rightarrow> 'n \<Rightarrow> (string + bool) \<times> 'n"
  get_balance :: "pubkey \<Rightarrow> 'n \<Rightarrow> (string + u64) \<times> 'n"
  latest_blockhash :: "'n \<Rightarrow> (string + bytes) \<times> 'n"
  send_and_confirm :: "transaction \<Rightarrow> 'n \<Rightarrow> (string + bytes) \<times> 'n"
  signatures_for_address :: "pubkey \<Rightarrow> nat \<Rightarrow> 'n \<Rightarrow> (string + string list) \<times> 'n"
  transaction_logs :: "bytes \<Rightarrow> 'n \<Rightarrow> (string + string list option) \<times> 'n"

text \<open>
  \<open>solana_sdk\<close>'s keys, messages and transactions, and \<open>ed25519_dalek\<close>'s signature with the key of a
  seed. \<open>sign_with\<close> is \<open>Transaction::new_signed_with_payer\<close> with one keypair.
\<close>

record 'w wallet_lib =
  keypair_pubkey :: "'w \<Rightarrow> pubkey"
  sign_with :: "instruction list \<Rightarrow> pubkey \<Rightarrow> 'w \<Rightarrow> bytes \<Rightarrow> transaction option"
  message_serialize :: "message \<Rightarrow> bytes"
  transaction_verify :: "transaction \<Rightarrow> bool"
  pubkey_from_str :: "string \<Rightarrow> pubkey option"
  signature_from_str :: "string \<Rightarrow> bytes option"
  ed25519_sign :: "bytes \<Rightarrow> bytes \<Rightarrow> bytes"

section \<open>Waiting\<close>

partial_function (option) confirm_loop ::
  "('n, 'w) cluster \<Rightarrow> bytes \<Rightarrow> nat \<Rightarrow> 'n \<Rightarrow> ((unit, unit) outcome \<times> 'n) option" where
  "confirm_loop R sig deadline n =
     (let (r, n) = confirm_transaction R sig n in
      if r = Inr True then Some (Ok (), n)
      else if deadline < clock R n then Some (Panic, n)
      else confirm_loop R sig deadline (sleep R 200 n))"

partial_function (option) balance_loop ::
  "('n, 'w) cluster \<Rightarrow> pubkey \<Rightarrow> u64 \<Rightarrow> nat \<Rightarrow> 'n \<Rightarrow> ((unit, unit) outcome \<times> 'n) option" where
  "balance_loop R recipient lamports deadline n =
     (let (r, n) = get_balance R recipient n;
          bal = (case r of Inr b \<Rightarrow> b | Inl _ \<Rightarrow> 0)
      in if lamports \<le> bal then Some (Ok (), n)
         else if deadline < clock R n then Some (Panic, n)
         else balance_loop R recipient lamports deadline (sleep R 200 n))"

definition airdrop_blocking :: "('n, 'w) cluster \<Rightarrow> pubkey \<Rightarrow> u64 \<Rightarrow> ('n, unit) action" where
  "airdrop_blocking R recipient lamports =
     and_then (call_expect (request_airdrop R recipient lamports)) (\<lambda>sig.
     and_then (\<lambda>n. confirm_loop R sig (clock R n + 30000) n) (\<lambda>_.
       (\<lambda>n. balance_loop R recipient lamports (clock R n + 10000) n)))"

section \<open>Scanning the pinboard's transactions\<close>

fun scan_lines ::
  "('s, 'p, 'k) crypto \<Rightarrow> text_lib \<Rightarrow> borsh_lib \<Rightarrow> ('s, 'p) spend_key \<Rightarrow> 'k scan_key \<Rightarrow> string list \<Rightarrow>
     (unit, 's note_match option) outcome" where
  "scan_lines C T B spend scan [] = Ok None"
| "scan_lines C T B spend scan (line # ls) =
     (case try_parse_note_log T B line of
        Panic \<Rightarrow> Panic
      | Ok (Some note_ev) \<Rightarrow>
          (case scan_note C spend scan (ev_ephemeral_pub note_ev) (ev_view_tag note_ev) of
             Panic \<Rightarrow> Panic
           | Ok (Some m) \<Rightarrow> Ok (Some m)
           | _ \<Rightarrow> scan_lines C T B spend scan ls)
      | _ \<Rightarrow> scan_lines C T B spend scan ls)"

fun scan_sigs ::
  "('s, 'p, 'k) crypto \<Rightarrow> text_lib \<Rightarrow> borsh_lib \<Rightarrow> ('n, 'w) cluster \<Rightarrow> 'w wallet_lib \<Rightarrow>
     ('s, 'p) spend_key \<Rightarrow> 'k scan_key \<Rightarrow> string list \<Rightarrow> 'n \<Rightarrow>
     (unit, 's note_match option) outcome \<times> 'n" where
  "scan_sigs C T B R W spend scan [] n = (Ok None, n)"
| "scan_sigs C T B R W spend scan (s # sigs) n =
     (case signature_from_str W s of
        None \<Rightarrow> scan_sigs C T B R W spend scan sigs n
      | Some sig \<Rightarrow>
          (let (r, n) = transaction_logs R sig n in
           case r of
             Inl _ \<Rightarrow> scan_sigs C T B R W spend scan sigs n
           | Inr logs \<Rightarrow>
               (case scan_lines C T B spend scan (case logs of Some ls \<Rightarrow> ls | None \<Rightarrow> []) of
                  Ok None \<Rightarrow> scan_sigs C T B R W spend scan sigs n
                | r \<Rightarrow> (r, n))))"

partial_function (option) scan_loop ::
  "('s, 'p, 'k) crypto \<Rightarrow> text_lib \<Rightarrow> borsh_lib \<Rightarrow> ('n, 'w) cluster \<Rightarrow> 'w wallet_lib \<Rightarrow>
     pubkey \<Rightarrow> ('s, 'p) spend_key \<Rightarrow> 'k scan_key \<Rightarrow> nat \<Rightarrow> 'n \<Rightarrow>
     ((unit, 's note_match option) outcome \<times> 'n) option" where
  "scan_loop C T B R W pinboard_id spend scan deadline n =
     (let (r, n) = signatures_for_address R pinboard_id 100 n;
          sigs = (case r of Inr s \<Rightarrow> s | Inl _ \<Rightarrow> []);
          (r, n) = scan_sigs C T B R W spend scan sigs n
      in if r \<noteq> Ok None then Some (r, n)
         else if deadline < clock R n then Some (Ok None, n)
         else scan_loop C T B R W pinboard_id spend scan deadline (sleep R 250 n))"

definition scan_pinboard_for_match ::
  "('s, 'p, 'k) crypto \<Rightarrow> text_lib \<Rightarrow> borsh_lib \<Rightarrow> ('n, 'w) cluster \<Rightarrow> 'w wallet_lib \<Rightarrow>
     pubkey \<Rightarrow> ('s, 'p) spend_key \<Rightarrow> 'k scan_key \<Rightarrow> ('n, 's note_match option) action" where
  "scan_pinboard_for_match C T B R W pinboard_id spend scan n =
     scan_loop C T B R W pinboard_id spend scan (clock R n + 10000) n"

section \<open>The program\<close>

definition PINBOARD_PROGRAM_ID :: string where
  "PINBOARD_PROGRAM_ID = ''SLNTPDxgFKwSZ31CbbdSKKHyRpBpKjEMYVj2gpGxkN2''"
definition ONE_SOL :: u64 where
  "ONE_SOL = 1000000000"
definition TX_FEE :: u64 where
  "TX_FEE = 5000"

definition recipient_id_seed :: bytes where
  "recipient_id_seed =
     [0xab, 0xcd, 0xef, 0x01, 0x23, 0x45, 0x67, 0x89, 0xab, 0xcd, 0xef, 0x01, 0x23, 0x45, 0x67,
      0x89, 0xab, 0xcd, 0xef, 0x01, 0x23, 0x45, 0x67, 0x89, 0xab, 0xcd, 0xef, 0x01, 0x23, 0x45,
      0x67, 0x89]"

definition set_up :: "('n, 'w) cluster \<Rightarrow> 'w wallet_lib \<Rightarrow> ('n, 'w \<times> 'w) action" where
  "set_up R W =
     and_then (call (keypair_new R)) (\<lambda>sender_wallet.
     and_then (call (keypair_new R)) (\<lambda>recipient_wallet.
     and_then (airdrop_blocking R (keypair_pubkey W sender_wallet) (10 * ONE_SOL)) (\<lambda>_.
     and_then (airdrop_blocking R (keypair_pubkey W recipient_wallet) (10 * ONE_SOL)) (\<lambda>_.
       give (sender_wallet, recipient_wallet)))))"

definition recipient_keys ::
  "('s, 'p, 'k) crypto \<Rightarrow> 'h bech32_lib \<Rightarrow> 'w wallet_lib \<Rightarrow>
     ('n, ('s, 'p) spend_key \<times> 'k scan_key \<times> string) action" where
  "recipient_keys C L W =
     (let sig_bytes = ed25519_sign W recipient_id_seed (ascii CANONICAL_MESSAGE_LOCALNET) in
      and_then (expecting (derive_stealth_keys C sig_bytes)) (\<lambda>(spend, scan).
      and_then (expecting (encode_bech32m L (from_keys C spend scan))) (\<lambda>meta_str.
        give (spend, scan, meta_str))))"

definition sender_payment ::
  "('s, 'p, 'k) crypto \<Rightarrow> 'h bech32_lib \<Rightarrow> (u64 \<Rightarrow> 'r) \<Rightarrow> ('r \<Rightarrow> nat \<Rightarrow> bytes \<times> 'r) \<Rightarrow> string \<Rightarrow>
     ('n, stealth_payment) action" where
  "sender_payment C L seed_from_u64 fill meta_str =
     and_then (expecting (decode_bech32m L meta_str)) (\<lambda>decoded_meta.
       expecting (fst (derive_payment C fill decoded_meta (seed_from_u64 0xdeadbeef))))"

definition pay_and_post ::
  "solana_lib \<Rightarrow> borsh_lib \<Rightarrow> ('n, 'w) cluster \<Rightarrow> 'w wallet_lib \<Rightarrow> pubkey \<Rightarrow> 'w \<Rightarrow> stealth_payment \<Rightarrow>
     ('n, unit) action" where
  "pay_and_post S B R W pinboard_id sender_wallet payment =
     (let sender = keypair_pubkey W sender_wallet;
          transfer_ix = system_transfer S sender (stealth_address payment) ONE_SOL in
      and_then (expecting (build_post_instruction B pinboard_id sender SCHEME_ID_V1
                  (ephemeral_pub payment) (view_tag payment) [] :: (slnt_error, instruction) outcome)) (\<lambda>post_ix.
      and_then (call_expect (latest_blockhash R)) (\<lambda>latest.
      and_then (expecting (expect_some (sign_with W [transfer_ix, post_ix] sender sender_wallet latest)
                  :: (unit, transaction) outcome)) (\<lambda>tx.
      and_then (call_expect (send_and_confirm R tx)) (\<lambda>_.
      and_then (call_expect (get_balance R (stealth_address payment))) (\<lambda>stealth_balance.
        asserting (stealth_balance = ONE_SOL)))))))"

definition find_match ::
  "('s, 'p, 'k) crypto \<Rightarrow> text_lib \<Rightarrow> borsh_lib \<Rightarrow> ('n, 'w) cluster \<Rightarrow> 'w wallet_lib \<Rightarrow>
     pubkey \<Rightarrow> ('s, 'p) spend_key \<Rightarrow> 'k scan_key \<Rightarrow> stealth_payment \<Rightarrow> ('n, 's note_match) action" where
  "find_match C T B R W pinboard_id spend scan payment =
     and_then (scan_pinboard_for_match C T B R W pinboard_id spend scan) (\<lambda>found.
     and_then (expecting (expect_some found :: (unit, 's note_match) outcome)) (\<lambda>m.
     and_then (asserting (nm_stealth_address m = stealth_address payment)) (\<lambda>_.
       give m)))"

definition sweep ::
  "('s, 'p, 'k) crypto \<Rightarrow> solana_lib \<Rightarrow> ('n, 'w) cluster \<Rightarrow> 'w wallet_lib \<Rightarrow>
     's note_match \<Rightarrow> stealth_payment \<Rightarrow> pubkey \<Rightarrow> ('n, u64) action" where
  "sweep C S R W matched payment recipient =
     (let stealth_signing_key = signing_key_new C (nm_stealth_scalar matched) in
      and_then (asserting (public_bytes C stealth_signing_key = stealth_address payment)) (\<lambda>_.
      and_then (call_expect (get_balance R recipient)) (\<lambda>recipient_before.
      and_then (call_expect (get_balance R (stealth_address payment))) (\<lambda>stealth_before.
      and_then (expecting (sub_u64 stealth_before TX_FEE :: (unit, u64) outcome)) (\<lambda>sweep_amount.
      let sweep_ix = system_transfer S (stealth_address payment) recipient sweep_amount in
      and_then (call_expect (latest_blockhash R)) (\<lambda>latest.
      let msg = \<lparr>msg_instructions = [sweep_ix], msg_payer = stealth_address payment,
                 msg_blockhash = latest\<rparr>;
          sweep_tx = \<lparr>tx_signatures = [sign C stealth_signing_key (message_serialize W msg)],
                      tx_message = msg\<rparr> in
      and_then (asserting (transaction_verify W sweep_tx)) (\<lambda>_.
      and_then (call_expect (send_and_confirm R sweep_tx)) (\<lambda>_.
      and_then (call_expect (get_balance R recipient)) (\<lambda>recipient_after.
      and_then (call_expect (get_balance R (stealth_address payment))) (\<lambda>stealth_after.
      and_then (asserting (stealth_after = 0)) (\<lambda>_.
      and_then (expecting (sub_u64 recipient_after recipient_before :: (unit, u64) outcome)) (\<lambda>recipient_gain.
      and_then (asserting (recipient_gain = sweep_amount)) (\<lambda>_.
        give recipient_gain)))))))))))))"

text \<open>\<open>main\<close>; the value it gives is the gain it prints last.\<close>

definition lifecycle_main ::
  "('s, 'p, 'k) crypto \<Rightarrow> 'h bech32_lib \<Rightarrow> text_lib \<Rightarrow> borsh_lib \<Rightarrow> solana_lib \<Rightarrow>
     (u64 \<Rightarrow> 'r) \<Rightarrow> ('r \<Rightarrow> nat \<Rightarrow> bytes \<times> 'r) \<Rightarrow> ('n, 'w) cluster \<Rightarrow> 'w wallet_lib \<Rightarrow> ('n, u64) action" where
  "lifecycle_main C L T B S seed_from_u64 fill R W =
     and_then (expecting (expect_some (pubkey_from_str W PINBOARD_PROGRAM_ID) :: (unit, pubkey) outcome)) (\<lambda>pinboard_id.
     and_then (set_up R W) (\<lambda>(sender_wallet, recipient_wallet).
     and_then (recipient_keys C L W) (\<lambda>(spend, scan, meta_str).
     and_then (sender_payment C L seed_from_u64 fill meta_str) (\<lambda>payment.
     and_then (pay_and_post S B R W pinboard_id sender_wallet payment) (\<lambda>_.
     and_then (find_match C T B R W pinboard_id spend scan payment) (\<lambda>matched.
       sweep C S R W matched payment (keypair_pubkey W recipient_wallet)))))))"

section \<open>Every wait ends\<close>

text \<open>A clock that no call turns back and that a sleep moves on by at least its time.\<close>

definition ticking :: "('n, 'w) cluster \<Rightarrow> bool" where
  "ticking R \<longleftrightarrow>
     (\<forall>ms n. clock R n + ms \<le> clock R (sleep R ms n)) \<and>
     (\<forall>k l n. clock R n \<le> clock R (snd (request_airdrop R k l n))) \<and>
     (\<forall>s n. clock R n \<le> clock R (snd (confirm_transaction R s n))) \<and>
     (\<forall>k n. clock R n \<le> clock R (snd (get_balance R k n))) \<and>
     (\<forall>a l n. clock R n \<le> clock R (snd (signatures_for_address R a l n))) \<and>
     (\<forall>s n. clock R n \<le> clock R (snd (transaction_logs R s n)))"

text \<open>The time left to the deadline, plus one for the round that passes it.\<close>

abbreviation time_left :: "('n, 'w) cluster \<Rightarrow> nat \<Rightarrow> 'n \<Rightarrow> nat" where
  "time_left R deadline n \<equiv> Suc deadline - clock R n"

lemma ticking_sleep: "ticking R \<Longrightarrow> clock R n + ms \<le> clock R (sleep R ms n)"
  by (simp add: ticking_def)

lemma confirm_loop_ends:
  assumes "ticking R"
  shows "\<exists>r n'. confirm_loop R sig deadline n = Some (r, n') \<and> (r = Ok () \<or> r = Panic)"
proof (induction "time_left R deadline n" arbitrary: n rule: less_induct)
  case less
  obtain r m where c: "confirm_transaction R sig n = (r, m)" by fastforce
  have m: "clock R n \<le> clock R m" using assms c by (metis ticking_def snd_conv)
  show ?case
  proof (cases "r = Inr True \<or> deadline < clock R m")
    case True
    then show ?thesis by (auto simp: confirm_loop.simps [of R sig deadline n] c)
  next
    case False
    then have "time_left R deadline (sleep R 200 m) < time_left R deadline n"
      using m ticking_sleep [OF assms, of m 200] by linarith
    from less [OF this] False show ?thesis
      by (simp add: confirm_loop.simps [of R sig deadline n] c)
  qed
qed

lemma balance_loop_ends:
  assumes "ticking R"
  shows "\<exists>r n'. balance_loop R k l deadline n = Some (r, n') \<and> (r = Ok () \<or> r = Panic)"
proof (induction "time_left R deadline n" arbitrary: n rule: less_induct)
  case less
  obtain r m where c: "get_balance R k n = (r, m)" by fastforce
  have m: "clock R n \<le> clock R m" using assms c by (metis ticking_def snd_conv)
  show ?case
  proof (cases "l \<le> (case r of Inr b \<Rightarrow> b | Inl _ \<Rightarrow> 0) \<or> deadline < clock R m")
    case True
    then show ?thesis by (auto simp: balance_loop.simps [of R k l deadline n] c)
  next
    case False
    then have "time_left R deadline (sleep R 200 m) < time_left R deadline n"
      using m ticking_sleep [OF assms, of m 200] by linarith
    from less [OF this] False show ?thesis
      by (simp add: balance_loop.simps [of R k l deadline n] c)
  qed
qed

lemma scan_sigs_clock:
  assumes "ticking R" "scan_sigs C T B R W spend scan sigs n = (r, m)"
  shows "clock R n \<le> clock R m"
  using assms(2)
proof (induction sigs arbitrary: n)
  case (Cons s sigs)
  show ?case
  proof (cases "signature_from_str W s")
    case None
    then show ?thesis using Cons by simp
  next
    case (Some sig)
    obtain q n' where t: "transaction_logs R sig n = (q, n')" by fastforce
    have n': "clock R n \<le> clock R n'" using assms(1) t by (metis ticking_def snd_conv)
    have "m = n' \<or> scan_sigs C T B R W spend scan sigs n' = (r, m)"
      using Cons.prems Some t
      by (auto split: sum.splits outcome.splits option.splits)
    then show ?thesis using n' Cons.IH by fastforce
  qed
qed simp

text \<open>A match always comes from a note some log line announced.\<close>

lemma scan_lines_match:
  "scan_lines C T B spend scan ls = Ok (Some m) \<Longrightarrow>
     \<exists>line \<in> set ls. \<exists>e. try_parse_note_log T B line = Ok (Some e) \<and>
       scan_note C spend scan (ev_ephemeral_pub e) (ev_view_tag e) = Ok (Some m)"
  by (induction ls) (auto split: outcome.splits option.splits)

lemma scan_sigs_match:
  assumes "scan_sigs C T B R W spend scan sigs n = (Ok (Some m), n')"
  shows "\<exists>line e. try_parse_note_log T B line = Ok (Some e) \<and>
       scan_note C spend scan (ev_ephemeral_pub e) (ev_view_tag e) = Ok (Some m)"
  using assms
proof (induction sigs arbitrary: n)
  case (Cons s sigs)
  show ?case
  proof (cases "signature_from_str W s")
    case None
    then show ?thesis using Cons by simp
  next
    case (Some sig)
    obtain q n1 where t: "transaction_logs R sig n = (q, n1)" by fastforce
    from Cons.prems Some t consider "scan_sigs C T B R W spend scan sigs n1 = (Ok (Some m), n')"
      | ls where "scan_lines C T B spend scan ls = Ok (Some m)"
      by (auto split: sum.splits outcome.splits option.splits)
    then show ?thesis using Cons.IH scan_lines_match by cases (fast, blast)
  qed
qed simp

lemma scan_loop_ends:
  assumes "ticking R"
  shows "\<exists>r n'. scan_loop C T B R W pid spend scan deadline n = Some (r, n') \<and>
    (r = Ok None \<longrightarrow> deadline < clock R n') \<and>
    (\<forall>m. r = Ok (Some m) \<longrightarrow> (\<exists>line e. try_parse_note_log T B line = Ok (Some e) \<and>
       scan_note C spend scan (ev_ephemeral_pub e) (ev_view_tag e) = Ok (Some m)))"
proof (induction "time_left R deadline n" arbitrary: n rule: less_induct)
  case less
  obtain q n1 where sigs: "signatures_for_address R pid 100 n = (q, n1)" by fastforce
  obtain r n2 where r: "scan_sigs C T B R W spend scan (case q of Inr s \<Rightarrow> s | Inl _ \<Rightarrow> []) n1 = (r, n2)"
    by fastforce
  have "clock R n \<le> clock R n1" using assms sigs by (metis ticking_def snd_conv)
  also have "clock R n1 \<le> clock R n2" using assms r by (rule scan_sigs_clock)
  finally have n2: "clock R n \<le> clock R n2" .
  note step = scan_loop.simps [of C T B R W pid spend scan deadline n]
  show ?case
  proof (cases "r = Ok None \<and> \<not> deadline < clock R n2")
    case True
    then have "time_left R deadline (sleep R 250 n2) < time_left R deadline n"
      using n2 ticking_sleep [OF assms, of n2 250] by linarith
    from less [OF this] True show ?thesis by (simp add: step sigs r)
  next
    case False
    then have "scan_loop C T B R W pid spend scan deadline n = Some (r, n2)"
      by (auto simp: step sigs r)
    moreover have "\<forall>m. r = Ok (Some m) \<longrightarrow> (\<exists>line e. try_parse_note_log T B line = Ok (Some e) \<and>
        scan_note C spend scan (ev_ephemeral_pub e) (ev_view_tag e) = Ok (Some m))"
      using r scan_sigs_match by fast
    ultimately show ?thesis using False by auto
  qed
qed

section \<open>A cluster that keeps its contract\<close>

text \<open>
  What the program expects of a validator. \<open>exec\<close> is the runtime: the effect of one instruction on
  the balances and the \<open>Program data\<close> lines it logs, if it runs.
\<close>

fun exec_all ::
  "(instruction \<Rightarrow> (pubkey \<Rightarrow> nat) \<Rightarrow> ((pubkey \<Rightarrow> nat) \<times> string list) option) \<Rightarrow>
     instruction list \<Rightarrow> (pubkey \<Rightarrow> nat) \<Rightarrow> ((pubkey \<Rightarrow> nat) \<times> string list) option" where
  "exec_all exec [] bal = Some (bal, [])"
| "exec_all exec (ix # ixs) bal =
     Option.bind (exec ix bal) (\<lambda>(bal, ls).
       map_option (\<lambda>(bal, ls'). (bal, ls @ ls')) (exec_all exec ixs bal))"

definition runtime_laws ::
  "('s, 'p, 'k) crypto \<Rightarrow> text_lib \<Rightarrow> borsh_lib \<Rightarrow> solana_lib \<Rightarrow> pubkey \<Rightarrow>
     (instruction \<Rightarrow> (pubkey \<Rightarrow> nat) \<Rightarrow> ((pubkey \<Rightarrow> nat) \<times> string list) option) \<Rightarrow> bool" where
  "runtime_laws C T B S pinboard exec \<longleftrightarrow>
     transfer_law S (\<lambda>ix bal. map_option fst (exec ix bal)) \<and>
     (\<forall>a b l bal bal' ls. exec (system_transfer S a b l) bal = Some (bal', ls) \<longrightarrow> ls = []) \<and>
     (\<forall>accts body bal. exec \<lparr>program_id = pinboard, accounts = accts, data = discriminator C ''global'' ''post'' @ body\<rparr> bal =
        (case run_post B accts body of
           (ns, Ok _) \<Rightarrow> Some (bal, map (note_log_line C T B) ns)
         | _ \<Rightarrow> None))"

text \<open>A system transfer names its two accounts, of which only the source signs, and carries 12 bytes; a
  keypair signs where it is the only signer; a transaction with one signature verifies if the
  signature does. A serialized message has 73 bytes and, for every instruction, its data and at
  most 33 bytes an account and 39 more.\<close>

definition sole_signer :: "pubkey \<Rightarrow> instruction list \<Rightarrow> bool" where
  "sole_signer k ixs \<longleftrightarrow> (\<forall>ix \<in> set ixs. \<forall>m \<in> set (accounts ix). is_signer m \<longrightarrow> am_pubkey m = k)"

definition wallet_laws :: "('s, 'p, 'k) crypto \<Rightarrow> solana_lib \<Rightarrow> 'w wallet_lib \<Rightarrow> bool" where
  "wallet_laws C S W \<longleftrightarrow>
     (\<forall>a b l. sole_signer a [system_transfer S a b l] \<and>
        map am_pubkey (accounts (system_transfer S a b l)) = [a, b] \<and>
        length (data (system_transfer S a b l)) = 12) \<and>
     (\<forall>m. length (message_serialize W m) \<le>
        73 + sum_list (map (\<lambda>ix. 39 + 33 * length (accounts ix) + length (data ix)) (msg_instructions m))) \<and>
     (\<forall>ixs w bh. sole_signer (keypair_pubkey W w) ixs \<longrightarrow>
        (\<exists>sig. sign_with W ixs (keypair_pubkey W w) w bh =
             Some \<lparr>tx_signatures = [sig], tx_message = \<lparr>msg_instructions = ixs,
                   msg_payer = keypair_pubkey W w, msg_blockhash = bh\<rparr>\<rparr> \<and>
           transaction_verify W \<lparr>tx_signatures = [sig], tx_message = \<lparr>msg_instructions = ixs,
                   msg_payer = keypair_pubkey W w, msg_blockhash = bh\<rparr>\<rparr>)) \<and>
     (\<forall>m sig. sole_signer (msg_payer m) (msg_instructions m) \<longrightarrow>
        transaction_verify W \<lparr>tx_signatures = [sig], tx_message = m\<rparr> =
          verifies C (msg_payer m) (message_serialize W m) sig)"

text \<open>
  What a state of the network says, as far as the program depends on it: the lamports of the
  accounts, every airdrop asked for included; the time by which an account's airdrops have arrived;
  what the faucet may still grant; the signatures the faucet gave out; the blockhashes a
  transaction may still name; the messages that have run (the status cache); the transactions that
  name the pinboard, newest first, with their logs; and the time by which these can be read.
\<close>

record 'n chain_view =
  cv_bal :: "'n \<Rightarrow> pubkey \<Rightarrow> nat"
  cv_due :: "'n \<Rightarrow> pubkey \<Rightarrow> nat"
  cv_faucet :: "'n \<Rightarrow> nat"
  cv_drops :: "'n \<Rightarrow> bytes set"
  cv_recent :: "'n \<Rightarrow> bytes \<Rightarrow> bool"
  cv_ran :: "'n \<Rightarrow> message set"
  cv_posts :: "'n \<Rightarrow> (bytes \<times> string list) list"
  cv_shown :: "'n \<Rightarrow> nat"

definition settled :: "('n, 'w) cluster \<Rightarrow> 'n chain_view \<Rightarrow> 'n \<Rightarrow> bool" where
  "settled R V n \<longleftrightarrow> (\<forall>k. cv_due V n k \<le> clock R n)"

text \<open>Reading changes nothing but the time, and what blockhashes are recent.\<close>

definition same_view :: "('n, 'w) cluster \<Rightarrow> 'n chain_view \<Rightarrow> 'n \<Rightarrow> 'n \<Rightarrow> bool" where
  "same_view R V m n \<longleftrightarrow>
     cv_bal V m = cv_bal V n \<and> cv_due V m = cv_due V n \<and> cv_faucet V m = cv_faucet V n \<and>
     cv_drops V m = cv_drops V n \<and> cv_ran V m = cv_ran V n \<and> cv_posts V m = cv_posts V n \<and>
     cv_shown V m = cv_shown V n \<and> clock R n \<le> clock R m"

text \<open>
  The cluster takes a transaction with one signature that verifies and fits a packet of 1232 bytes,
  whose message has not run before and names a recent blockhash, and whose accounts are among
  \<open>own\<close>, the accounts nobody else uses, once no airdrop is on its way. The payer has the fee of
  5000 lamports, every instruction runs, and every account ends as it was, empty or rent-exempt.
\<close>

definition acceptable ::
  "('n, 'w) cluster \<Rightarrow> 'w wallet_lib \<Rightarrow> 'n chain_view \<Rightarrow> pubkey set \<Rightarrow> transaction \<Rightarrow> 'n \<Rightarrow> bool" where
  "acceptable R W V own tx n \<longleftrightarrow>
     settled R V n \<and> length (tx_signatures tx) = 1 \<and> transaction_verify W tx \<and>
     65 + length (message_serialize W (tx_message tx)) \<le> 1232 \<and>
     cv_recent V n (msg_blockhash (tx_message tx)) \<and> tx_message tx \<notin> cv_ran V n \<and>
     msg_payer (tx_message tx) \<in> own \<and>
     (\<forall>ix \<in> set (msg_instructions (tx_message tx)). am_pubkey ` set (accounts ix) \<subseteq> own)"

definition executes ::
  "(instruction \<Rightarrow> (pubkey \<Rightarrow> nat) \<Rightarrow> ((pubkey \<Rightarrow> nat) \<times> string list) option) \<Rightarrow>
     (pubkey \<Rightarrow> nat) \<Rightarrow> message \<Rightarrow> (pubkey \<Rightarrow> nat) \<Rightarrow> string list \<Rightarrow> bool" where
  "executes exec bal m bal' ls \<longleftrightarrow>
     5000 \<le> bal (msg_payer m) \<and>
     exec_all exec (msg_instructions m) (bal(msg_payer m := bal (msg_payer m) - 5000)) = Some (bal', ls) \<and>
     (\<forall>k. bal' k = bal k \<or> bal' k = 0 \<or> 890880 \<le> bal' k)"

text \<open>
  The faucet grants a rent-exempt amount to an empty account while it has the amount and its fee,
  and the airdrop arrives at most nine seconds after the request; asking for the confirmation of an
  airdrop or for a balance takes at most a second. What is confirmed before the airdrops have
  arrived is open, and a balance that lacks one is lower, or cannot be read. A blockhash that is
  given out is recent. A transaction that is acceptable and executes is confirmed and runs once;
  one that has run before, or whose blockhash is no longer recent, is refused. The logs of a
  transaction that names the pinboard can be read at most seven seconds after it is confirmed:
  before, a call may fail, leave transactions out or find no logs, but what it returns is true.
\<close>

definition reading_laws :: "('n, 'w) cluster \<Rightarrow> 'n chain_view \<Rightarrow> pubkey set \<Rightarrow> bool" where
  "reading_laws R V own \<longleftrightarrow>
     (\<forall>n. same_view R V (snd (keypair_new R n)) n) \<and>
     (\<forall>ms n. same_view R V (sleep R ms n) n \<and> clock R n + ms \<le> clock R (sleep R ms n)) \<and>
     (\<forall>k n. k \<in> own \<longrightarrow>
        (\<exists>r n'. get_balance R k n = (r, n') \<and> same_view R V n' n \<and> clock R n' \<le> clock R n + 1000 \<and>
           (if cv_due V n k \<le> clock R n then r = Inr (of_nat (cv_bal V n k))
            else \<forall>b. r = Inr b \<longrightarrow> unat b < cv_bal V n k))) \<and>
     (\<forall>n. \<exists>bh n'. latest_blockhash R n = (Inr bh, n') \<and> same_view R V n' n \<and> cv_recent V n' bh)"

definition faucet_laws :: "('n, 'w) cluster \<Rightarrow> 'n chain_view \<Rightarrow> pubkey set \<Rightarrow> bool" where
  "faucet_laws R V own \<longleftrightarrow>
     (\<forall>k l n. k \<in> own \<longrightarrow> cv_bal V n k = 0 \<longrightarrow> 890880 \<le> unat l \<longrightarrow> unat l + 5000 \<le> cv_faucet V n \<longrightarrow>
        (\<exists>sig n' d. request_airdrop R k l n = (Inr sig, n') \<and>
           cv_bal V n' = (cv_bal V n)(k := unat l) \<and> cv_due V n' = (cv_due V n)(k := d) \<and>
           d \<le> clock R n' + 9000 \<and> clock R n \<le> clock R n' \<and>
           cv_faucet V n \<le> cv_faucet V n' + unat l + 5000 \<and> cv_drops V n' = insert sig (cv_drops V n) \<and>
           cv_ran V n' = cv_ran V n \<and> cv_posts V n' = cv_posts V n \<and> cv_shown V n' = cv_shown V n)) \<and>
     (\<forall>s n. s \<in> cv_drops V n \<longrightarrow>
        (\<exists>r n'. confirm_transaction R s n = (r, n') \<and> same_view R V n' n \<and>
           clock R n' \<le> clock R n + 1000 \<and> (settled R V n \<longrightarrow> r = Inr True)))"

definition log_laws :: "('n, 'w) cluster \<Rightarrow> 'w wallet_lib \<Rightarrow> 'n chain_view \<Rightarrow> pubkey \<Rightarrow> bool" where
  "log_laws R W V pinboard \<longleftrightarrow>
     (\<forall>n. \<exists>r n'. signatures_for_address R pinboard 100 n = (r, n') \<and> same_view R V n' n \<and>
        clock R n' \<le> clock R n + 1000 \<and>
        (let sigs = map (Some \<circ> fst) (take 100 (cv_posts V n)) in
         (\<forall>ss. r = Inr ss \<longrightarrow> subseq (map (signature_from_str W) ss) sigs) \<and>
         (cv_shown V n \<le> clock R n \<longrightarrow> (\<exists>ss. r = Inr ss \<and> map (signature_from_str W) ss = sigs)))) \<and>
     (\<forall>s ls n. map_of (cv_posts V n) s = Some ls \<longrightarrow>
        (\<exists>r n'. transaction_logs R s n = (r, n') \<and> same_view R V n' n \<and> clock R n' \<le> clock R n + 1000 \<and>
           (\<forall>ls'. r = Inr (Some ls') \<longrightarrow> ls' = ls) \<and>
           (cv_shown V n \<le> clock R n \<longrightarrow> r = Inr (Some ls))))"

definition sending_laws ::
  "('n, 'w) cluster \<Rightarrow> 'w wallet_lib \<Rightarrow> 'n chain_view \<Rightarrow> pubkey set \<Rightarrow> pubkey \<Rightarrow>
     (instruction \<Rightarrow> (pubkey \<Rightarrow> nat) \<Rightarrow> ((pubkey \<Rightarrow> nat) \<times> string list) option) \<Rightarrow> bool" where
  "sending_laws R W V own pinboard exec \<longleftrightarrow>
     (\<forall>tx n bal' ls. acceptable R W V own tx n \<longrightarrow> executes exec (cv_bal V n) (tx_message tx) bal' ls \<longrightarrow>
        (\<exists>n' logs. send_and_confirm R tx n = (Inr (hd (tx_signatures tx)), n') \<and>
           cv_bal V n' = bal' \<and> settled R V n' \<and> cv_ran V n' = insert (tx_message tx) (cv_ran V n) \<and>
           filter (\<lambda>l. strip_prefix PREFIX l \<noteq> None) logs = ls \<and>
           (if \<exists>ix \<in> set (msg_instructions (tx_message tx)). program_id ix = pinboard
            then cv_posts V n' = (hd (tx_signatures tx), logs) # cv_posts V n \<and>
              cv_shown V n' \<le> clock R n' + 7000
            else cv_posts V n' = cv_posts V n \<and> cv_shown V n' = cv_shown V n))) \<and>
     (\<forall>tx n. tx_message tx \<in> cv_ran V n \<or> \<not> cv_recent V n (msg_blockhash (tx_message tx)) \<longrightarrow>
        (\<exists>e n'. send_and_confirm R tx n = (Inl e, n') \<and> same_view R V n' n))"

definition cluster_laws ::
  "('n, 'w) cluster \<Rightarrow> 'w wallet_lib \<Rightarrow> 'n chain_view \<Rightarrow> pubkey set \<Rightarrow> pubkey \<Rightarrow>
     (instruction \<Rightarrow> (pubkey \<Rightarrow> nat) \<Rightarrow> ((pubkey \<Rightarrow> nat) \<times> string list) option) \<Rightarrow> bool" where
  "cluster_laws R W V own pinboard exec \<longleftrightarrow>
     reading_laws R V own \<and> faucet_laws R V own \<and> log_laws R W V pinboard \<and>
     sending_laws R W V own pinboard exec"

section \<open>The stages on such a cluster\<close>

lemmas action_simps =
  and_then_def call_def call_expect_def expecting_def asserting_def give_def

lemma cluster_reads:
  assumes "cluster_laws R W V own pid exec"
  shows "same_view R V (snd (keypair_new R n)) n"
    and "same_view R V (sleep R ms n) n" "clock R n + ms \<le> clock R (sleep R ms n)"
    and "k \<in> own \<Longrightarrow> \<exists>r n'. get_balance R k n = (r, n') \<and> same_view R V n' n \<and>
        clock R n' \<le> clock R n + 1000 \<and>
        (if cv_due V n k \<le> clock R n then r = Inr (of_nat (cv_bal V n k))
         else \<forall>b. r = Inr b \<longrightarrow> unat b < cv_bal V n k)"
    and "\<exists>bh n'. latest_blockhash R n = (Inr bh, n') \<and> same_view R V n' n \<and> cv_recent V n' bh"
  using assms unfolding cluster_laws_def reading_laws_def by blast+

lemma cluster_drops:
  assumes "cluster_laws R W V own pid exec"
  shows "k \<in> own \<Longrightarrow> cv_bal V n k = 0 \<Longrightarrow> 890880 \<le> unat l \<Longrightarrow> unat l + 5000 \<le> cv_faucet V n \<Longrightarrow>
        \<exists>sig n' d. request_airdrop R k l n = (Inr sig, n') \<and>
           cv_bal V n' = (cv_bal V n)(k := unat l) \<and> cv_due V n' = (cv_due V n)(k := d) \<and>
           d \<le> clock R n' + 9000 \<and> clock R n \<le> clock R n' \<and>
           cv_faucet V n \<le> cv_faucet V n' + unat l + 5000 \<and> cv_drops V n' = insert sig (cv_drops V n) \<and>
           cv_ran V n' = cv_ran V n \<and> cv_posts V n' = cv_posts V n \<and> cv_shown V n' = cv_shown V n"
    and "s \<in> cv_drops V n \<Longrightarrow> \<exists>r n'. confirm_transaction R s n = (r, n') \<and> same_view R V n' n \<and>
        clock R n' \<le> clock R n + 1000 \<and> (settled R V n \<longrightarrow> r = Inr True)"
  using assms unfolding cluster_laws_def faucet_laws_def by blast+

lemma cluster_logs:
  assumes "cluster_laws R W V own pid exec"
  shows "\<exists>r n'. signatures_for_address R pid 100 n = (r, n') \<and> same_view R V n' n \<and>
        clock R n' \<le> clock R n + 1000 \<and>
        (\<forall>ss. r = Inr ss \<longrightarrow> subseq (map (signature_from_str W) ss) (map (Some \<circ> fst) (take 100 (cv_posts V n)))) \<and>
        (cv_shown V n \<le> clock R n \<longrightarrow>
          (\<exists>ss. r = Inr ss \<and> map (signature_from_str W) ss = map (Some \<circ> fst) (take 100 (cv_posts V n))))"
    and "map_of (cv_posts V n) s = Some ls \<Longrightarrow>
        \<exists>r n'. transaction_logs R s n = (r, n') \<and> same_view R V n' n \<and> clock R n' \<le> clock R n + 1000 \<and>
           (\<forall>ls'. r = Inr (Some ls') \<longrightarrow> ls' = ls) \<and>
           (cv_shown V n \<le> clock R n \<longrightarrow> r = Inr (Some ls))"
  using assms
  by (auto simp: cluster_laws_def log_laws_def Let_def simp del: map_map dest!: spec)

lemma cluster_sends:
  assumes "cluster_laws R W V own pid exec" "acceptable R W V own tx n"
    and "executes exec (cv_bal V n) (tx_message tx) bal' ls"
  shows "\<exists>n' logs. send_and_confirm R tx n = (Inr (hd (tx_signatures tx)), n') \<and>
     cv_bal V n' = bal' \<and> settled R V n' \<and> cv_ran V n' = insert (tx_message tx) (cv_ran V n) \<and>
     filter (\<lambda>l. strip_prefix PREFIX l \<noteq> None) logs = ls \<and>
     (if \<exists>ix \<in> set (msg_instructions (tx_message tx)). program_id ix = pid
      then cv_posts V n' = (hd (tx_signatures tx), logs) # cv_posts V n \<and>
        cv_shown V n' \<le> clock R n' + 7000
      else cv_posts V n' = cv_posts V n \<and> cv_shown V n' = cv_shown V n)"
proof -
  have "sending_laws R W V own pid exec" using assms(1) by (simp add: cluster_laws_def)
  from conjunct1 [OF this [unfolded sending_laws_def], rule_format, OF assms(2,3)] show ?thesis .
qed

lemma same_view_settled: "same_view R V m n \<Longrightarrow> settled R V n \<Longrightarrow> settled R V m"
  by (force simp: same_view_def settled_def intro: le_trans)

lemma same_view_trans: "same_view R V m n \<Longrightarrow> same_view R V k m \<Longrightarrow> same_view R V k n"
  by (simp add: same_view_def)

lemma settled_balance:
  assumes "cluster_laws R W V own pid exec" "settled R V n" "k \<in> own"
  shows "\<exists>n'. get_balance R k n = (Inr (of_nat (cv_bal V n k)), n') \<and> same_view R V n' n \<and> settled R V n'"
  using cluster_reads(4) [OF assms(1,3), of n] same_view_settled assms(2) by (fastforce simp: settled_def)

lemma settled_blockhash:
  assumes "cluster_laws R W V own pid exec" "settled R V n"
  shows "\<exists>bh n'. latest_blockhash R n = (Inr bh, n') \<and> same_view R V n' n \<and> settled R V n' \<and> cv_recent V n' bh"
  using cluster_reads(5) [OF assms(1), of n] same_view_settled [OF _ assms(2)] by blast

text \<open>The two loops of an airdrop come to their end in time.\<close>

lemma confirm_loop_succeeds:
  assumes "cluster_laws R W V own pid exec" "\<forall>k. cv_due V n k + 1000 \<le> deadline" "sig \<in> cv_drops V n"
  shows "\<exists>n'. confirm_loop R sig deadline n = Some (Ok (), n') \<and> same_view R V n' n"
  using assms(2,3)
proof (induction "time_left R deadline n" arbitrary: n rule: less_induct)
  case less
  obtain r m where c: "confirm_transaction R sig n = (r, m)" "same_view R V m n"
    "clock R m \<le> clock R n + 1000" "settled R V n \<longrightarrow> r = Inr True"
    using cluster_drops(2) [OF assms(1) less.prems(2)] by blast
  show ?case
  proof (cases "r = Inr True")
    case True
    then show ?thesis using c by (simp add: confirm_loop.simps [of R sig deadline n])
  next
    case False
    then obtain k where "clock R n < cv_due V n k" using c(4) by (auto simp: settled_def not_le)
    then have time: "clock R m \<le> deadline" "clock R n < deadline"
      using less.prems(1) [rule_format, of k] c(3) by simp_all
    let ?m = "sleep R 200 m"
    have view: "same_view R V ?m n"
      using same_view_trans [OF c(2) cluster_reads(2) [OF assms(1)]] .
    have "clock R n \<le> clock R m" "clock R m + 200 \<le> clock R ?m"
      using c(2) cluster_reads(3) [OF assms(1), of m 200] by (simp_all add: same_view_def)
    then have "time_left R deadline ?m < time_left R deadline n" using time by linarith
    moreover have "\<forall>k. cv_due V ?m k + 1000 \<le> deadline" "sig \<in> cv_drops V ?m"
      using less.prems view by (simp_all add: same_view_def)
    ultimately obtain n' where "confirm_loop R sig deadline ?m = Some (Ok (), n')" "same_view R V n' ?m"
      using less.hyps by blast
    then show ?thesis
      using False time(1) c(1) same_view_trans [OF view]
      by (auto simp: confirm_loop.simps [of R sig deadline n])
  qed
qed

lemma balance_loop_succeeds:
  assumes "cluster_laws R W V own pid exec" "0 < l" "k \<in> own"
    and "cv_bal V n k = unat l" "cv_due V n k + 1000 \<le> deadline"
  shows "\<exists>n'. balance_loop R k l deadline n = Some (Ok (), n') \<and> same_view R V n' n \<and>
    cv_due V n' k \<le> clock R n'"
  using assms(4,5)
proof (induction "time_left R deadline n" arbitrary: n rule: less_induct)
  case less
  obtain r m where c: "get_balance R k n = (r, m)" "same_view R V m n" "clock R m \<le> clock R n + 1000"
    "if cv_due V n k \<le> clock R n then r = Inr (of_nat (cv_bal V n k)) else \<forall>b. r = Inr b \<longrightarrow> unat b < cv_bal V n k"
    using cluster_reads(4) [OF assms(1,3)] by blast
  have later: "cv_due V m k = cv_due V n k" "clock R n \<le> clock R m" using c(2) by (simp_all add: same_view_def)
  show ?case
  proof (cases "cv_due V n k \<le> clock R n")
    case True
    then show ?thesis using c less.prems(1) later by (simp add: balance_loop.simps [of R k l deadline n])
  next
    case False
    then have time: "clock R m \<le> deadline" "clock R n < deadline" using less.prems(2) c(3) by simp_all
    have low: "\<not> l \<le> (case r of Inr b \<Rightarrow> b | Inl _ \<Rightarrow> 0)"
      using c(4) False less.prems(1) assms(2) by (auto simp: word_le_nat_alt word_less_nat_alt split: sum.split)
    let ?m = "sleep R 200 m"
    have view: "same_view R V ?m n"
      using same_view_trans [OF c(2) cluster_reads(2) [OF assms(1)]] .
    have "clock R m + 200 \<le> clock R ?m" using cluster_reads(3) [OF assms(1)] .
    then have "time_left R deadline ?m < time_left R deadline n" using time later(2) by linarith
    moreover have "cv_bal V ?m k = unat l" "cv_due V ?m k + 1000 \<le> deadline"
      using less.prems view by (simp_all add: same_view_def)
    ultimately obtain n' where "balance_loop R k l deadline ?m = Some (Ok (), n')"
      "same_view R V n' ?m" "cv_due V n' k \<le> clock R n'"
      using less.hyps by blast
    then show ?thesis
      using low time(1) c(1) same_view_trans [OF view]
      by (auto simp: balance_loop.simps [of R k l deadline n])
  qed
qed

lemma airdrop_succeeds:
  assumes laws: "cluster_laws R W V own pid exec" and "settled R V n" "cv_bal V n k = 0" "890880 \<le> unat l"
    and "k \<in> own" "unat l + 5000 \<le> cv_faucet V n"
  shows "\<exists>n'. airdrop_blocking R k l n = Some (Ok (), n') \<and>
    cv_bal V n' = (cv_bal V n)(k := unat l) \<and> cv_posts V n' = cv_posts V n \<and> cv_ran V n' = cv_ran V n \<and>
    cv_faucet V n \<le> cv_faucet V n' + unat l + 5000 \<and> settled R V n'"
proof -
  have pos: "0 < l" using assms(4) by (cases "l = 0") (simp_all add: word_gt_0)
  obtain sig n1 d where n1: "request_airdrop R k l n = (Inr sig, n1)"
    "cv_bal V n1 = (cv_bal V n)(k := unat l)" "cv_due V n1 = (cv_due V n)(k := d)"
    "d \<le> clock R n1 + 9000" "clock R n \<le> clock R n1"
    "cv_faucet V n \<le> cv_faucet V n1 + unat l + 5000" "cv_drops V n1 = insert sig (cv_drops V n)"
    "cv_ran V n1 = cv_ran V n" "cv_posts V n1 = cv_posts V n"
    using cluster_drops(1) [OF laws assms(5,3,4,6)] by blast
  have others: "\<forall>j. j \<noteq> k \<longrightarrow> cv_due V n1 j \<le> clock R n1"
    using assms(2) n1(3,5) by (auto simp: settled_def intro: le_trans)
  have due: "cv_due V n1 j + 1000 \<le> clock R n1 + 30000" for j
    using others [rule_format, of j] n1(3,4) by (cases "j = k") simp_all
  obtain n2 where n2: "confirm_loop R sig (clock R n1 + 30000) n1 = Some (Ok (), n2)"
    "same_view R V n2 n1"
    using confirm_loop_succeeds [OF laws, of n1 _ sig] due n1(7) by blast
  have "cv_bal V n2 k = unat l" "cv_due V n2 k + 1000 \<le> clock R n2 + 10000"
    using n1(2,3,4) n2(2) by (simp_all add: same_view_def)
  then obtain n3 where n3: "balance_loop R k l (clock R n2 + 10000) n2 = Some (Ok (), n3)"
    "same_view R V n3 n2" "cv_due V n3 k \<le> clock R n3"
    using balance_loop_succeeds [OF laws pos assms(5)] by blast
  have view: "same_view R V n3 n1" using same_view_trans [OF n2(2) n3(2)] .
  have "cv_due V n3 j \<le> clock R n3" for j
    using others n3(3) view by (cases "j = k") (auto simp: same_view_def intro: le_trans)
  moreover have "airdrop_blocking R k l n = Some (Ok (), n3)"
    using n1(1) n2(1) n3(1) by (simp add: airdrop_blocking_def action_simps)
  ultimately show ?thesis using n1 view by (simp add: same_view_def settled_def)
qed

lemma set_up_succeeds:
  assumes laws: "cluster_laws R W V own pid exec" and ready: "settled R V n"
    and keys: "keypair_new R n = (sender, n1)" "keypair_new R n1 = (recipient, n2)"
    and ne: "keypair_pubkey W sender \<noteq> keypair_pubkey W recipient"
    and own: "keypair_pubkey W sender \<in> own" "keypair_pubkey W recipient \<in> own"
    and fresh: "cv_bal V n (keypair_pubkey W sender) = 0" "cv_bal V n (keypair_pubkey W recipient) = 0"
    and faucet: "20000010000 \<le> cv_faucet V n"
  shows "\<exists>n'. set_up R W n = Some (Ok (sender, recipient), n') \<and>
    cv_bal V n' = (cv_bal V n)(keypair_pubkey W sender := 10000000000, keypair_pubkey W recipient := 10000000000) \<and>
    cv_posts V n' = cv_posts V n \<and> cv_ran V n' = cv_ran V n \<and> settled R V n'"
proof -
  let ?s = "keypair_pubkey W sender" and ?r = "keypair_pubkey W recipient"
  have sol: "unat (10 * ONE_SOL) = 10000000000" by (simp add: ONE_SOL_def)
  have v: "same_view R V n2 n"
    using same_view_trans cluster_reads(1) [OF laws, of n] cluster_reads(1) [OF laws, of n1] keys by fastforce
  have n2: "cv_bal V n2 = cv_bal V n" "cv_posts V n2 = cv_posts V n" "cv_ran V n2 = cv_ran V n"
    "cv_faucet V n2 = cv_faucet V n" "settled R V n2"
    using v same_view_settled [OF v ready] by (simp_all add: same_view_def)
  obtain n3 where n3: "airdrop_blocking R ?s (10 * ONE_SOL) n2 = Some (Ok (), n3)"
    "cv_bal V n3 = (cv_bal V n2)(?s := 10000000000)" "cv_posts V n3 = cv_posts V n2"
    "cv_ran V n3 = cv_ran V n2" "cv_faucet V n2 \<le> cv_faucet V n3 + 10000005000" "settled R V n3"
    using airdrop_succeeds [OF laws n2(5), of ?s "10 * ONE_SOL"] fresh(1) own(1) faucet n2(1,4)
    unfolding sol by auto
  obtain n4 where n4: "airdrop_blocking R ?r (10 * ONE_SOL) n3 = Some (Ok (), n4)"
    "cv_bal V n4 = (cv_bal V n3)(?r := 10000000000)" "cv_posts V n4 = cv_posts V n3"
    "cv_ran V n4 = cv_ran V n3" "settled R V n4"
    using airdrop_succeeds [OF laws n3(6), of ?r "10 * ONE_SOL"] fresh(2) own(2) faucet n2(1,4) n3(2,5) ne
    unfolding sol by auto
  have "set_up R W n = Some (Ok (sender, recipient), n4)"
    using keys n3(1) n4(1) by (simp add: set_up_def action_simps)
  with n2 n3 n4 show ?thesis by auto
qed

text \<open>Lines that are not \<open>Program data\<close> carry no note.\<close>

lemma scan_data_lines:
  "scan_lines C T B spend scan logs =
     scan_lines C T B spend scan (filter (\<lambda>l. strip_prefix PREFIX l \<noteq> None) logs)"
  by (induction logs) (auto simp: try_parse_note_log_eq split: outcome.split option.split)

lemma system_transfer_runs:
  assumes "runtime_laws C T B S pid exec" "unat l \<le> bal a"
  shows "exec (system_transfer S a b l) bal =
    Some (let bal' = bal(a := bal a - unat l) in bal'(b := bal' b + unat l), [])"
proof -
  have "map_option fst (exec (system_transfer S a b l) bal) =
      Some (let bal' = bal(a := bal a - unat l) in bal'(b := bal' b + unat l))"
    using assms by (simp add: runtime_laws_def transfer_law_def)
  then obtain ls where "exec (system_transfer S a b l) bal =
      Some (let bal' = bal(a := bal a - unat l) in bal'(b := bal' b + unat l), ls)" by auto
  moreover from this have "ls = []" using assms(1) by (auto simp: runtime_laws_def)
  ultimately show ?thesis by simp
qed

lemma pinboard_post_runs:
  assumes "runtime_laws C T B S pid exec" "pinboard_discriminators C"
    and "program_id ix = pid" "data ix = POST_DISCRIMINATOR @ body" "run_post B (accounts ix) body = ([n], Ok ())"
  shows "exec ix b = Some (b, [note_log_line C T B n])"
proof -
  have "ix = \<lparr>program_id = pid, accounts = accounts ix, data = discriminator C ''global'' ''post'' @ body\<rparr>"
    using assms(2-4) by (cases ix) (simp add: pinboard_discriminators_def)
  then have "exec ix b = (case run_post B (accounts ix) body of
      (ns, Ok _) \<Rightarrow> Some (b, map (note_log_line C T B) ns) | _ \<Rightarrow> None)"
    using assms(1) unfolding runtime_laws_def by (metis (no_types, lifting))
  then show ?thesis using assms(5) by simp
qed

text \<open>The two messages of the program fit a packet.\<close>

lemma transfer_shape:
  assumes "wallet_laws C S W"
  shows "sole_signer a [system_transfer S a b l]" "am_pubkey ` set (accounts (system_transfer S a b l)) = {a, b}"
    "length (accounts (system_transfer S a b l)) = 2" "length (data (system_transfer S a b l)) = 12"
proof -
  have ks: "map am_pubkey (accounts (system_transfer S a b l)) = [a, b]"
    and "sole_signer a [system_transfer S a b l]" "length (data (system_transfer S a b l)) = 12"
    using assms unfolding wallet_laws_def by blast+
  then show "sole_signer a [system_transfer S a b l]" "length (data (system_transfer S a b l)) = 12" by simp_all
  show "am_pubkey ` set (accounts (system_transfer S a b l)) = {a, b}"
    using arg_cong [OF ks, of set] by simp
  show "length (accounts (system_transfer S a b l)) = 2"
    using arg_cong [OF ks, of length] by simp
qed

lemma message_fits:
  assumes "wallet_laws C S W"
    and "sum_list (map (\<lambda>ix. 39 + 33 * length (accounts ix) + length (data ix)) (msg_instructions m)) \<le> 1094"
  shows "65 + length (message_serialize W m) \<le> 1232"
proof -
  have "length (message_serialize W m) \<le>
      73 + sum_list (map (\<lambda>ix. 39 + 33 * length (accounts ix) + length (data ix)) (msg_instructions m))"
    using assms(1) unfolding wallet_laws_def by blast
  with assms(2) show ?thesis by linarith
qed

lemma post_instruction_shape:
  assumes "borsh_sizes B" "is_array 32 eph"
    and "build_post_instruction B pid payer s eph vt [] = (Ok ix :: ('e, instruction) outcome)"
  shows "accounts ix = [account_meta_new payer True]" "length (data ix) = 47"
proof -
  obtain w where w: "write_note_fields B s eph vt [] = Some w" "accounts ix = [account_meta_new payer True]"
    "data ix = POST_DISCRIMINATOR @ w"
    using assms(3) by (cases ix) (auto simp: build_post_instruction_def write_post_args_def obind_Ok_iff)
  then show "accounts ix = [account_meta_new payer True]" "length (data ix) = 47"
    using length_note_fields [OF assms(1) w(1)] assms(2) by (simp_all add: POST_DISCRIMINATOR_def)
qed

lemma pay_and_post_succeeds:
  assumes laws: "cluster_laws R W V own pid exec" and wallet: "wallet_laws C S W"
    and runtime: "runtime_laws C T B S pid exec"
    and libs: "text_laws T" "borsh_laws B" "borsh_sizes B" "pinboard_discriminators C"
    and eph: "is_array 32 (ephemeral_pub payment)"
    and ne: "keypair_pubkey W sender \<noteq> stealth_address payment"
    and own: "keypair_pubkey W sender \<in> own" "stealth_address payment \<in> own"
    and fresh: "\<forall>m \<in> cv_ran V n. msg_payer m \<noteq> keypair_pubkey W sender"
    and ready: "settled R V n" and funds: "2000000000 \<le> cv_bal V n (keypair_pubkey W sender)"
      "cv_bal V n (stealth_address payment) = 0"
  shows "\<exists>n' m sig logs line. pay_and_post S B R W pid sender payment n = Some (Ok (), n') \<and>
    cv_bal V n' = (cv_bal V n)(keypair_pubkey W sender := cv_bal V n (keypair_pubkey W sender) - 1000005000,
                     stealth_address payment := 1000000000) \<and>
    cv_ran V n' = insert m (cv_ran V n) \<and> msg_payer m = keypair_pubkey W sender \<and>
    cv_posts V n' = (sig, logs) # cv_posts V n \<and> cv_shown V n' \<le> clock R n' + 7000 \<and> settled R V n' \<and>
    filter (\<lambda>l. strip_prefix PREFIX l \<noteq> None) logs = [line] \<and>
    try_parse_note_log T B line =
      Ok (Some \<lparr>ev_scheme_id = SCHEME_ID_V1, ev_ephemeral_pub = ephemeral_pub payment,
                ev_view_tag = view_tag payment, ev_metadata = []\<rparr>)"
proof -
  let ?k = "keypair_pubkey W sender" and ?a = "stealth_address payment"
  let ?ev = "\<lparr>ev_scheme_id = SCHEME_ID_V1, ev_ephemeral_pub = ephemeral_pub payment,
        ev_view_tag = view_tag payment, ev_metadata = []\<rparr>"
  obtain ix body note_ev where ix:
    "build_post_instruction B pid ?k SCHEME_ID_V1 (ephemeral_pub payment) (view_tag payment) [] =
       (Ok ix :: (slnt_error, instruction) outcome)"
    "program_id ix = pid" "data ix = POST_DISCRIMINATOR @ body" "run_post B (accounts ix) body = ([note_ev], Ok ())"
    "try_parse_note_log T B (note_log_line C T B note_ev) = Ok (Some ?ev)"
    using sdk_post_accepted [OF libs(1,2,4) eph, of "[]" pid ?k SCHEME_ID_V1 "view_tag payment"] by auto
  note shape = post_instruction_shape [OF libs(3) eph ix(1)] transfer_shape [OF wallet, of ?k ?a ONE_SOL]
  let ?ixs = "[system_transfer S ?k ?a ONE_SOL, ix]"
  have sole: "sole_signer ?k ?ixs" using shape(1,3) by (simp add: sole_signer_def)
  obtain bh n1 where n1: "latest_blockhash R n = (Inr bh, n1)" "same_view R V n1 n" "settled R V n1" "cv_recent V n1 bh"
    using settled_blockhash [OF laws ready] by blast
  let ?m = "\<lparr>msg_instructions = ?ixs, msg_payer = ?k, msg_blockhash = bh\<rparr>"
  obtain sig where tx: "sign_with W ?ixs ?k sender bh = Some \<lparr>tx_signatures = [sig], tx_message = ?m\<rparr>"
    "transaction_verify W \<lparr>tx_signatures = [sig], tx_message = ?m\<rparr>"
    using wallet sole unfolding wallet_laws_def by blast
  let ?tx = "\<lparr>tx_signatures = [sig], tx_message = ?m\<rparr>"
  let ?bal = "(cv_bal V n)(?k := cv_bal V n ?k - 1000005000, ?a := 1000000000)"
  let ?ls = "[note_log_line C T B note_ev]"
  have sol: "unat ONE_SOL = 1000000000" by (simp add: ONE_SOL_def)
  have "exec ix b = Some (b, ?ls)" for b
    using runtime libs(4) ix(2-4) by (rule pinboard_post_runs)
  then have "exec_all exec ?ixs ((cv_bal V n1)(?k := cv_bal V n1 ?k - 5000)) = Some (?bal, ?ls)"
    using system_transfer_runs [OF runtime, of ONE_SOL "(cv_bal V n1)(?k := cv_bal V n1 ?k - 5000)" ?k ?a]
      funds ne n1(2) by (simp add: sol same_view_def)
  then have run: "executes exec (cv_bal V n1) (tx_message ?tx) ?bal ?ls"
    using funds n1(2) by (auto simp: executes_def same_view_def)
  have "acceptable R W V own ?tx n1"
    using n1(2-4) tx(2) own fresh shape message_fits [OF wallet, of ?m]
    by (auto simp: acceptable_def same_view_def)
  from cluster_sends [OF laws this run] ix(2) obtain n2 logs where
    n2: "send_and_confirm R ?tx n1 = (Inr sig, n2)" "cv_bal V n2 = ?bal" "settled R V n2"
      "cv_ran V n2 = insert ?m (cv_ran V n1)" "filter (\<lambda>l. strip_prefix PREFIX l \<noteq> None) logs = ?ls"
      "cv_posts V n2 = (sig, logs) # cv_posts V n1" "cv_shown V n2 \<le> clock R n2 + 7000"
    by auto
  obtain n3 where n3: "get_balance R ?a n2 = (Inr (of_nat (cv_bal V n2 ?a)), n3)" "same_view R V n3 n2"
    "settled R V n3"
    using settled_balance [OF laws n2(3) own(2)] by blast
  have "pay_and_post S B R W pid sender payment n = Some (Ok (), n3)"
    using ix(1) n1(1) tx(1) n2(1,2) n3(1) by (simp add: pay_and_post_def action_simps Let_def ONE_SOL_def)
  with ix(5) n1(2) n2 n3(2,3) show ?thesis
    by (intro exI [of _ n3] exI [of _ ?m] exI [of _ sig] exI [of _ logs] exI [of _ "note_log_line C T B note_ev"])
      (auto simp: same_view_def)
qed

text \<open>Before its logs can be read a note may be missed, but the loop goes on until they can.\<close>

lemma scan_loop_succeeds:
  assumes laws: "cluster_laws R W V own pid exec"
    and logs: "cv_posts V n = [(sig, logs)]" "scan_lines C T B spend scan logs = Ok (Some m)"
    and time: "cv_shown V n + 2000 \<le> deadline"
  shows "\<exists>n'. scan_loop C T B R W pid spend scan deadline n = Some (Ok (Some m), n') \<and> same_view R V n' n"
  using logs(1) time
proof (induction "time_left R deadline n" arbitrary: n rule: less_induct)
  case less
  obtain r n1 where n1: "signatures_for_address R pid 100 n = (r, n1)" "same_view R V n1 n"
    "clock R n1 \<le> clock R n + 1000"
    "\<And>ss. r = Inr ss \<Longrightarrow> subseq (map (signature_from_str W) ss) [Some sig]"
    "cv_shown V n \<le> clock R n \<Longrightarrow> \<exists>ss. r = Inr ss \<and> map (signature_from_str W) ss = [Some sig]"
    using cluster_logs(1) [OF laws, of n] less.prems(1) by auto
  let ?ss = "case r of Inr s \<Rightarrow> s | Inl _ \<Rightarrow> []"
  have "subseq (map (signature_from_str W) ?ss) [Some sig]" using n1(4) by (auto split: sum.split)
  then consider (none) "?ss = []" | (one) s where "?ss = [s]" "signature_from_str W s = Some sig"
    by (cases ?ss) (auto elim: list_emb.cases split: if_splits)
  then obtain q n2 where n2: "scan_sigs C T B R W spend scan ?ss n1 = (q, n2)" "same_view R V n2 n"
    "clock R n2 \<le> clock R n + 2000" "q = Ok (Some m) \<or> q = Ok None \<and> clock R n < cv_shown V n"
  proof cases
    case none
    then have "\<not> cv_shown V n \<le> clock R n" using n1(5) by force
    then show ?thesis using that [of "Ok None" n1] none n1(2,3) by simp
  next
    case (one s)
    obtain t n2 where t: "transaction_logs R sig n1 = (t, n2)" "same_view R V n2 n1"
      "clock R n2 \<le> clock R n1 + 1000" "\<And>ls. t = Inr (Some ls) \<Longrightarrow> ls = logs"
      "cv_shown V n1 \<le> clock R n1 \<Longrightarrow> t = Inr (Some logs)"
      using cluster_logs(2) [OF laws, of n1 sig logs] n1(2) less.prems(1) by (auto simp: same_view_def)
    have view: "same_view R V n2 n" using same_view_trans [OF n1(2) t(2)] .
    show ?thesis
    proof (cases "t = Inr (Some logs)")
      case True
      then show ?thesis using that [of "Ok (Some m)" n2] one t(1,3) n1(3) view logs(2) by simp
    next
      case False
      then have "clock R n < cv_shown V n" using t(5) n1(2) by (fastforce simp: same_view_def)
      moreover have "scan_sigs C T B R W spend scan ?ss n1 = (Ok None, n2)"
        using False one t(1,4) by (auto split: sum.split option.split)
      ultimately show ?thesis using that view n1(3) t(3) by fastforce
    qed
  qed
  note step = scan_loop.simps [of C T B R W pid spend scan deadline n]
  show ?case
  proof (cases "q = Ok (Some m)")
    case True
    then show ?thesis using n1(1) n2(1,2) by (simp add: step)
  next
    case False
    then have q: "q = Ok None" "clock R n < cv_shown V n" using n2(4) by simp_all
    let ?n = "sleep R 250 n2"
    have view: "same_view R V ?n n" using same_view_trans [OF n2(2) cluster_reads(2) [OF laws]] .
    have on: "\<not> deadline < clock R n2" using q(2) n2(3) less.prems(2) by linarith
    have "clock R n2 + 250 \<le> clock R ?n" "clock R n \<le> clock R n2"
      using cluster_reads(3) [OF laws] n2(2) by (simp_all add: same_view_def)
    then have "time_left R deadline ?n < time_left R deadline n" using on by linarith
    moreover have "cv_posts V ?n = [(sig, logs)]" "cv_shown V ?n + 2000 \<le> deadline"
      using less.prems view by (simp_all add: same_view_def)
    ultimately obtain n' where "scan_loop C T B R W pid spend scan deadline ?n = Some (Ok (Some m), n')"
      "same_view R V n' ?n"
      using less.hyps by blast
    then show ?thesis using n1(1) n2(1) q(1) on same_view_trans [OF view] by (auto simp: step)
  qed
qed

lemma find_match_succeeds:
  assumes laws: "cluster_laws R W V own pid exec"
    and logs: "cv_posts V n = [(sig, logs)]" "filter (\<lambda>l. strip_prefix PREFIX l \<noteq> None) logs = [line]"
      "try_parse_note_log T B line = Ok (Some e)" "cv_shown V n \<le> clock R n + 7000"
    and hit: "scan_note C spend scan (ev_ephemeral_pub e) (ev_view_tag e) = Ok (Some m)"
      "nm_stealth_address m = stealth_address payment"
  shows "\<exists>n'. find_match C T B R W pid spend scan payment n = Some (Ok m, n') \<and> same_view R V n' n"
proof -
  have "scan_lines C T B spend scan logs = Ok (Some m)"
    using logs(2,3) hit(1) by (subst scan_data_lines) simp
  then obtain n2 where "scan_pinboard_for_match C T B R W pid spend scan n = Some (Ok (Some m), n2)"
    "same_view R V n2 n"
    using scan_loop_succeeds [OF laws logs(1), of C T B spend scan m "clock R n + 10000"] logs(4)
    by (auto simp: scan_pinboard_for_match_def)
  then show ?thesis using hit(2) by (auto simp: find_match_def action_simps)
qed

lemma sweep_succeeds:
  assumes laws: "cluster_laws R W V own pid exec" and wallet: "wallet_laws C S W"
    and runtime: "runtime_laws C T B S pid exec"
    and crypto: "group_laws C" "compress_laws C" "scalar_laws C"
    and key: "compress C (point_mul C (nm_stealth_scalar m) (basepoint C)) = stealth_address payment"
    and ne: "recipient \<noteq> stealth_address payment"
    and own: "recipient \<in> own" "stealth_address payment \<in> own"
    and fresh: "\<forall>m \<in> cv_ran V n. msg_payer m \<noteq> stealth_address payment"
    and ready: "settled R V n" and funds: "cv_bal V n (stealth_address payment) = 1000000000"
      "890880 \<le> cv_bal V n recipient" "cv_bal V n recipient + 1000000000 < 2 ^ 64"
  shows "\<exists>n'. sweep C S R W m payment recipient n = Some (Ok 999995000, n') \<and>
    cv_bal V n' = (cv_bal V n)(recipient := cv_bal V n recipient + 999995000, stealth_address payment := 0)"
proof -
  let ?a = "stealth_address payment" and ?k = "signing_key_new C (nm_stealth_scalar m)"
  have pub: "public_bytes C ?k = ?a" by (simp add: public_bytes_new address_for_scalar_def key)
  obtain n1 where n1: "get_balance R recipient n = (Inr (of_nat (cv_bal V n recipient)), n1)" "same_view R V n1 n"
    "settled R V n1"
    using settled_balance [OF laws ready own(1)] by blast
  obtain n2 where n2: "get_balance R ?a n1 = (Inr (of_nat (cv_bal V n1 ?a)), n2)" "same_view R V n2 n1"
    "settled R V n2"
    using settled_balance [OF laws n1(3) own(2)] by blast
  obtain bh n3 where n3: "latest_blockhash R n2 = (Inr bh, n3)" "same_view R V n3 n2"
    "settled R V n3" "cv_recent V n3 bh"
    using settled_blockhash [OF laws n2(3)] by blast
  have view: "cv_bal V n3 = cv_bal V n" "cv_ran V n3 = cv_ran V n"
    using n1(2) n2(2) n3(2) by (simp_all add: same_view_def)
  have amount: "sub_u64 (1000000000 :: u64) TX_FEE = (Ok 999995000 :: (unit, u64) outcome)"
    by (simp add: sub_u64_def TX_FEE_def word_le_nat_alt)
  let ?ix = "system_transfer S ?a recipient 999995000"
  let ?m = "\<lparr>msg_instructions = [?ix], msg_payer = ?a, msg_blockhash = bh\<rparr>"
  let ?tx = "\<lparr>tx_signatures = [sign C ?k (message_serialize W ?m)], tx_message = ?m\<rparr>"
  note shape = transfer_shape [OF wallet, of ?a recipient 999995000]
  have verify: "transaction_verify W ?tx"
    using wallet shape(1) sign_new_verifies [OF crypto, of "nm_stealth_scalar m" "message_serialize W ?m"]
    by (simp add: wallet_laws_def pub)
  let ?bal = "(cv_bal V n)(recipient := cv_bal V n recipient + 999995000, ?a := 0)"
  have "exec_all exec [?ix] ((cv_bal V n3)(?a := cv_bal V n3 ?a - 5000)) = Some (?bal, [])"
    using system_transfer_runs [OF runtime, of 999995000 "(cv_bal V n3)(?a := cv_bal V n3 ?a - 5000)" ?a recipient]
      funds(1) ne by (simp add: view fun_upd_twist [OF ne])
  then have run: "executes exec (cv_bal V n3) (tx_message ?tx) ?bal []"
    using funds(1,2) view by (simp add: executes_def)
  have "acceptable R W V own ?tx n3"
    using n3(3,4) verify own fresh shape message_fits [OF wallet, of ?m]
    by (auto simp: acceptable_def view)
  from cluster_sends [OF laws this run] obtain n4 where
    n4: "send_and_confirm R ?tx n3 = (Inr (hd (tx_signatures ?tx)), n4)" "cv_bal V n4 = ?bal" "settled R V n4"
    by auto
  obtain n5 where n5: "get_balance R recipient n4 = (Inr (of_nat (cv_bal V n4 recipient)), n5)" "same_view R V n5 n4"
    "settled R V n5"
    using settled_balance [OF laws n4(3) own(1)] by blast
  obtain n6 where n6: "get_balance R ?a n5 = (Inr (of_nat (cv_bal V n5 ?a)), n6)" "same_view R V n6 n5"
    using settled_balance [OF laws n5(3) own(2)] by blast
  have "sub_u64 (of_nat (cv_bal V n recipient + 999995000)) (of_nat (cv_bal V n recipient)) =
      (Ok 999995000 :: (unit, u64) outcome)"
  proof -
    have "(of_nat (cv_bal V n recipient) :: u64) \<le> of_nat (cv_bal V n recipient + 999995000)"
      using funds(3) by (simp add: word_le_nat_alt unat_of_nat del: of_nat_add)
    then show ?thesis by (simp add: sub_u64_def)
  qed
  then have "sweep C S R W m payment recipient n = Some (Ok 999995000, n6)"
    using n1(1,2) n2(1,2) n3(1) n4(1,2) n5(1,2) n6 pub verify amount funds(1) ne
    by (simp add: sweep_def action_simps same_view_def Let_def)
  with n4(2) n5(2) n6(2) show ?thesis by (auto simp: same_view_def)
qed

section \<open>A cluster for the examples\<close>

text \<open>
  A state has the time, the balances, what the faucet has left, the messages that have run, the
  pinboard's transactions, the time they show, and the scalars the next keypairs get, and when each
  account's airdrop arrives, three seconds after the request; a keypair is its scalar. The fee is
  5000 lamports; only a sleep takes time. A blockhash is the minute it was given out in and is
  recent in that minute; a note shows 400 milliseconds after its transaction ran.
\<close>

record toy_net =
  tn_time :: nat
  tn_bal :: "pubkey \<Rightarrow> nat"
  tn_faucet :: nat
  tn_drops :: nat
  tn_ran :: "message set"
  tn_posts :: "(bytes \<times> string list) list"
  tn_shown :: nat
  tn_fresh :: "u8 list"
  tn_due :: "pubkey \<Rightarrow> nat"

abbreviation toy_blockhash :: "toy_net \<Rightarrow> bytes" where
  "toy_blockhash n \<equiv> [of_nat (tn_time n div 60000)]"

definition toy_run :: "instruction \<Rightarrow> (pubkey \<Rightarrow> nat) \<Rightarrow> ((pubkey \<Rightarrow> nat) \<times> string list) option" where
  "toy_run ix bal =
     (if program_id ix = [4] then
        (case run_post borsh_le (accounts ix) (drop 8 (data ix)) of
           (ns, Ok _) \<Rightarrow> Some (bal, map (note_log_line pin_crypto hex_text borsh_le) ns)
         | _ \<Rightarrow> None)
      else map_option (\<lambda>bal. (bal, [])) (toy_exec ix bal))"

definition toy_wallet :: "u8 wallet_lib" where
  "toy_wallet = \<lparr>keypair_pubkey = (\<lambda>w. public_bytes pin_crypto (signing_key_new pin_crypto w)),
     sign_with = (\<lambda>ixs k w bh.
       let m = \<lparr>msg_instructions = ixs, msg_payer = k, msg_blockhash = bh\<rparr> in
       Some \<lparr>tx_signatures = [sign pin_crypto (signing_key_new pin_crypto w) (take 32 bh)], tx_message = m\<rparr>),
     message_serialize = (\<lambda>m. take 32 (msg_blockhash m)),
     transaction_verify = (\<lambda>tx.
       \<exists>s. tx_signatures tx = [s] \<and>
         verifies pin_crypto (msg_payer (tx_message tx)) (take 32 (msg_blockhash (tx_message tx))) s),
     pubkey_from_str = (\<lambda>_. Some [4]),
     signature_from_str = (\<lambda>s. Some (map (\<lambda>c. of_nat (of_char c)) s)),
     ed25519_sign = (\<lambda>seed m. toy_sig)\<rparr>"

definition toy_send :: "transaction \<Rightarrow> toy_net \<Rightarrow> (string + bytes) \<times> toy_net" where
  "toy_send tx n =
     (let m = tx_message tx; k = msg_payer m; ixs = msg_instructions m in
      if m \<in> tn_ran n then (Inl ''AlreadyProcessed'', n)
      else if msg_blockhash m \<noteq> toy_blockhash n then (Inl ''BlockhashNotFound'', n)
      else if tn_bal n k < 5000 then (Inl ''insufficient funds'', n)
      else
        (case exec_all toy_run ixs ((tn_bal n)(k := tn_bal n k - 5000)) of
           None \<Rightarrow> (Inl ''instruction failed'', n)
         | Some (bal, ls) \<Rightarrow>
             (Inr (hd (tx_signatures tx)),
              (if \<exists>ix \<in> set ixs. program_id ix = [4]
               then n\<lparr>tn_bal := bal, tn_ran := insert m (tn_ran n),
                      tn_posts := (hd (tx_signatures tx), ls) # tn_posts n, tn_shown := tn_time n + 400\<rparr>
               else n\<lparr>tn_bal := bal, tn_ran := insert m (tn_ran n)\<rparr>))))"

definition toy_airdrop :: "pubkey \<Rightarrow> u64 \<Rightarrow> toy_net \<Rightarrow> (string + bytes) \<times> toy_net" where
  "toy_airdrop k l n =
     (if unat l + 5000 \<le> tn_faucet n
      then (Inr (replicate (tn_drops n) 0),
            n\<lparr>tn_bal := (tn_bal n)(k := tn_bal n k + unat l), tn_due := (tn_due n)(k := tn_time n + 3000),
              tn_faucet := tn_faucet n - unat l - 5000, tn_drops := Suc (tn_drops n)\<rparr>)
      else (Inl ''faucet is empty'', n))"

definition toy_cluster :: "(toy_net, u8) cluster" where
  "toy_cluster = \<lparr>clock = tn_time,
     sleep = (\<lambda>ms n. n\<lparr>tn_time := tn_time n + ms\<rparr>),
     keypair_new = (\<lambda>n. (hd (tn_fresh n), n\<lparr>tn_fresh := tl (tn_fresh n)\<rparr>)),
     request_airdrop = toy_airdrop,
     confirm_transaction = (\<lambda>s n.
       (Inr (length s < tn_drops n \<and> (\<forall>k. tn_due n k \<le> tn_time n)), n)),
     get_balance = (\<lambda>k n.
       (if tn_due n k \<le> tn_time n then Inr (of_nat (tn_bal n k)) else Inl ''account not found'', n)),
     latest_blockhash = (\<lambda>n. (Inr (toy_blockhash n), n)),
     send_and_confirm = toy_send,
     signatures_for_address = (\<lambda>a l n.
       (Inr (if tn_shown n \<le> tn_time n
             then map (\<lambda>(s, _). map (\<lambda>b. char_of (unat b)) s) (take l (tn_posts n)) else []), n)),
     transaction_logs = (\<lambda>s n.
       (Inr (if tn_shown n \<le> tn_time n then map_of (tn_posts n) s else None), n))\<rparr>"

definition toy_view :: "toy_net chain_view" where
  "toy_view = \<lparr>cv_bal = tn_bal, cv_due = tn_due, cv_faucet = tn_faucet,
     cv_drops = (\<lambda>n. {s. length s < tn_drops n \<and> set s \<subseteq> {0}}),
     cv_recent = (\<lambda>n bh. bh = toy_blockhash n), cv_ran = tn_ran, cv_posts = tn_posts, cv_shown = tn_shown\<rparr>"

lemma ticking_toy: "ticking toy_cluster"
  by (simp add: ticking_def toy_cluster_def toy_airdrop_def)

lemmas pin_crypto_laws = sha_table_laws [where t = "[(ascii ''global:post'', POST_DISCRIMINATOR),
    (ascii ''global:post_batch'', POST_BATCH_DISCRIMINATOR), (ascii ''event:Note'', NOTE_EVENT_DISCRIMINATOR)]",
  folded pin_crypto_def]

lemma wallet_laws_toy: "wallet_laws pin_crypto toy_solana toy_wallet"
proof -
  have "length (le_digits n m) = n" for n m by (induction n arbitrary: m) auto
  moreover have "min (length bs) 32 \<le> 73 + k" for bs :: bytes and k by simp
  ultimately show ?thesis
    using sign_new_verifies [OF pin_crypto_laws(1-3)]
    by (auto simp: wallet_laws_def toy_wallet_def sole_signer_def toy_solana_def toy_instruction_def
        u64_to_le_bytes_def Let_def)
qed

lemma toy_run_transfer:
  "toy_run (system_transfer toy_solana a b l) bal =
     map_option (\<lambda>bal. (bal, [])) (toy_exec (system_transfer toy_solana a b l) bal)"
proof -
  have "replicate 32 (0 :: u8) \<noteq> [4]" by (rule notI, drule arg_cong [where f = length]) simp
  then show ?thesis by (simp add: toy_run_def toy_solana_def toy_instruction_def)
qed

lemma toy_run_lines: "exec_all toy_run ixs bal = Some (bal', ls) \<Longrightarrow> \<forall>l \<in> set ls. strip_prefix PREFIX l \<noteq> None"
proof (induction ixs arbitrary: bal ls)
  case (Cons ix ixs)
  then obtain bal1 ls1 ls2 where step: "toy_run ix bal = Some (bal1, ls1)"
    "exec_all toy_run ixs bal1 = Some (bal', ls2)" "ls = ls1 @ ls2"
    by (auto simp: bind_eq_Some_conv)
  have "strip_prefix PREFIX (note_log_line C T B x) \<noteq> None" for C :: "(u8, toy_point, u8) crypto" and T B x
    unfolding note_log_line_def PREFIX_def strip_prefix_append by simp
  then have "\<forall>l \<in> set ls1. strip_prefix PREFIX l \<noteq> None"
    using step(1) by (auto simp: toy_run_def split: if_splits prod.splits outcome.splits)
  with Cons.IH [OF step(2)] step(3) show ?case by auto
qed simp

lemma runtime_laws_toy: "runtime_laws pin_crypto hex_text borsh_le toy_solana [4] toy_run"
proof -
  have "transfer_law toy_solana (\<lambda>ix bal. map_option fst (toy_run ix bal))"
    using transfer_law_toy by (simp add: transfer_law_def toy_run_transfer option.map_comp comp_def)
  moreover have "discriminator pin_crypto ''global'' ''post'' = POST_DISCRIMINATOR" "length POST_DISCRIMINATOR = 8"
    using pinboard_discriminators_pin by (simp_all add: pinboard_discriminators_def POST_DISCRIMINATOR_def)
  ultimately show ?thesis
    by (auto simp: runtime_laws_def toy_run_transfer) (simp add: toy_run_def)
qed

lemma signature_text: "map (\<lambda>c. of_nat (of_char c)) (map (\<lambda>b. char_of (unat b)) s) = (s :: bytes)"
proof -
  have "of_nat (of_char (char_of (unat b) :: char)) = b" for b :: u8
  proof -
    have "unat b < 2 ^ LENGTH(8)" by (rule unsigned_less)
    then show ?thesis by simp
  qed
  then show ?thesis by (simp add: comp_def)
qed

lemma toy_airdrop_law:
  assumes "unat l + 5000 \<le> tn_faucet n" "tn_bal n k = 0"
  shows "\<exists>sig n' d. toy_airdrop k l n = (Inr sig, n') \<and>
    tn_bal n' = (tn_bal n)(k := unat l) \<and> tn_due n' = (tn_due n)(k := d) \<and> d \<le> tn_time n' + 9000 \<and>
    tn_time n \<le> tn_time n' \<and> tn_faucet n \<le> tn_faucet n' + unat l + 5000 \<and>
    cv_drops toy_view n' = insert sig (cv_drops toy_view n) \<and>
    tn_ran n' = tn_ran n \<and> tn_posts n' = tn_posts n \<and> tn_shown n' = tn_shown n"
proof -
  have "{s. length s < Suc (tn_drops n) \<and> set s \<subseteq> {0}} =
      insert (replicate (tn_drops n) 0) {s. length s < tn_drops n \<and> set s \<subseteq> {0 :: u8}}"
    by (auto simp: less_Suc_eq replicate_eqI subset_eq)
  then show ?thesis using assms by (simp add: toy_airdrop_def toy_view_def) (rule exI [of _ "tn_time n + 3000"], simp)
qed

lemma toy_view_sel:
  "cv_bal toy_view = tn_bal" "cv_ran toy_view = tn_ran" "cv_posts toy_view = tn_posts"
  "cv_shown toy_view = tn_shown" "clock toy_cluster = tn_time" "send_and_confirm toy_cluster = toy_send"
  by (simp_all add: toy_view_def toy_cluster_def)

lemma toy_send_law:
  assumes "acceptable toy_cluster toy_wallet toy_view UNIV tx n"
    and "executes toy_run (tn_bal n) (tx_message tx) bal' ls"
  shows "\<exists>n' logs. toy_send tx n = (Inr (hd (tx_signatures tx)), n') \<and>
    tn_bal n' = bal' \<and> settled toy_cluster toy_view n' \<and> tn_ran n' = insert (tx_message tx) (tn_ran n) \<and>
    filter (\<lambda>l. strip_prefix PREFIX l \<noteq> None) logs = ls \<and>
    (if \<exists>ix \<in> set (msg_instructions (tx_message tx)). program_id ix = [4]
     then tn_posts n' = (hd (tx_signatures tx), logs) # tn_posts n \<and> tn_shown n' \<le> tn_time n' + 7000
     else tn_posts n' = tn_posts n \<and> tn_shown n' = tn_shown n)"
proof -
  have "filter (\<lambda>l. strip_prefix PREFIX l \<noteq> None) ls = ls"
    using toy_run_lines assms(2) unfolding executes_def by (simp only: filter_id_conv) blast
  with assms show ?thesis
    by (cases "\<exists>ix \<in> set (msg_instructions (tx_message tx)). program_id ix = [4]")
      (auto simp: toy_send_def Let_def acceptable_def executes_def toy_view_def settled_def toy_cluster_def)
qed

lemma cluster_laws_toy: "cluster_laws toy_cluster toy_wallet toy_view UNIV [4] toy_run"
proof -
  have "reading_laws toy_cluster toy_view UNIV"
    by (simp add: reading_laws_def toy_cluster_def toy_view_def same_view_def)
  moreover have "faucet_laws toy_cluster toy_view UNIV"
    using toy_airdrop_law
    by (auto simp: faucet_laws_def toy_view_def toy_cluster_def same_view_def settled_def)
  moreover have "log_laws toy_cluster toy_wallet toy_view [4]"
    using signature_text
    by (simp add: log_laws_def toy_cluster_def toy_view_def toy_wallet_def same_view_def split_def comp_def)
  moreover have "sending_laws toy_cluster toy_wallet toy_view UNIV [4] toy_run"
    unfolding sending_laws_def
  proof (intro conjI allI impI)
    fix tx :: transaction and n bal' ls
    assume "acceptable toy_cluster toy_wallet toy_view UNIV tx n"
      "executes toy_run (cv_bal toy_view n) (tx_message tx) bal' ls"
    then show "\<exists>n' logs. send_and_confirm toy_cluster tx n = (Inr (hd (tx_signatures tx)), n') \<and>
         cv_bal toy_view n' = bal' \<and> settled toy_cluster toy_view n' \<and>
         cv_ran toy_view n' = insert (tx_message tx) (cv_ran toy_view n) \<and>
         filter (\<lambda>l. strip_prefix PREFIX l \<noteq> None) logs = ls \<and>
         (if \<exists>ix \<in> set (msg_instructions (tx_message tx)). program_id ix = [4]
          then cv_posts toy_view n' = (hd (tx_signatures tx), logs) # cv_posts toy_view n \<and>
            cv_shown toy_view n' \<le> clock toy_cluster n' + 7000
          else cv_posts toy_view n' = cv_posts toy_view n \<and> cv_shown toy_view n' = cv_shown toy_view n)"
      unfolding toy_view_sel by (rule toy_send_law)
  next
    fix tx :: transaction and n
    assume "tx_message tx \<in> cv_ran toy_view n \<or> \<not> cv_recent toy_view n (msg_blockhash (tx_message tx))"
    then show "\<exists>e n'. send_and_confirm toy_cluster tx n = (Inl e, n') \<and> same_view toy_cluster toy_view n' n"
      by (auto simp: toy_view_def toy_cluster_def toy_send_def same_view_def Let_def)
  qed
  ultimately show ?thesis by (simp add: cluster_laws_def)
qed

section \<open>Properties\<close>

text \<open>C40: every wait of the program ends: on a clock that moves on, waiting for an airdrop returns or
  gives up with a panic, and scanning returns; it gives up only after its ten seconds, and a match
  it returns comes from a line that parses as a note which the recipient's own scan accepts.\<close>

theorem waits_end:
  assumes "ticking R"
  shows "(\<exists>r n'. airdrop_blocking R k l n = Some (r, n') \<and> (r = Ok () \<or> r = Panic))
    \<and> (\<exists>r n'. scan_pinboard_for_match C T B R W pid spend scan n = Some (r, n') \<and>
         (r = Ok None \<longrightarrow> clock R n + 10000 < clock R n') \<and>
         (\<forall>m. r = Ok (Some m) \<longrightarrow> (\<exists>line e. try_parse_note_log T B line = Ok (Some e) \<and>
            scan_note C spend scan (ev_ephemeral_pub e) (ev_view_tag e) = Ok (Some m))))"
proof (rule conjI)
  obtain r n1 where air: "request_airdrop R k l n = (r, n1)" by fastforce
  show "\<exists>r n'. airdrop_blocking R k l n = Some (r, n') \<and> (r = Ok () \<or> r = Panic)"
  proof (cases r)
    case (Inr sig)
    obtain r2 n2 where "confirm_loop R sig (clock R n1 + 30000) n1 = Some (r2, n2)" "r2 = Ok () \<or> r2 = Panic"
      using confirm_loop_ends [OF assms] by blast
    moreover obtain r3 n3 where "balance_loop R k l (clock R n2 + 10000) n2 = Some (r3, n3)" "r3 = Ok () \<or> r3 = Panic"
      using balance_loop_ends [OF assms] by blast
    ultimately show ?thesis using air Inr by (auto simp: airdrop_blocking_def action_simps)
  qed (use air in \<open>simp add: airdrop_blocking_def action_simps\<close>)
qed (unfold scan_pinboard_for_match_def, rule scan_loop_ends [OF assms])

theorem waits_end_witness:
  "\<exists>(n :: toy_net) r n'. tn_posts n = [] \<and>
     scan_pinboard_for_match pin_crypto hex_text borsh_le toy_cluster toy_wallet [4] toy_spend toy_scan n =
       Some (r, n')"
proof -
  let ?n = "\<lparr>tn_time = 0, tn_bal = \<lambda>_. 0, tn_faucet = 0, tn_drops = 0, tn_ran = {}, tn_posts = [],
    tn_shown = 0, tn_fresh = [], tn_due = \<lambda>_. 0\<rparr> :: toy_net"
  show ?thesis
    using waits_end [OF ticking_toy, of "[4]" 5 ?n pin_crypto hex_text borsh_le toy_wallet "[4]" toy_spend toy_scan]
    by (intro exI [of _ ?n]) auto
qed

text \<open>C3: the program does what it claims to. On a cluster that keeps its contract, where an airdrop
  arrives within nine seconds of its request and logs can be read seven seconds after a transaction
  is confirmed, with a faucet that has twenty SOL, a fresh pinboard and unused addresses, the run
  ends without a failed assertion: both transactions name a blockhash that is still recent and are
  accepted, the recipient has found the payment in the log, the signature with the recovered scalar
  verifies, the stealth address ends empty, and the recipient holds the airdrop and one SOL less
  the fee of the sweep.\<close>

theorem lifecycle_delivers:
  assumes "cluster_laws R W V own pid exec" "settled R V n" "wallet_laws C S W" "runtime_laws C T B S pid exec"
    and "bech32_laws L" "text_laws T" "borsh_laws B" "borsh_sizes B" "pinboard_discriminators C"
    and "group_laws C" "compress_laws C" "dh_laws C" "scalar_laws C"
    and "pubkey_from_str W PINBOARD_PROGRAM_ID = Some pid"
    and "derive_stealth_keys C (ed25519_sign W recipient_id_seed (ascii CANONICAL_MESSAGE_LOCALNET)) =
      Ok (spend, scan)"
    and "derive_payment C fill (from_keys C spend scan) (seed_from_u64 0xdeadbeef) = (Ok p, rng)"
    and "keypair_new R n = (sender, n1)" "keypair_new R n1 = (recipient, n2)"
    and "distinct [keypair_pubkey W sender, keypair_pubkey W recipient, stealth_address p]"
    and "{keypair_pubkey W sender, keypair_pubkey W recipient, stealth_address p} \<subseteq> own"
    and "\<forall>m \<in> cv_ran V n. msg_payer m \<noteq> keypair_pubkey W sender \<and> msg_payer m \<noteq> stealth_address p"
    and "cv_posts V n = []" "20000010000 \<le> cv_faucet V n" "cv_bal V n (stealth_address p) = 0"
    and "cv_bal V n (keypair_pubkey W sender) = 0" "cv_bal V n (keypair_pubkey W recipient) = 0"
  shows "\<exists>n'. lifecycle_main C L T B S seed_from_u64 fill R W n = Some (Ok 999995000, n') \<and>
    cv_bal V n' (keypair_pubkey W recipient) = 10999995000 \<and>
    cv_bal V n' (keypair_pubkey W sender) = 8999995000 \<and> cv_bal V n' (stealth_address p) = 0"
proof -
  let ?s = "keypair_pubkey W sender" and ?r = "keypair_pubkey W recipient" and ?a = "stealth_address p"
  have ne: "?s \<noteq> ?r" "?s \<noteq> ?a" "?r \<noteq> ?a" and own: "?s \<in> own" "?r \<in> own" "?a \<in> own"
    using assms(19,20) by auto
  note wf = derive_stealth_keys_wf [OF assms(15)]
  obtain n3 where n3: "set_up R W n = Some (Ok (sender, recipient), n3)"
    "cv_bal V n3 = (cv_bal V n)(?s := 10000000000, ?r := 10000000000)" "cv_posts V n3 = cv_posts V n"
    "cv_ran V n3 = cv_ran V n" "settled R V n3"
    using set_up_succeeds [OF assms(1,2,17,18) ne(1) own(1,2) assms(25,26,23)] by auto
  obtain t where t: "encode_bech32m L (from_keys C spend scan) = Ok t"
      "decode_bech32m L t = Ok (from_keys C spend scan)"
    using encode_printable [OF assms(5) from_keys_wf [OF assms(11,12) wf(2)]] by blast
  have keys: "recipient_keys C L W n3 = Some (Ok (spend, scan, t), n3)"
    using assms(15) t(1) by (simp add: recipient_keys_def action_simps Let_def)
  have pay: "sender_payment C L seed_from_u64 fill t n3 = Some (Ok p, n3)"
    using t(2) assms(16) by (simp add: sender_payment_def action_simps)
  have eph: "is_array 32 (ephemeral_pub p)"
    using assms(16) by (rule derive_payment_Ok) (simp add: dh_lawsD [OF assms(12)])
  obtain n4 m1 sig logs line where n4: "pay_and_post S B R W pid sender p n3 = Some (Ok (), n4)"
    "cv_bal V n4 = (cv_bal V n3)(?s := cv_bal V n3 ?s - 1000005000, ?a := 1000000000)"
    "cv_ran V n4 = insert m1 (cv_ran V n3)" "msg_payer m1 = ?s"
    "cv_posts V n4 = [(sig, logs)]" "cv_shown V n4 \<le> clock R n4 + 7000" "settled R V n4"
    "filter (\<lambda>l. strip_prefix PREFIX l \<noteq> None) logs = [line]"
    "try_parse_note_log T B line = Ok (Some \<lparr>ev_scheme_id = SCHEME_ID_V1, ev_ephemeral_pub = ephemeral_pub p,
                ev_view_tag = view_tag p, ev_metadata = []\<rparr>)"
    using pay_and_post_succeeds [OF assms(1,3,4,6-9) eph ne(2) own(1,3) _ n3(5)] n3 ne assms(21,22,24) by auto
  obtain m where m: "scan_note C spend scan (ephemeral_pub p) (view_tag p) = Ok (Some m)"
      "nm_stealth_address m = ?a" "compress C (point_mul C (nm_stealth_scalar m) (basepoint C)) = ?a"
    using scan_finds_match [OF assms(10-12) wf assms(16)] by blast
  obtain n5 where n5: "find_match C T B R W pid spend scan p n4 = Some (Ok m, n5)" "same_view R V n5 n4"
    using find_match_succeeds [OF assms(1) n4(5,8,9,6), where C = C and spend = spend and scan = scan, OF _ m(2)] m(1)
    by auto
  have bals: "cv_bal V n5 ?a = 1000000000" "cv_bal V n5 ?r = 10000000000" "cv_bal V n5 ?s = 8999995000"
    and ran: "\<forall>m \<in> cv_ran V n5. msg_payer m \<noteq> ?a"
    using n3(2,4) n4(2-4) n5(2) ne assms(21) by (auto simp: same_view_def)
  obtain n6 where n6: "sweep C S R W m p ?r n5 = Some (Ok 999995000, n6)"
    "cv_bal V n6 = (cv_bal V n5)(?r := cv_bal V n5 ?r + 999995000, ?a := 0)"
    using sweep_succeeds [OF assms(1,3,4,10,11,13) m(3) ne(3) own(2,3) ran same_view_settled [OF n5(2) n4(7)]] bals
    by auto
  have "lifecycle_main C L T B S seed_from_u64 fill R W n = Some (Ok 999995000, n6)"
    using assms(14) n3(1) keys pay n4(1) n5(1) n6(1)
    by (simp add: lifecycle_main_def action_simps)
  with n6(2) bals ne show ?thesis by auto
qed

text \<open>The derivation does not hash with SHA-256 directly.\<close>

lemma derive_stealth_keys_sha256:
  "derive_stealth_keys (C\<lparr>sha256 := f\<rparr>) sig = derive_stealth_keys C sig"
  by (simp add: derive_stealth_keys_def keys_from_secrets_def Let_def cong: if_cong)

lemma pin_keys: "derive_stealth_keys pin_crypto toy_sig = Ok (toy_spend, toy_scan)"
  using toy_keys by (simp add: pin_crypto_def sha_table_def derive_stealth_keys_sha256)

lemma pin_payment:
  "\<exists>p. derive_payment pin_crypto toy_fill (from_keys pin_crypto toy_spend toy_scan) 3 = (Ok p, 4)"
proof -
  have "toy_fill 3 32 = (3 # replicate 31 0, 4)" by (simp add: toy_fill_def)
  moreover have "\<exists>b \<in> set (diffie_hellman pin_crypto (static_secret_from pin_crypto (3 # replicate 31 0))
      (scan_public toy_scan)). b \<noteq> 0"
    by (simp add: pin_crypto_def sha_table_def toy_crypto_def toy_scan_def from_raw_def pad32_def)
  ultimately show ?thesis
    using derived_meta_is_payable [OF pin_crypto_laws(1,2) derive_stealth_keys_wf [OF pin_keys], of toy_fill 3]
    by blast
qed

text \<open>Two wallets whose addresses differ from each other's and from a given one.\<close>

lemma toy_wallets_differ:
  "\<exists>v w. distinct [keypair_pubkey toy_wallet v, keypair_pubkey toy_wallet w, a]"
proof -
  have inj: "keypair_pubkey toy_wallet v = pad32 [v, 0]" for v
    by (simp add: toy_wallet_def public_bytes_def signing_key_new_def pin_crypto_def sha_table_def toy_crypto_def Let_def)
  have "pad32 [v, 0] = pad32 [w, 0] \<longleftrightarrow> v = w" for v w :: u8 by (simp add: pad32_def)
  moreover have "(1 :: u8) \<noteq> 2" "(2 :: u8) \<noteq> 3" "(1 :: u8) \<noteq> 3" by simp_all
  ultimately show ?thesis unfolding inj distinct_length_2_or_more
    by (metis (no_types, lifting) distinct_singleton)
qed

theorem lifecycle_delivers_witness:
  "\<exists>(n :: toy_net) n'. tn_bal n = (\<lambda>_. 0) \<and>
     lifecycle_main pin_crypto plain_bech32 hex_text borsh_le toy_solana (\<lambda>_. 3) toy_fill toy_cluster toy_wallet n =
       Some (Ok 999995000, n')"
proof -
  obtain p where pay: "derive_payment pin_crypto toy_fill (from_keys pin_crypto toy_spend toy_scan) 3 = (Ok p, 4)"
    using pin_payment by blast
  obtain v w where vw: "distinct [keypair_pubkey toy_wallet v, keypair_pubkey toy_wallet w, stealth_address p]"
    using toy_wallets_differ by blast
  let ?n = "\<lparr>tn_time = 0, tn_bal = \<lambda>_. 0, tn_faucet = 20000010000, tn_drops = 0, tn_ran = {},
    tn_posts = [], tn_shown = 0, tn_fresh = [v, w], tn_due = \<lambda>_. 0\<rparr> :: toy_net"
  have new: "keypair_new toy_cluster ?n = (v, ?n\<lparr>tn_fresh := [w]\<rparr>)"
    "keypair_new toy_cluster (?n\<lparr>tn_fresh := [w]\<rparr>) = (w, ?n\<lparr>tn_fresh := []\<rparr>)"
    by (simp_all add: toy_cluster_def)
  have lib: "pubkey_from_str toy_wallet PINBOARD_PROGRAM_ID = Some [4]"
    "derive_stealth_keys pin_crypto (ed25519_sign toy_wallet recipient_id_seed (ascii CANONICAL_MESSAGE_LOCALNET)) =
      Ok (toy_spend, toy_scan)"
    using pin_keys by (simp_all add: toy_wallet_def)
  have "settled toy_cluster toy_view ?n" by (simp add: settled_def toy_view_def)
  from lifecycle_delivers [OF cluster_laws_toy this wallet_laws_toy runtime_laws_toy bech32_laws_plain
      text_laws_hex_text borsh_laws_le borsh_sizes_le pinboard_discriminators_pin pin_crypto_laws(1,2,4,3) lib,
      of toy_fill "\<lambda>_. 3", OF pay new vw]
  show ?thesis by - (rule exI [of _ ?n], auto simp: toy_view_def)
qed

end
