(* ===== verification/Announcer_Service.thy ===== *)
theory Announcer_Service
  imports Announce
begin

text \<open>
  \<open>crates/slnt-announcer/src/service.rs\<close>: decoding a wire request into a pinboard entry, and the
  bounded queue of pending announcements with its bounded status history.
\<close>

definition MAX_PENDING :: nat where
  "MAX_PENDING = 10000"
definition MAX_STATUSES :: nat where
  "MAX_STATUSES = 50000"

definition request_to_note_entry :: "text_lib \<Rightarrow> announce_request \<Rightarrow> (string, note_entry) outcome" where
  "request_to_note_entry T req =
     (if ar_scheme_id req = 0 then Err ''scheme_id must be non-zero''
      else
        obind (omap_err (\<lambda>e. ''ephemeral_pub base58: '' @ e) (b58_decode T (ar_ephemeral_pub req))) (\<lambda>r.
        if length r \<noteq> 32 then Err ''ephemeral_pub must be 32 bytes''
        else
          obind (if ar_metadata req = [] then Ok []
                 else omap_err (\<lambda>e. ''metadata base58: '' @ e) (b58_decode T (ar_metadata req)))
            (\<lambda>metadata.
              if ANNOUNCE_MAX_METADATA_LEN < length metadata
              then Err (''metadata exceeds '' @ show_nat ANNOUNCE_MAX_METADATA_LEN @ '' bytes'')
              else Ok \<lparr>ne_scheme_id = ar_scheme_id req, ne_ephemeral_pub = r,
                       ne_view_tag = ar_view_tag req, ne_metadata = metadata\<rparr>)))"

datatype batch_status = Pending | Confirmed string | Failed string

datatype queue_full = QueueFull

record announce_queue =
  pending :: "(u64 \<times> note_entry) list"
  next_id :: u64
  statuses :: "u64 \<rightharpoonup> batch_status"
  status_order :: "u64 list"
  max_pending :: nat
  max_statuses :: nat

definition with_caps :: "nat \<Rightarrow> nat \<Rightarrow> announce_queue" where
  "with_caps p s =
     \<lparr>pending = [], next_id = 0, statuses = Map.empty, status_order = [],
      max_pending = max p 1, max_statuses = max s 1\<rparr>"

definition queue_new :: announce_queue where
  "queue_new = with_caps MAX_PENDING MAX_STATUSES"

text \<open>The \<open>while\<close> loop of \<open>set_status\<close>.\<close>

function evict_statuses :: "announce_queue \<Rightarrow> announce_queue" where
  "evict_statuses q =
     (if max_statuses q < length (status_order q) then
        (case status_order q of
           old # rest \<Rightarrow>
             evict_statuses (q\<lparr>status_order := rest, statuses := (statuses q)(old := None)\<rparr>)
         | [] \<Rightarrow> q)
      else q)"
  by pat_completeness auto
termination
  by (relation "measure (\<lambda>q. length (status_order q))") auto

declare evict_statuses.simps [simp del]

definition set_status :: "u64 \<Rightarrow> batch_status \<Rightarrow> announce_queue \<Rightarrow> announce_queue" where
  "set_status i st q =
     (let q = (if statuses q i = None
               then evict_statuses (q\<lparr>status_order := status_order q @ [i]\<rparr>)
               else q)
      in q\<lparr>statuses := (statuses q)(i \<mapsto> st)\<rparr>)"

text \<open>\<open>next_id += 1\<close> panics on overflow, before anything is pushed.\<close>

definition enqueue :: "note_entry \<Rightarrow> announce_queue \<Rightarrow> (queue_full, u64) outcome \<times> announce_queue" where
  "enqueue entry q =
     (if max_pending q \<le> length (pending q) then (Err QueueFull, q)
      else
        (let i = next_id q in
         case add_u64 (next_id q) 1 :: (unit, u64) outcome of
           Ok n \<Rightarrow>
             (Ok i, set_status i Pending (q\<lparr>next_id := n, pending := pending q @ [(i, entry)]\<rparr>))
         | _ \<Rightarrow> (Panic, q)))"

definition take_pending :: "nat \<Rightarrow> announce_queue \<Rightarrow> (u64 \<times> note_entry) list \<times> announce_queue" where
  "take_pending m q =
     (let n = min m (length (pending q)) in
      (take n (pending q), q\<lparr>pending := drop n (pending q)\<rparr>))"

definition status :: "u64 \<Rightarrow> announce_queue \<Rightarrow> batch_status option" where
  "status i q = statuses q i"

definition pending_len :: "announce_queue \<Rightarrow> nat" where
  "pending_len q = length (pending q)"

section \<open>The pending queue is a FIFO\<close>

lemma evict_statuses_frame [simp]:
  "pending (evict_statuses q) = pending q" "next_id (evict_statuses q) = next_id q"
  "max_pending (evict_statuses q) = max_pending q" "max_statuses (evict_statuses q) = max_statuses q"
  by (induction q rule: evict_statuses.induct;
      subst evict_statuses.simps, auto split: list.splits)+

lemma set_status_frame [simp]:
  "pending (set_status i st q) = pending q" "next_id (set_status i st q) = next_id q"
  "max_pending (set_status i st q) = max_pending q" "max_statuses (set_status i st q) = max_statuses q"
  by (simp_all add: set_status_def Let_def)

lemma take_pending_eq:
  "take_pending m q = (take m (pending q), q\<lparr>pending := drop m (pending q)\<rparr>)"
  by (simp add: take_pending_def Let_def min_def)

definition has_room :: "announce_queue \<Rightarrow> bool" where
  "has_room q \<longleftrightarrow> length (pending q) < max_pending q \<and> unat (next_id q) + 1 < 2 ^ 64"

lemma enqueue_Ok:
  "has_room q \<Longrightarrow> enqueue e q =
     (Ok (next_id q), set_status (next_id q) Pending
        (q\<lparr>next_id := next_id q + 1, pending := pending q @ [(next_id q, e)]\<rparr>))"
  by (simp add: has_room_def enqueue_def add_u64_def Let_def)

lemma enqueue_cases:
  assumes "enqueue e q = (r, q')"
  obtains (ok) "has_room q" "r = Ok (next_id q)"
      "q' = set_status (next_id q) Pending
        (q\<lparr>next_id := next_id q + 1, pending := pending q @ [(next_id q, e)]\<rparr>)"
    | (full) "max_pending q \<le> length (pending q)" "r = Err QueueFull" "q' = q"
    | (overflow) "unat (next_id q) + 1 = 2 ^ 64" "r = Panic" "q' = q"
proof (cases "max_pending q \<le> length (pending q)")
  case True
  then show thesis using assms by (intro full) (simp_all add: enqueue_def)
next
  case room: False
  show thesis
  proof (cases "unat (next_id q) + 1 < 2 ^ 64")
    case True
    with room have "has_room q" by (simp add: has_room_def)
    then show thesis using assms by (intro ok) (simp_all add: enqueue_Ok)
  next
    case False
    then have "add_u64 (next_id q) 1 = (Panic :: (unit, u64) outcome)" by (simp add: add_u64_def)
    with room have "enqueue e q = (Panic, q)" by (simp add: enqueue_def)
    moreover have "unat (next_id q) + 1 = 2 ^ 64" using False unat_u64_less [of "next_id q"] by simp
    ultimately show thesis using assms by (intro overflow) simp_all
  qed
qed

interpretation announce_fifo: fifo
  "\<lambda>q. map snd (pending q)" has_room "\<lambda>q e. snd (enqueue e q)"
  "\<lambda>n q. (map snd (fst (take_pending n q)), snd (take_pending n q))"
  by unfold_locales (auto simp: enqueue_Ok take_pending_eq take_map drop_map)

section \<open>The status history is a window\<close>

definition history_ok :: "announce_queue \<Rightarrow> bool" where
  "history_ok q \<longleftrightarrow>
     1 \<le> max_statuses q \<and> length (status_order q) \<le> max_statuses q \<and>
     distinct (status_order q) \<and> dom (statuses q) = set (status_order q)"

lemma evict_statuses_done: "length (status_order q) \<le> max_statuses q \<Longrightarrow> evict_statuses q = q"
  by (subst evict_statuses.simps) simp

lemma history_known:
  "history_ok q \<Longrightarrow> i \<in> set (status_order q) \<Longrightarrow>
     set_status i st q = q\<lparr>statuses := (statuses q)(i \<mapsto> st)\<rparr>"
  by (auto simp: history_ok_def set_status_def Let_def)

lemma history_new:
  assumes "history_ok q" "i \<notin> set (status_order q)"
  shows "set_status i st q =
    q\<lparr>status_order := keep_last (max_statuses q) (status_order q @ [i]),
      statuses := ((statuses q) |` set (keep_last (max_statuses q) (status_order q @ [i])))(i \<mapsto> st)\<rparr>"
proof (cases "length (status_order q) < max_statuses q")
  case True
  then have "set_status i st q = q\<lparr>status_order := status_order q @ [i], statuses := (statuses q)(i \<mapsto> st)\<rparr>"
    using assms by (auto simp: set_status_def history_ok_def evict_statuses_done Let_def)
  moreover have "(statuses q) |` set (status_order q @ [i]) = statuses q"
  proof
    fix x
    show "((statuses q) |` set (status_order q @ [i])) x = statuses q x"
    proof (cases "x \<in> dom (statuses q)")
      case True
      then show ?thesis using assms(1) by (simp add: history_ok_def restrict_map_def)
    next
      case False
      then show ?thesis by (simp add: restrict_map_def domIff)
    qed
  qed
  ultimately show ?thesis using True by simp
next
  case False
  then obtain old rest where o: "status_order q = old # rest" "length (status_order q) = max_statuses q"
    using assms(1) by (cases "status_order q") (auto simp: history_ok_def)
  have "evict_statuses (q\<lparr>status_order := status_order q @ [i]\<rparr>) =
      q\<lparr>status_order := rest @ [i], statuses := (statuses q)(old := None)\<rparr>"
    using o by (subst evict_statuses.simps) (simp add: evict_statuses_done)
  moreover have "statuses q i = None" using assms by (auto simp: history_ok_def)
  ultimately have "set_status i st q = q\<lparr>status_order := rest @ [i],
      statuses := (statuses q)(old := None, i \<mapsto> st)\<rparr>"
    by (simp add: set_status_def)
  moreover have "(statuses q)(old := None) = (statuses q) |` set (rest @ [i])"
    using assms o \<open>statuses q i = None\<close>
    by (auto simp: history_ok_def restrict_map_def fun_eq_iff domIff set_eq_iff)
  moreover have "keep_last (max_statuses q) (status_order q @ [i]) = rest @ [i]"
    using o assms(1) keep_last_snoc_full [of "max_statuses q" "old # rest" i]
    by (simp add: history_ok_def)
  ultimately show ?thesis by simp
qed

lemma history_ok_set:
  assumes "history_ok q" shows "history_ok (set_status i st q)"
proof (cases "i \<in> set (status_order q)")
  case True
  with assms show ?thesis by (auto simp: history_known history_ok_def)
next
  case False
  let ?o = "keep_last (max_statuses q) (status_order q @ [i])"
  have "distinct (status_order q @ [i])" using assms False by (simp add: history_ok_def)
  then have "distinct ?o" unfolding keep_last_def by (rule distinct_drop)
  moreover have "i \<in> set ?o" using assms
    by (auto simp: keep_last_def history_ok_def)
  moreover have "set ?o \<subseteq> insert i (dom (statuses q))"
    using set_keep_last [of "max_statuses q" "status_order q @ [i]"] assms by (auto simp: history_ok_def)
  ultimately show ?thesis
    using assms by (auto simp: history_new [OF assms False] history_ok_def)
qed

section \<open>Properties\<close>

text \<open>Recording a status ends and forgets exactly the oldest: the eviction loop stops with the
  last \<open>max_statuses\<close> ids in order, and the ids it has dropped, and only those, have no status.\<close>

theorem eviction_ends:
  "status_order (evict_statuses q) = keep_last (max_statuses q) (status_order q)
   \<and> statuses (evict_statuses q) =
       statuses q |` (- set (take (length (status_order q) - max_statuses q) (status_order q)))"
proof (induction q rule: evict_statuses.induct)
  case (1 q)
  show ?case
  proof (cases "max_statuses q < length (status_order q)")
    case True
    then obtain old rest where o: "status_order q = old # rest" by (cases "status_order q") auto
    let ?q = "q\<lparr>status_order := rest, statuses := (statuses q)(old := None)\<rparr>"
    have "evict_statuses q = evict_statuses ?q"
      using True o by (subst evict_statuses.simps) simp
    moreover have "keep_last (max_statuses q) (old # rest) = keep_last (max_statuses q) rest"
      "take (length (old # rest) - max_statuses q) (old # rest) =
         old # take (length rest - max_statuses q) rest"
      using True o by (simp_all add: keep_last_def Suc_diff_le)
    moreover have "(\<lambda>a. if a = old then None else statuses q a) |` (- A) = statuses q |` (- insert old A)" for A
      by (auto simp: restrict_map_def fun_eq_iff)
    ultimately show ?thesis using "1.IH" [OF True o] o by (simp add: fun_upd_def)
  next
    case False
    then show ?thesis by (simp add: evict_statuses_done restrict_map_def)
  qed
qed

text \<open>An entry the pinboard program accepts.\<close>

definition postable :: "note_entry \<Rightarrow> bool" where
  "postable e \<longleftrightarrow>
     ne_scheme_id e \<noteq> 0 \<and> is_array 32 (ne_ephemeral_pub e) \<and> length (ne_metadata e) \<le> 64"

lemma postable_entry_ok: "postable e \<Longrightarrow> entry_ok e"
  by (simp add: postable_def entry_ok_def note_fields_ok_def)

lemma request_postable: "request_to_note_entry T req = Ok e \<Longrightarrow> postable e"
  by (auto simp: request_to_note_entry_def postable_def obind_Ok_iff ANNOUNCE_MAX_METADATA_LEN_def
      split: if_splits)

text \<open>The request that the SDK writes for an announcement.\<close>

lemma request_of_announcement:
  assumes "text_laws T"
  shows "request_to_note_entry T (from_announcement T a proof) =
      (if an_scheme_id a = 0 then Err ''scheme_id must be non-zero''
       else if length (an_ephemeral_pub a) \<noteq> 32 then Err ''ephemeral_pub must be 32 bytes''
       else if 64 < length (an_metadata a) then Err ''metadata exceeds 64 bytes''
       else Ok \<lparr>ne_scheme_id = an_scheme_id a, ne_ephemeral_pub = an_ephemeral_pub a,
                ne_view_tag = an_view_tag a, ne_metadata = an_metadata a\<rparr>)"
proof -
  have "show_nat 64 = ''64''" by (simp add: show_nat.simps dec_digit_def) code_simp
  then show ?thesis
    using text_lawsD(1) [OF assms] b58_encode_empty_iff [OF assms]
    by (auto simp: request_to_note_entry_def from_announcement_def ANNOUNCE_MAX_METADATA_LEN_def)
qed

text \<open>The service decodes what the SDK encodes: the wire request of an announcement becomes the
  pinboard entry with the announcement's fields, unless its scheme is zero, its key is not 32
  bytes or its metadata is over 64 bytes, and then the error names the first of these; and no
  request at all becomes an entry that the pinboard program would refuse.\<close>

theorem request_roundtrip:
  assumes "text_laws T"
  shows "request_to_note_entry T (from_announcement T a proof) =
      (if an_scheme_id a = 0 then Err ''scheme_id must be non-zero''
       else if length (an_ephemeral_pub a) \<noteq> 32 then Err ''ephemeral_pub must be 32 bytes''
       else if 64 < length (an_metadata a) then Err ''metadata exceeds 64 bytes''
       else Ok \<lparr>ne_scheme_id = an_scheme_id a, ne_ephemeral_pub = an_ephemeral_pub a,
                ne_view_tag = an_view_tag a, ne_metadata = an_metadata a\<rparr>)
    \<and> (\<forall>req e. request_to_note_entry T req = Ok e \<longrightarrow>
         ne_scheme_id e \<noteq> 0 \<and> snd (post_entries [to_pin e]) = Ok () \<and> entry_ok e)"
proof (rule conjI, rule request_of_announcement [OF assms])
  show "\<forall>req e. request_to_note_entry T req = Ok e \<longrightarrow>
      ne_scheme_id e \<noteq> 0 \<and> snd (post_entries [to_pin e]) = Ok () \<and> entry_ok e"
    using request_postable postable_entry_ok
    by (fastforce simp: postable_def to_pin_def post_entries_eq fits_def MAX_METADATA_LEN_def)
qed

theorem request_roundtrip_witness:
  "request_to_note_entry hex_text (from_announcement hex_text
      \<lparr>an_scheme_id = 1, an_ephemeral_pub = replicate 32 7, an_view_tag = 9, an_metadata = [3]\<rparr> None) =
   Ok \<lparr>ne_scheme_id = 1, ne_ephemeral_pub = replicate 32 7, ne_view_tag = 9, ne_metadata = [3]\<rparr>"
  by (simp add: request_roundtrip [OF text_laws_hex_text])

end
