(* ===== verification/Announcer.thy ===== *)
theory Announcer
  imports Announcer_Service
begin

text \<open>
  \<open>crates/slnt-announcer/src/main.rs\<close>: the two handlers and the publishing loop of the announcement
  service, and the service as a transition system. The queue is behind a lock that every
  operation takes; the publisher takes it twice per round, once to drain a batch and once to
  record the outcome, and in between the handlers run.
\<close>

definition MAX_BATCH :: nat where
  "MAX_BATCH = 40"

section \<open>Handlers\<close>

datatype status_code = BAD_REQUEST | NOT_FOUND | SERVICE_UNAVAILABLE

definition post_announce ::
  "text_lib \<Rightarrow> announce_request \<Rightarrow> announce_queue \<Rightarrow>
     (status_code \<times> string, announce_response) outcome \<times> announce_queue" where
  "post_announce T req q =
     (case omap_err (\<lambda>e. (BAD_REQUEST, e)) (request_to_note_entry T req) of
        Ok entry \<Rightarrow>
          (let (r, q') = enqueue entry q in
           (obind (omap_err (\<lambda>_. (SERVICE_UNAVAILABLE, ''announcement queue is full'')) r) (\<lambda>i.
              Ok \<lparr>rs_queued = True, rs_batch_id = show_nat (unat i), rs_expected_slot = 0\<rparr>), q'))
      | Err e \<Rightarrow> (Err e, q)
      | Panic \<Rightarrow> (Panic, q))"

fun to_wire_status :: "batch_status \<Rightarrow> announce_status" where
  "to_wire_status Pending = \<lparr>as_status = ''pending'', as_tx_signature = None\<rparr>"
| "to_wire_status (Confirmed sig) = \<lparr>as_status = ''confirmed'', as_tx_signature = Some sig\<rparr>"
| "to_wire_status (Failed _) = \<lparr>as_status = ''failed'', as_tx_signature = None\<rparr>"

definition get_status ::
  "string \<Rightarrow> announce_queue \<Rightarrow> (status_code \<times> string, announce_status) outcome" where
  "get_status batch_id q =
     obind (ok_or (BAD_REQUEST, ''invalid batch_id'') (parse_u64 batch_id)) (\<lambda>i.
     obind (ok_or (NOT_FOUND, ''unknown batch_id'') (status i q)) (\<lambda>s.
       Ok (to_wire_status s)))"

section \<open>The publisher\<close>

text \<open>
  \<open>RpcClient\<close> and \<open>Transaction::new_signed_with_payer\<close>, as they behave in one round. The latter
  panics where the payer's key alone does not sign for every signer of the instructions.
\<close>

record 'x rpc_lib =
  get_latest_blockhash :: "(string, bytes) outcome"
  new_signed_with_payer :: "instruction list \<Rightarrow> pubkey \<Rightarrow> bytes \<Rightarrow> 'x option"
  send_and_confirm_transaction :: "'x \<Rightarrow> (string, string) outcome"

definition rpc_laws :: "pubkey \<Rightarrow> 'x rpc_lib \<Rightarrow> bool" where
  "rpc_laws payer R \<longleftrightarrow>
     get_latest_blockhash R \<noteq> Panic \<and> (\<forall>tx. send_and_confirm_transaction R tx \<noteq> Panic) \<and>
     (\<forall>ixs bh. (\<forall>ix \<in> set ixs. \<forall>m \<in> set (accounts ix). is_signer m \<longrightarrow> am_pubkey m = payer) \<longrightarrow>
        new_signed_with_payer R ixs payer bh \<noteq> None)"

definition publish ::
  "borsh_lib \<Rightarrow> 'x rpc_lib \<Rightarrow> pubkey \<Rightarrow> pubkey \<Rightarrow> note_entry list \<Rightarrow> (string, string) outcome" where
  "publish B R pinboard payer entries =
     obind (build_post_batch_instruction B pinboard payer entries) (\<lambda>ix.
     obind (get_latest_blockhash R) (\<lambda>bh.
     obind (expect_some (new_signed_with_payer R [ix] payer bh)) (\<lambda>tx.
       send_and_confirm_transaction R tx)))"

fun set_statuses :: "u64 list \<Rightarrow> batch_status \<Rightarrow> announce_queue \<Rightarrow> announce_queue" where
  "set_statuses [] st q = q"
| "set_statuses (i # ids) st q = set_statuses ids st (set_status i st q)"

fun finish_batch ::
  "u64 list \<Rightarrow> (string, string) outcome \<Rightarrow> announce_queue \<Rightarrow> (unit, unit) outcome \<times> announce_queue" where
  "finish_batch ids (Ok sig) q = (Ok (), set_statuses ids (Confirmed sig) q)"
| "finish_batch ids (Err e) q = (Ok (), set_statuses ids (Failed e) q)"
| "finish_batch ids Panic q = (Panic, q)"

text \<open>One round of the loop, when no handler runs in between; and several.\<close>

definition publisher_round ::
  "borsh_lib \<Rightarrow> 'x rpc_lib \<Rightarrow> pubkey \<Rightarrow> pubkey \<Rightarrow> announce_queue \<Rightarrow>
     (unit, unit) outcome \<times> announce_queue" where
  "publisher_round B R pinboard payer q =
     (let (drained, q) = take_pending MAX_BATCH q in
      if drained = [] then (Ok (), q)
      else finish_batch (map fst drained) (publish B R pinboard payer (map snd drained)) q)"

fun publisher_loop ::
  "borsh_lib \<Rightarrow> pubkey \<Rightarrow> pubkey \<Rightarrow> 'x rpc_lib list \<Rightarrow> announce_queue \<Rightarrow>
     (unit, unit) outcome \<times> announce_queue" where
  "publisher_loop B pinboard payer [] q = (Ok (), q)"
| "publisher_loop B pinboard payer (R # Rs) q =
     (case publisher_round B R pinboard payer q of
        (Ok _, q') \<Rightarrow> publisher_loop B pinboard payer Rs q'
      | (r, q') \<Rightarrow> (r, q'))"

section \<open>The keypair file\<close>

text \<open>
  Reading the file, parsing its JSON and checking the key pair are parameters;
  \<open>to_string\<close> of a length is its decimal digits.
\<close>

definition read_keypair ::
  "(string \<Rightarrow> (string, string) outcome) \<Rightarrow> (string \<Rightarrow> (string, bytes) outcome) \<Rightarrow>
     (bytes \<Rightarrow> (string, 'k) outcome) \<Rightarrow> string \<Rightarrow> (string, 'k) outcome" where
  "read_keypair read_to_string from_str keypair_try_from path =
     obind (omap_err (\<lambda>e. ''read file: '' @ e) (read_to_string path)) (\<lambda>contents.
     obind (omap_err (\<lambda>e. ''parse JSON byte array: '' @ e) (from_str contents)) (\<lambda>nums.
       if length nums \<noteq> 64 then Err (''expected 64 bytes, got '' @ show_nat (length nums))
       else omap_err (\<lambda>e. ''invalid keypair bytes: '' @ e) (keypair_try_from nums)))"

section \<open>The service as a transition system\<close>

text \<open>
  The publisher waits, has a batch in flight, or has panicked. The last two fields are history
  variables, not part of the program: the entries accepted so far with their ids, and those a
  round has ended for with the outcome it had.
\<close>

datatype publisher = Idle | Sending "(u64 \<times> note_entry) list" | Dead

record announcer =
  queue :: announce_queue
  publisher :: publisher
  accepted :: "(u64 \<times> note_entry) list"
  settled :: "((u64 \<times> note_entry) \<times> batch_status) list"

definition announcer_start :: announcer where
  "announcer_start = \<lparr>queue = queue_new, publisher = Idle, accepted = [], settled = []\<rparr>"

fun in_flight :: "publisher \<Rightarrow> (u64 \<times> note_entry) list" where
  "in_flight (Sending b) = b"
| "in_flight _ = []"

fun result_status :: "(string, string) outcome \<Rightarrow> batch_status option" where
  "result_status (Ok sig) = Some (Confirmed sig)"
| "result_status (Err e) = Some (Failed e)"
| "result_status Panic = None"

inductive announcer_step ::
  "text_lib \<Rightarrow> borsh_lib \<Rightarrow> pubkey \<Rightarrow> pubkey \<Rightarrow> announcer \<Rightarrow> announcer \<Rightarrow> bool"
  for T B pinboard payer where
  step_post:
    "post_announce T req (queue s) = (Ok resp, q) \<Longrightarrow> request_to_note_entry T req = Ok e \<Longrightarrow>
     announcer_step T B pinboard payer s
       (s\<lparr>queue := q, accepted := accepted s @ [(next_id (queue s), e)]\<rparr>)"
| step_refuse:
    "post_announce T req (queue s) = (r, q) \<Longrightarrow> \<forall>resp. r \<noteq> Ok resp \<Longrightarrow>
     announcer_step T B pinboard payer s (s\<lparr>queue := q\<rparr>)"
| step_take:
    "publisher s = Idle \<Longrightarrow> take_pending MAX_BATCH (queue s) = (b, q) \<Longrightarrow> b \<noteq> [] \<Longrightarrow>
     announcer_step T B pinboard payer s (s\<lparr>queue := q, publisher := Sending b\<rparr>)"
| step_finish:
    "publisher s = Sending b \<Longrightarrow> rpc_laws payer (R :: bytes rpc_lib) \<Longrightarrow>
     publish B R pinboard payer (map snd b) = r \<Longrightarrow> result_status r = Some st \<Longrightarrow>
     announcer_step T B pinboard payer s
       (s\<lparr>queue := snd (finish_batch (map fst b) r (queue s)), publisher := Idle,
          settled := settled s @ map (\<lambda>x. (x, st)) b\<rparr>)"
| step_panic:
    "publisher s = Sending b \<Longrightarrow> rpc_laws payer (R :: bytes rpc_lib) \<Longrightarrow>
     publish B R pinboard payer (map snd b) = Panic \<Longrightarrow>
     announcer_step T B pinboard payer s (s\<lparr>publisher := Dead\<rparr>)"

section \<open>The invariant\<close>

text \<open>What the statuses should say, from the history: one entry per accepted id, in order.\<close>

definition unsettled :: "announcer \<Rightarrow> (u64 \<times> note_entry) list" where
  "unsettled s = in_flight (publisher s) @ pending (queue s)"

definition ledger :: "announcer \<Rightarrow> (u64 \<times> batch_status) list" where
  "ledger s = map (\<lambda>(x, st). (fst x, st)) (settled s) @ map (\<lambda>x. (fst x, Pending)) (unsettled s)"

definition log_inv :: "announcer \<Rightarrow> bool" where
  "log_inv s \<longleftrightarrow>
     accepted s = map fst (settled s) @ unsettled s \<and>
     map (unat \<circ> fst) (accepted s) = [0..<length (accepted s)] \<and>
     unat (next_id (queue s)) = length (accepted s) \<and>
     (\<forall>x \<in> set (accepted s). postable (snd x)) \<and> (\<forall>x \<in> set (settled s). snd x \<noteq> Pending)"

definition bounds_inv :: "announcer \<Rightarrow> bool" where
  "bounds_inv s \<longleftrightarrow>
     publisher s \<noteq> Dead \<and> max_pending (queue s) = MAX_PENDING \<and> max_statuses (queue s) = MAX_STATUSES \<and>
     length (pending (queue s)) \<le> MAX_PENDING \<and> length (in_flight (publisher s)) \<le> MAX_BATCH"

definition history_inv :: "announcer \<Rightarrow> bool" where
  "history_inv s \<longleftrightarrow>
     history_ok (queue s) \<and>
     status_order (queue s) = keep_last MAX_STATUSES (map fst (accepted s)) \<and>
     statuses (queue s) = map_of (ledger s) |` set (status_order (queue s))"

definition announcer_inv :: "announcer \<Rightarrow> bool" where
  "announcer_inv s \<longleftrightarrow> log_inv s \<and> bounds_inv s \<and> history_inv s"

lemma log_invD:
  assumes "log_inv s"
  shows "accepted s = map fst (settled s) @ unsettled s"
    and "map (unat \<circ> fst) (accepted s) = [0..<length (accepted s)]"
    and "unat (next_id (queue s)) = length (accepted s)"
    and "\<forall>x \<in> set (accepted s). postable (snd x)"
    and "\<forall>x \<in> set (settled s). snd x \<noteq> Pending"
  using assms unfolding log_inv_def by blast+

lemma log_inv_cong:
  "accepted t = accepted s \<Longrightarrow> map fst (settled t) @ unsettled t = map fst (settled s) @ unsettled s \<Longrightarrow>
     next_id (queue t) = next_id (queue s) \<Longrightarrow> \<forall>x \<in> set (settled t). snd x \<noteq> Pending \<Longrightarrow>
     log_inv s \<Longrightarrow> log_inv t"
proof -
  assume a: "accepted t = accepted s" "map fst (settled t) @ unsettled t = map fst (settled s) @ unsettled s"
    "next_id (queue t) = next_id (queue s)" "\<forall>x \<in> set (settled t). snd x \<noteq> Pending" "log_inv s"
  show "log_inv t"
    unfolding log_inv_def a(1-3) using log_invD [OF a(5)] a(4) by blast
qed

lemma log_inv_ids: "log_inv s \<Longrightarrow> distinct (map fst (accepted s))"
  unfolding log_inv_def by (metis distinct_map distinct_upt map_map)

lemma log_inv_next_fresh: "log_inv s \<Longrightarrow> next_id (queue s) \<notin> fst ` set (accepted s)"
proof
  assume inv: "log_inv s" and "next_id (queue s) \<in> fst ` set (accepted s)"
  then obtain x where x: "x \<in> set (accepted s)" "next_id (queue s) = fst x" by auto
  have "(unat \<circ> fst) x \<in> set (map (unat \<circ> fst) (accepted s))"
    unfolding set_map using x(1) by (rule imageI)
  moreover have "map (unat \<circ> fst) (accepted s) = [0..<length (accepted s)]"
    "unat (next_id (queue s)) = length (accepted s)"
    using log_invD [OF inv] by blast+
  ultimately show False using x(2) by (simp only: set_upt comp_apply) simp
qed

lemma fst_ledger: "log_inv s \<Longrightarrow> map fst (ledger s) = map fst (accepted s)"
  by (simp add: log_inv_def ledger_def comp_def split_beta)

lemma keep_last_covers: "length ys \<le> n \<Longrightarrow> set ys \<subseteq> set (keep_last n (xs @ ys))"
  by (auto simp: keep_last_def)

text \<open>The history is long enough for every id that is waiting or in flight.\<close>

lemma unsettled_remembered:
  assumes "announcer_inv s"
  shows "fst ` set (unsettled s) \<subseteq> set (status_order (queue s))"
proof -
  have "length (map fst (unsettled s)) \<le> MAX_STATUSES"
    using assms by (simp add: announcer_inv_def bounds_inv_def unsettled_def MAX_STATUSES_def
        MAX_PENDING_def MAX_BATCH_def)
  from keep_last_covers [OF this, of "map fst (map fst (settled s))"] show ?thesis
    using assms by (simp add: announcer_inv_def history_inv_def log_inv_def)
qed

lemma history_ok_frame: "history_ok (q\<lparr>next_id := n, pending := p\<rparr>) = history_ok q"
  by (simp add: history_ok_def)

lemma set_statuses_known:
  assumes "history_ok q" "set ids \<subseteq> set (status_order q)"
  shows "set_statuses ids st q = q\<lparr>statuses := \<lambda>i. if i \<in> set ids then Some st else statuses q i\<rparr>"
  using assms
proof (induction ids arbitrary: q)
  case (Cons i ids)
  have "set_status i st q = q\<lparr>statuses := (statuses q)(i \<mapsto> st)\<rparr>"
    using Cons.prems by (simp add: history_known)
  moreover have "history_ok (set_status i st q)" using Cons.prems(1) by (rule history_ok_set)
  ultimately show ?case using Cons.IH [of "set_status i st q"] Cons.prems(2)
    by (auto simp: fun_eq_iff)
qed simp

lemma announcer_inv_start: "announcer_inv announcer_start"
  by (simp add: announcer_inv_def log_inv_def bounds_inv_def history_inv_def announcer_start_def
      queue_new_def with_caps_def history_ok_def ledger_def unsettled_def MAX_PENDING_def MAX_STATUSES_def
      fun_eq_iff)

lemma post_announce_Ok:
  assumes "post_announce T req q = (Ok resp, q')"
  obtains e where "request_to_note_entry T req = Ok e" "has_room q"
    "resp = \<lparr>rs_queued = True, rs_batch_id = show_nat (unat (next_id q)), rs_expected_slot = 0\<rparr>"
    "q' = set_status (next_id q) Pending
       (q\<lparr>next_id := next_id q + 1, pending := pending q @ [(next_id q, e)]\<rparr>)"
proof -
  obtain e where e: "request_to_note_entry T req = Ok e"
    using assms by (cases "request_to_note_entry T req") (auto simp: post_announce_def)
  obtain r q'' where enq: "enqueue e q = (r, q'')" by (cases "enqueue e q")
  from enq show thesis
    by (cases rule: enqueue_cases) (use assms e enq that in \<open>auto simp: post_announce_def\<close>)
qed

lemma post_announce_not_Ok:
  "post_announce T req q = (r, q') \<Longrightarrow> \<forall>resp. r \<noteq> Ok resp \<Longrightarrow> q' = q"
proof -
  assume post: "post_announce T req q = (r, q')" and bad: "\<forall>resp. r \<noteq> Ok resp"
  show "q' = q"
  proof (cases "request_to_note_entry T req")
    case (Ok e)
    obtain r' q'' where enq: "enqueue e q = (r', q'')" by (cases "enqueue e q")
    from enq show ?thesis
      by (cases rule: enqueue_cases) (use post bad Ok enq in \<open>auto simp: post_announce_def\<close>)
  qed (use post in \<open>auto simp: post_announce_def\<close>)
qed

lemma inv_post:
  assumes inv: "announcer_inv s" and room: "has_room (queue s)" and e: "postable e"
  shows "announcer_inv (s\<lparr>queue := set_status (next_id (queue s)) Pending
       (queue s\<lparr>next_id := next_id (queue s) + 1,
          pending := pending (queue s) @ [(next_id (queue s), e)]\<rparr>),
     accepted := accepted s @ [(next_id (queue s), e)]\<rparr>)" (is "announcer_inv ?t")
  unfolding announcer_inv_def
proof (intro conjI)
  let ?q = "queue s"
  let ?i = "next_id ?q"
  let ?p = "?q\<lparr>next_id := ?i + 1, pending := pending ?q @ [(?i, e)]\<rparr>"
  have log: "log_inv s" and bounds: "bounds_inv s" and hist: "history_inv s"
    using inv by (simp_all add: announcer_inv_def)
  have "unat (?i + 1) = unat ?i + 1" using room unat_add_u64 [of ?i 1] by (simp add: has_room_def)
  then show log': "log_inv ?t" using log e by (auto simp: log_inv_def unsettled_def)
  show "bounds_inv ?t" using bounds room by (simp add: bounds_inv_def has_room_def)
  have fresh: "?i \<notin> fst ` set (accepted s)" using log by (rule log_inv_next_fresh)
  have ok: "history_ok ?p" using hist by (simp add: history_inv_def history_ok_frame)
  let ?o = "keep_last MAX_STATUSES (map fst (accepted s) @ [?i])"
  have new: "?i \<notin> set (status_order ?p)"
    using hist fresh set_keep_last [of MAX_STATUSES "map fst (accepted s)"] by (auto simp: history_inv_def)
  have q': "queue ?t = ?p\<lparr>status_order := ?o, statuses := (statuses ?q |` set ?o)(?i \<mapsto> Pending)\<rparr>"
    using history_new [OF ok new, of Pending] hist bounds
    by (simp add: history_inv_def bounds_inv_def keep_last_append_one)
  have fresh': "?i \<notin> fst ` set (ledger s)" using fresh fst_ledger [OF log] by (metis list.set_map)
  have ledger': "ledger ?t = ledger s @ [(?i, Pending)]" by (simp add: ledger_def unsettled_def)
  have mem: "?i \<in> set ?o" by (auto simp: keep_last_def MAX_STATUSES_def)
  have sub: "set ?o \<subseteq> insert ?i (set (status_order ?q))"
    using hist set_keep_last [of MAX_STATUSES "status_order ?q @ [?i]"]
    by (simp add: history_inv_def keep_last_append_one)
  have "statuses (queue ?t) x = (map_of (ledger ?t) |` set ?o) x" for x
  proof (cases "x = ?i")
    case True
    have "map_of (ledger s) ?i = None" using fresh' by (simp add: map_of_eq_None_iff)
    then show ?thesis using True mem unfolding q' ledger' by (simp add: map_add_def)
  next
    case False
    then have "x \<in> set ?o \<Longrightarrow> statuses ?q x = map_of (ledger s) x"
      using sub hist by (auto simp: history_inv_def)
    then show ?thesis using False unfolding q' ledger'
      by (cases "x \<in> set ?o") (simp_all add: map_add_def split: option.split)
  qed
  then have "statuses (queue ?t) = map_of (ledger ?t) |` set ?o" by (rule ext)
  moreover have "status_order (queue ?t) = ?o" unfolding q' by simp
  moreover have "history_ok (queue ?t)" using history_ok_set [OF ok, of ?i Pending] by simp
  ultimately show "history_inv ?t" unfolding history_inv_def by simp
qed

lemma unsettled_take:
  assumes "publisher s = Idle" "take_pending m (queue s) = (b, q)"
  shows "unsettled (s\<lparr>queue := q, publisher := Sending b\<rparr>) = unsettled s"
proof -
  have "b = take m (pending (queue s))" "pending q = drop m (pending (queue s))"
    using assms(2) by (auto simp: take_pending_eq)
  with assms(1) show ?thesis by (simp add: unsettled_def)
qed

lemma inv_take:
  assumes inv: "announcer_inv s" and "publisher s = Idle" "take_pending MAX_BATCH (queue s) = (b, q)"
  shows "announcer_inv (s\<lparr>queue := q, publisher := Sending b\<rparr>)"
proof -
  have q: "b = take MAX_BATCH (pending (queue s))" "q = queue s\<lparr>pending := drop MAX_BATCH (pending (queue s))\<rparr>"
    using assms(3) by (auto simp: take_pending_eq)
  note same = unsettled_take [OF assms(2,3)]
  have log: "log_inv s" and bounds: "bounds_inv s" and hist: "history_inv s"
    using inv by (simp_all add: announcer_inv_def)
  have "history_ok q = history_ok (queue s)" by (simp add: q(2) history_ok_def)
  then have "history_inv (s\<lparr>queue := q, publisher := Sending b\<rparr>)"
    using hist by (simp add: history_inv_def ledger_def same) (simp add: q)
  moreover have "bounds_inv (s\<lparr>queue := q, publisher := Sending b\<rparr>)"
    using bounds by (auto simp: bounds_inv_def q)
  moreover have "log_inv (s\<lparr>queue := q, publisher := Sending b\<rparr>)"
    using log_invD(5) [OF log] by (intro log_inv_cong [OF _ _ _ _ log]) (simp_all only: same, simp_all add: q)
  ultimately show ?thesis by (simp add: announcer_inv_def)
qed

lemma map_of_const: "map_of (map (\<lambda>x. (fst x, v)) b) i = (if i \<in> fst ` set b then Some v else None)"
  by (induction b) auto

lemma map_of_settle:
  assumes "fst ` set A \<inter> fst ` set b = {}"
  shows "map_of (A @ map (\<lambda>x. (fst x, v)) b @ P) i =
    (if i \<in> fst ` set b then Some v else map_of (A @ map (\<lambda>x. (fst x, w)) b @ P) i)"
proof (cases "i \<in> fst ` set b")
  case True
  with assms have "map_of A i = None" by (auto simp: map_of_eq_None_iff)
  with True show ?thesis by (simp add: map_add_def map_of_const)
qed (simp add: map_add_def map_of_const split: option.split)

lemma history_ok_set_statuses: "history_ok q \<Longrightarrow> history_ok (set_statuses ids st q)"
  by (induction ids arbitrary: q) (auto intro: history_ok_set)

text \<open>A batch whose ids are remembered ends with all of them at the given status.\<close>

lemma inv_finish:
  assumes inv: "announcer_inv s" and pub: "publisher s = Sending b" and st: "st \<noteq> Pending"
  shows "announcer_inv (s\<lparr>queue := set_statuses (map fst b) st (queue s), publisher := Idle,
       settled := settled s @ map (\<lambda>x. (x, st)) b\<rparr>)" (is "announcer_inv ?t")
proof -
  have log: "log_inv s" and hist: "history_inv s" and bounds: "bounds_inv s"
    using inv by (simp_all add: announcer_inv_def)
  have known: "set (map fst b) \<subseteq> set (status_order (queue s))"
    using unsettled_remembered [OF inv] pub by (auto simp: unsettled_def)
  have ok: "history_ok (queue s)" using hist by (simp add: history_inv_def)
  have q: "set_statuses (map fst b) st (queue s) =
      queue s\<lparr>statuses := \<lambda>i. if i \<in> fst ` set b then Some st else statuses (queue s) i\<rparr>"
    using set_statuses_known [OF ok known] by simp
  have log': "log_inv ?t" using log_invD(5) [OF log] pub st
    by (intro log_inv_cong [OF _ _ _ _ log]) (auto simp: unsettled_def q comp_def)
  have dist: "distinct (map fst (ledger s))" using log_inv_ids [OF log] fst_ledger [OF log] by simp
  let ?A = "map (\<lambda>(x, st). (fst x, st)) (settled s)"
  let ?P = "map (\<lambda>x. (fst x, Pending)) (pending (queue s))"
  have "ledger s = ?A @ map (\<lambda>x. (fst x, Pending)) b @ ?P"
    "ledger ?t = ?A @ map (\<lambda>x. (fst x, st)) b @ ?P"
    using pub by (simp_all add: ledger_def unsettled_def q)
  moreover from this dist have "fst ` set ?A \<inter> fst ` set b = {}"
    by (simp add: comp_def image_image Int_Un_distrib)
  ultimately have "map_of (ledger ?t) i = (if i \<in> fst ` set b then Some st else map_of (ledger s) i)" for i
    using map_of_settle [of ?A b st ?P i Pending] by (simp only:)
  then have ledger': "map_of (ledger ?t) i = (if i \<in> fst ` set b then Some st else map_of (ledger s) i)" for i .
  have "statuses (queue s) i = (if i \<in> set (status_order (queue s)) then map_of (ledger s) i else None)" for i
    using hist by (simp add: history_inv_def restrict_map_def)
  then have "(if i \<in> fst ` set b then Some st else statuses (queue s) i) =
      (if i \<in> set (status_order (queue s)) then map_of (ledger ?t) i else None)" for i
    using known by (auto simp: ledger')
  then have "statuses (queue ?t) =
      (\<lambda>i. if i \<in> set (status_order (queue s)) then map_of (ledger ?t) i else None)"
    unfolding announcer.select_convs announcer.update_convs announcer.ext_inject q by simp
  moreover have "status_order (queue ?t) = status_order (queue s)" by (simp add: q)
  ultimately have "statuses (queue ?t) = map_of (ledger ?t) |` set (status_order (queue ?t))"
    by (simp only: restrict_map_def)
  moreover have "history_ok (queue ?t)"
    using history_ok_set_statuses [OF ok] by simp
  moreover have "status_order (queue ?t) = keep_last MAX_STATUSES (map fst (accepted ?t))"
    using hist by (simp add: q history_inv_def)
  ultimately have "history_inv ?t" unfolding history_inv_def by blast
  moreover have "bounds_inv ?t" using bounds by (simp add: bounds_inv_def q)
  ultimately show ?thesis using log' by (simp add: announcer_inv_def)
qed

text \<open>A batch of valid entries is always built and signed; what the network answers is its own.\<close>

lemma build_batch_total:
  assumes "borsh_laws B" "length es < 2 ^ 32" "\<forall>e \<in> set es. entry_ok e"
  shows "\<exists>ix. build_post_batch_instruction B pinboard payer es = Ok ix \<and>
    accounts ix = [account_meta_new payer True]"
  using note_entries_roundtrip [OF assms] by (auto simp: build_post_batch_instruction_def)

lemma publish_not_Panic:
  fixes R :: "'a rpc_lib"
  assumes "borsh_laws B" "rpc_laws payer R" "length es < 2 ^ 32" "\<forall>e \<in> set es. entry_ok e"
  shows "publish B R pinboard payer es \<noteq> Panic"
proof -
  obtain ix where ix: "build_post_batch_instruction B pinboard payer es = (Ok ix :: (string, instruction) outcome)"
    "accounts ix = [account_meta_new payer True]"
    using build_batch_total [OF assms(1,3,4)] by blast
  then have "new_signed_with_payer R [ix] payer bh \<noteq> None" for bh
    using assms(2) by (simp add: rpc_laws_def)
  then have "expect_some (new_signed_with_payer R [ix] payer bh) \<noteq> (Panic :: (string, 'a) outcome)" for bh
    by (metis expect_some.simps(1) not_None_eq outcome.distinct(3))
  then show ?thesis
    using ix(1) assms(2) by (auto simp: publish_def rpc_laws_def obind_Panic_iff)
qed

lemma in_flight_ok:
  assumes "announcer_inv s" "publisher s = Sending b"
  shows "length (map snd b) < 2 ^ 32" "\<forall>e \<in> set (map snd b). entry_ok e"
proof -
  show "length (map snd b) < 2 ^ 32"
    using assms by (simp add: announcer_inv_def bounds_inv_def MAX_BATCH_def)
  have "set b \<subseteq> set (accepted s)"
    using assms log_invD(1) [of s] by (auto simp: announcer_inv_def unsettled_def)
  then show "\<forall>e \<in> set (map snd b). entry_ok e"
    using assms log_invD(4) [of s] postable_entry_ok by (auto simp: announcer_inv_def)
qed

lemma finish_batch_status:
  "result_status r = Some st \<Longrightarrow> finish_batch ids r q = (Ok (), set_statuses ids st q) \<and> st \<noteq> Pending"
  by (cases r) auto

lemma announcer_inv_step:
  assumes "borsh_laws B" "announcer_inv s" "announcer_step T B pinboard payer s t"
  shows "announcer_inv t"
  using assms(3)
proof cases
  case (step_post req resp q e)
  from step_post(2) show ?thesis
  proof (cases rule: post_announce_Ok)
    case (1 e')
    with step_post(3) show ?thesis unfolding step_post(1)
      using inv_post [OF assms(2) 1(2) request_postable [OF 1(1)]] by simp
  qed
next
  case (step_refuse req r q)
  then have "q = queue s" using post_announce_not_Ok by blast
  then show ?thesis using assms(2) step_refuse(1) by simp
next
  case (step_take b q)
  then show ?thesis using inv_take [OF assms(2)] by simp
next
  case (step_finish b R r st)
  then show ?thesis
    using inv_finish [OF assms(2) step_finish(2)] finish_batch_status [OF step_finish(5)] by simp
next
  case (step_panic b R)
  then show ?thesis
    using publish_not_Panic [OF assms(1) step_panic(3) in_flight_ok [OF assms(2) step_panic(2)]] by simp
qed

interpretation announcer: invariant_system
  announcer_start "announcer_step T B pinboard payer" "\<lambda>s. borsh_laws B \<longrightarrow> announcer_inv s" for T B pinboard payer
  by unfold_locales (auto simp: announcer_inv_start intro: announcer_inv_step)

lemma reachable_announcer_inv:
  "borsh_laws B \<Longrightarrow> reachable announcer_start (announcer_step T B pinboard payer) s \<Longrightarrow> announcer_inv s"
  using announcer.reachable_inv by blast

section \<open>Statuses and rounds\<close>

lemma status_ledger:
  assumes "announcer_inv s" "(i, st) \<in> set (ledger s)"
  shows "status i (queue s) = (if i \<in> set (status_order (queue s)) then Some st else None)"
proof -
  have "distinct (map fst (ledger s))"
    using assms log_inv_ids fst_ledger by (simp add: announcer_inv_def)
  then have "map_of (ledger s) i = Some st" using assms(2) by (simp add: map_of_is_SomeI)
  then show ?thesis using assms(1) by (simp add: announcer_inv_def history_inv_def status_def)
qed

lemma status_None_iff:
  assumes "announcer_inv s"
  shows "status i (queue s) = None \<longleftrightarrow> i \<notin> set (status_order (queue s))"
proof (cases "i \<in> set (status_order (queue s))")
  case True
  then have "i \<in> set (map fst (ledger s))"
    using assms by (auto simp: announcer_inv_def history_inv_def fst_ledger keep_last_def dest: in_set_dropD)
  then show ?thesis using True status_ledger [OF assms] by auto
next
  case False
  then show ?thesis using assms by (simp add: announcer_inv_def history_inv_def status_def)
qed

lemma status_SomeD:
  assumes "announcer_inv s" "status i (queue s) = Some st"
  shows "(i, st) \<in> set (ledger s)" "i \<in> set (status_order (queue s))"
  using assms
  by (auto simp: announcer_inv_def history_inv_def status_def restrict_map_def split: if_splits
      dest: map_of_SomeD)

lemma remembered_iff:
  assumes "announcer_inv s"
  shows "i \<in> set (status_order (queue s)) \<longleftrightarrow>
    unat i < length (accepted s) \<and> length (accepted s) \<le> unat i + 50000"
proof -
  let ?n = "length (accepted s)"
  have log: "log_inv s" using assms by (simp add: announcer_inv_def)
  have "map unat (status_order (queue s)) = drop (?n - MAX_STATUSES) (map (unat \<circ> fst) (accepted s))"
    using assms by (simp add: announcer_inv_def history_inv_def keep_last_def drop_map)
  then have "map unat (status_order (queue s)) = [?n - MAX_STATUSES..<?n]"
    using log_invD(2) [OF log] by simp
  then have set: "unat ` set (status_order (queue s)) = {?n - MAX_STATUSES..<?n}"
    by (metis set_map set_upt)
  have "i \<in> set (status_order (queue s)) \<longleftrightarrow> unat i \<in> unat ` set (status_order (queue s))"
    by (auto simp: word_unat_eq_iff [symmetric])
  also have "\<dots> \<longleftrightarrow> unat i < ?n \<and> ?n \<le> unat i + 50000" unfolding set by (auto simp: MAX_STATUSES_def)
  finally show ?thesis .
qed

text \<open>What the endpoint answers for an announcement that waits and for one that is settled.\<close>

lemma get_status_show_nat:
  "get_status (show_nat (unat i)) q =
     (case status i q of Some st \<Rightarrow> Ok (to_wire_status st) | None \<Rightarrow> Err (NOT_FOUND, ''unknown batch_id''))"
  by (simp add: get_status_def parse_u64_show_nat split: option.split)

lemma get_status_unsettled:
  assumes "announcer_inv s" "x \<in> set (unsettled s)"
  shows "get_status (show_nat (unat (fst x))) (queue s) = Ok (to_wire_status Pending)"
proof -
  have "(fst x, Pending) \<in> set (ledger s)" using assms(2) by (auto simp: ledger_def split_beta)
  moreover have "fst x \<in> set (status_order (queue s))" using unsettled_remembered [OF assms(1)] assms(2) by blast
  ultimately show ?thesis using status_ledger [OF assms(1)] by (simp add: get_status_show_nat)
qed

lemma get_status_settled:
  assumes "announcer_inv s" "(x, st) \<in> set (settled s)"
  shows "st \<noteq> Pending"
    and "get_status (show_nat (unat (fst x))) (queue s) =
      (if length (accepted s) \<le> unat (fst x) + 50000 then Ok (to_wire_status st)
       else Err (NOT_FOUND, ''unknown batch_id''))"
proof -
  have log: "log_inv s" using assms(1) by (simp add: announcer_inv_def)
  show "st \<noteq> Pending" using log_invD(5) [OF log] assms(2) by force
  have "x \<in> set (accepted s)" using assms(2) log_invD(1) [OF log] by force
  then have "(unat \<circ> fst) x \<in> set (map (unat \<circ> fst) (accepted s))" unfolding set_map by (rule imageI)
  then have "unat (fst x) < length (accepted s)" unfolding log_invD(2) [OF log] by simp
  moreover have "(fst x, st) \<in> set (ledger s)" using assms(2) by (force simp: ledger_def)
  ultimately show "get_status (show_nat (unat (fst x))) (queue s) =
      (if length (accepted s) \<le> unat (fst x) + 50000 then Ok (to_wire_status st)
       else Err (NOT_FOUND, ''unknown batch_id''))"
    using status_ledger [OF assms(1)] remembered_iff [OF assms(1)] by (simp add: get_status_show_nat)
qed

text \<open>What is accepted stays accepted, in order.\<close>

lemma accepted_grows:
  assumes "borsh_laws B" "announcer_inv s" "(announcer_step T B pinboard payer)\<^sup>*\<^sup>* s t"
  shows "prefix (accepted s) (accepted t) \<and> announcer_inv t"
proof -
  have "prefix (accepted a) (accepted b)" if "announcer_step T B pinboard payer a b" for a b
    using that by cases simp_all
  then have "prefix (accepted s) (accepted t) \<and> (borsh_laws B \<longrightarrow> announcer_inv t)"
    using assms(2,3) by (intro announcer.reachable_from) (auto intro: prefix_order.trans)
  with assms(1) show ?thesis by blast
qed

text \<open>A round without interleaving is two steps of the system.\<close>

lemma round_steps:
  fixes R :: "bytes rpc_lib"
  assumes B: "borsh_laws B" and R: "rpc_laws payer R" and inv: "announcer_inv s" and idle: "publisher s = Idle"
  shows "\<exists>t st. publisher_round B R pinboard payer (queue s) = (Ok (), queue t) \<and>
    (announcer_step T B pinboard payer)\<^sup>*\<^sup>* s t \<and> announcer_inv t \<and> publisher t = Idle \<and>
    accepted t = accepted s \<and> pending (queue t) = drop MAX_BATCH (pending (queue s)) \<and>
    settled t = settled s @ map (\<lambda>x. (x, st)) (take MAX_BATCH (pending (queue s))) \<and>
    (pending (queue s) = [] \<or>
      result_status (publish B R pinboard payer (map snd (take MAX_BATCH (pending (queue s))))) = Some st)"
proof (cases "pending (queue s) = []")
  case True
  then have "publisher_round B R pinboard payer (queue s) = (Ok (), queue s)"
    by (simp add: publisher_round_def take_pending_eq)
  with True inv idle show ?thesis by (intro exI [of _ s]) simp
next
  case False
  obtain b q where bq: "take_pending MAX_BATCH (queue s) = (b, q)" by (cases "take_pending MAX_BATCH (queue s)")
  then have b: "b = take MAX_BATCH (pending (queue s))" and q: "pending q = drop MAX_BATCH (pending (queue s))"
    by (auto simp: take_pending_eq)
  then have ne: "b \<noteq> []" using False by (simp add: MAX_BATCH_def)
  let ?m = "s\<lparr>queue := q, publisher := Sending b\<rparr>"
  have step1: "announcer_step T B pinboard payer s ?m" using idle bq ne by (rule step_take)
  have inv_m: "announcer_inv ?m" using B inv step1 by (rule announcer_inv_step)
  define r where "r = publish B R pinboard payer (map snd b)"
  have "r \<noteq> Panic" unfolding r_def
    using in_flight_ok [OF inv_m, of b] by (intro publish_not_Panic [OF B R]) simp_all
  then obtain st where st: "result_status r = Some st" by (cases r) auto
  let ?t = "?m\<lparr>queue := snd (finish_batch (map fst b) r (queue ?m)), publisher := Idle,
    settled := settled ?m @ map (\<lambda>x. (x, st)) b\<rparr>"
  have step2: "announcer_step T B pinboard payer ?m ?t"
    using R r_def st by (intro step_finish) simp_all
  have fin: "finish_batch (map fst b) r q = (Ok (), set_statuses (map fst b) st q)"
    using finish_batch_status [OF st] by simp
  have frame: "pending (set_statuses ids st q) = pending q" for ids
    by (induction ids arbitrary: q) simp_all
  show ?thesis
  proof (intro exI conjI)
    show "publisher_round B R pinboard payer (queue s) = (Ok (), queue ?t)"
      using bq ne fin by (simp add: publisher_round_def r_def [symmetric])
    show "(announcer_step T B pinboard payer)\<^sup>*\<^sup>* s ?t" using step1 step2 by simp
    show "announcer_inv ?t" using B inv_m step2 by (rule announcer_inv_step)
    show "pending (queue ?t) = drop MAX_BATCH (pending (queue s))" using q fin frame by simp
    show "settled ?t = settled s @ map (\<lambda>x. (x, st)) (take MAX_BATCH (pending (queue s)))" by (simp add: b)
    show "pending (queue s) = [] \<or>
      result_status (publish B R pinboard payer (map snd (take MAX_BATCH (pending (queue s))))) = Some st"
      using st by (simp add: r_def b)
  qed simp_all
qed

lemma loop_steps:
  fixes Rs :: "bytes rpc_lib list"
  assumes "borsh_laws B" "\<forall>R \<in> set Rs. rpc_laws payer R" "announcer_inv s" "publisher s = Idle"
  shows "\<exists>t. publisher_loop B pinboard payer Rs (queue s) = (Ok (), queue t) \<and>
    announcer_inv t \<and> publisher t = Idle \<and> accepted t = accepted s \<and>
    pending (queue t) = drop (MAX_BATCH * length Rs) (pending (queue s)) \<and> prefix (settled s) (settled t)"
  using assms(2-4)
proof (induction Rs arbitrary: s)
  case Nil
  then show ?case by auto
next
  case (Cons R Rs)
  then have "rpc_laws payer R" by simp
  from round_steps [OF assms(1) this Cons.prems(2,3)] obtain m where
    m: "publisher_round B R pinboard payer (queue s) = (Ok (), queue m)" "announcer_inv m"
      "publisher m = Idle" "accepted m = accepted s"
      "pending (queue m) = drop MAX_BATCH (pending (queue s))" "prefix (settled s) (settled m)"
    by (metis prefixI)
  then obtain t where "publisher_loop B pinboard payer Rs (queue m) = (Ok (), queue t)"
      "announcer_inv t" "publisher t = Idle" "accepted t = accepted m"
      "pending (queue t) = drop (MAX_BATCH * length Rs) (pending (queue m))" "prefix (settled m) (settled t)"
    using Cons.IH [of m] Cons.prems(1) by auto
  with m show ?case by (auto simp: add.commute intro: prefix_order.trans)
qed

text \<open>A state for the examples: \<open>n\<close> announcements have been accepted and wait.\<close>

definition sample_request :: announce_request where
  "sample_request = from_announcement hex_text
     \<lparr>an_scheme_id = 1, an_ephemeral_pub = replicate 32 7, an_view_tag = 9, an_metadata = [3]\<rparr> None"

lemma sample_request_Ok: "\<exists>e. request_to_note_entry hex_text sample_request = Ok e"
  using text_lawsD(1) [OF text_laws_hex_text] b58_encode_empty_iff [OF text_laws_hex_text]
  by (simp add: sample_request_def request_to_note_entry_def from_announcement_def
      ANNOUNCE_MAX_METADATA_LEN_def)

lemma reachable_waiting:
  assumes "n \<le> 10000"
  shows "\<exists>s. reachable announcer_start (announcer_step hex_text borsh_le [1] [2]) s \<and>
    publisher s = Idle \<and> length (pending (queue s)) = n \<and> length (accepted s) = n"
  using assms
proof (induction n)
  case 0
  show ?case
    by (intro exI [of _ announcer_start]) (simp add: reachable_start announcer_start_def queue_new_def with_caps_def)
next
  case (Suc n)
  then obtain s where s: "reachable announcer_start (announcer_step hex_text borsh_le [1] [2]) s"
    "publisher s = Idle" "length (pending (queue s)) = n" "length (accepted s) = n" by auto
  obtain e where e: "request_to_note_entry hex_text sample_request = Ok e" using sample_request_Ok by blast
  have inv: "announcer_inv s" using reachable_announcer_inv [OF borsh_laws_le s(1)] .
  then have "has_room (queue s)"
    using s Suc.prems log_invD(3) [of s] by (simp add: announcer_inv_def bounds_inv_def has_room_def MAX_PENDING_def)
  then obtain resp q where post: "post_announce hex_text sample_request (queue s) = (Ok resp, q)"
      "pending q = pending (queue s) @ [(next_id (queue s), e)]"
    using e by (auto simp: post_announce_def enqueue_Ok)
  have "reachable announcer_start (announcer_step hex_text borsh_le [1] [2])
      (s\<lparr>queue := q, accepted := accepted s @ [(next_id (queue s), e)]\<rparr>)"
    using s(1) step_post [OF post(1) e] by (rule reachable_step)
  with s post show ?case
    by (intro exI [of _ "s\<lparr>queue := q, accepted := accepted s @ [(next_id (queue s), e)]\<rparr>"]) simp
qed

definition toy_rpc :: "bytes rpc_lib" where
  "toy_rpc = \<lparr>get_latest_blockhash = Ok [],
     new_signed_with_payer = (\<lambda>ixs payer bh. Some (concat (map data ixs))),
     send_and_confirm_transaction =
       (\<lambda>tx. if 1232 < length tx then Err ''transaction too large'' else Ok ''signature'')\<rparr>"

lemma rpc_laws_toy: "rpc_laws payer toy_rpc"
  by (simp add: rpc_laws_def toy_rpc_def)

section \<open>Properties\<close>

text \<open>C27: whatever the interleaving of requests with the publisher, no accepted announcement is lost,
  duplicated or reordered: those accepted are those settled, then those in flight, then those
  waiting; their ids count up from 0; at most 10000 wait and 40 are in flight; and the publisher
  never panics.\<close>

theorem announcer_fifo:
  assumes "borsh_laws B" "reachable announcer_start (announcer_step T B pinboard payer) s"
  shows "accepted s = map fst (settled s) @ in_flight (publisher s) @ pending (queue s)
    \<and> map (\<lambda>x. unat (fst x)) (accepted s) = [0..<length (accepted s)]
    \<and> length (pending (queue s)) \<le> 10000 \<and> length (in_flight (publisher s)) \<le> 40
    \<and> publisher s \<noteq> Dead"
proof -
  have inv: "announcer_inv s" using assms by (rule reachable_announcer_inv)
  then have "log_inv s" "bounds_inv s" by (simp_all add: announcer_inv_def)
  then show ?thesis
    using log_invD(1,2) [of s] by (simp add: bounds_inv_def MAX_PENDING_def MAX_BATCH_def unsettled_def comp_def)
qed

theorem announcer_fifo_witness:
  "\<exists>s :: announcer. length (accepted s) = 3 \<and> map (\<lambda>x. unat (fst x)) (accepted s) = [0, 1, 2] \<and> publisher s \<noteq> Dead"
proof -
  have "(3::nat) \<le> 10000" by simp
  then obtain s where s: "reachable announcer_start (announcer_step hex_text borsh_le [1] [2]) s"
    "length (accepted s) = 3" using reachable_waiting by blast
  have "map (\<lambda>x. unat (fst x)) (accepted s) = [0..<length (accepted s)]" "publisher s \<noteq> Dead"
    using announcer_fifo [OF borsh_laws_le s(1)] by blast+
  moreover have "[0..<3] = [0::nat, 1, 2]" by (simp add: upt_rec)
  ultimately show ?thesis using s(2) by metis
qed

text \<open>C28: the status endpoint tells the truth: for the id of an announcement that is waiting or in
  flight it answers pending, for one whose round has ended the outcome of that round, as long as
  fewer than 50000 announcements came after it, and then that the id is unknown, as it does for an
  id never given out.\<close>

theorem status_truthful:
  fixes i :: u64
  assumes "borsh_laws B" "reachable announcer_start (announcer_step T B pinboard payer) s"
  shows "(x \<in> set (in_flight (publisher s) @ pending (queue s)) \<longrightarrow>
           get_status (show_nat (unat (fst x))) (queue s) = Ok (to_wire_status Pending))
    \<and> ((x, st) \<in> set (settled s) \<longrightarrow> st \<noteq> Pending \<and>
         get_status (show_nat (unat (fst x))) (queue s) =
           (if length (accepted s) \<le> unat (fst x) + 50000 then Ok (to_wire_status st)
            else Err (NOT_FOUND, ''unknown batch_id'')))
    \<and> (length (accepted s) \<le> unat i \<longrightarrow>
         get_status (show_nat (unat i)) (queue s) = Err (NOT_FOUND, ''unknown batch_id''))"
proof -
  have inv: "announcer_inv s" using assms by (rule reachable_announcer_inv)
  have "status i (queue s) = None" if "length (accepted s) \<le> unat i"
    using that remembered_iff [OF inv, of i] inv
    by (simp add: announcer_inv_def history_inv_def status_def)
  then show ?thesis
    using get_status_unsettled [OF inv, of x] get_status_settled [OF inv, of x st]
    by (auto simp: unsettled_def get_status_show_nat [of i])
qed

theorem status_truthful_witness:
  "\<exists>s :: announcer. length (accepted s) = 3 \<and>
     get_status ''7'' (queue s) = Err (NOT_FOUND, ''unknown batch_id'')"
proof -
  have "(3::nat) \<le> 10000" by simp
  then obtain s where s: "reachable announcer_start (announcer_step hex_text borsh_le [1] [2]) s"
    "length (accepted s) = 3" using reachable_waiting by blast
  have "show_nat (unat (7 :: u64)) = ''7''" by (simp add: show_nat.simps dec_digit_def) code_simp
  then have "get_status ''7'' (queue s) = Err (NOT_FOUND, ''unknown batch_id'')"
    using status_truthful [OF borsh_laws_le s(1), where i = 7] s(2) by simp
  with s(2) show ?thesis by blast
qed

text \<open>C31: the publisher drains the queue: with no new requests, one round for every 40 waiting
  announcements (or more) ends with nothing waiting and every announcement that waited at a final
  status, whatever the network answers; and no id, of the waiting or of those answered before, is
  forgotten or gets another answer: an id that was Pending has a final status, every other id has
  the status it had.\<close>

theorem publisher_drains:
  fixes Rs :: "bytes rpc_lib list"
  assumes "borsh_laws B" "reachable announcer_start (announcer_step T B pinboard payer) s"
    and "publisher s = Idle" "\<forall>R \<in> set Rs. rpc_laws payer R"
    and "length (pending (queue s)) \<le> 40 * length Rs"
  shows "\<exists>q. publisher_loop B pinboard payer Rs (queue s) = (Ok (), q) \<and> pending q = [] \<and>
    (\<forall>x \<in> set (pending (queue s)). \<exists>st. status (fst x) q = Some st \<and> st \<noteq> Pending) \<and>
    (\<forall>i. if status i (queue s) = Some Pending then \<exists>st. status i q = Some st \<and> st \<noteq> Pending
         else status i q = status i (queue s))"
proof -
  have inv: "announcer_inv s" using assms(1,2) by (rule reachable_announcer_inv)
  from loop_steps [OF assms(1,4) inv assms(3)] obtain t where
    t: "publisher_loop B pinboard payer Rs (queue s) = (Ok (), queue t)" "announcer_inv t"
      "publisher t = Idle" "accepted t = accepted s"
      "pending (queue t) = drop (MAX_BATCH * length Rs) (pending (queue s))"
      "prefix (settled s) (settled t)" by blast
  have empty: "pending (queue t) = []" using t(5) assms(5) by (simp add: MAX_BATCH_def)
  have same: "i \<in> set (status_order (queue t)) \<longleftrightarrow> i \<in> set (status_order (queue s))" for i
    using remembered_iff [OF inv] remembered_iff [OF t(2)] t(4) by simp
  have final: "\<exists>st. status i (queue t) = Some st \<and> st \<noteq> Pending" if "i \<in> set (status_order (queue s))" for i
  proof -
    have "status i (queue t) \<noteq> None" unfolding status_None_iff [OF t(2)] same using that by simp
    then obtain st where st: "status i (queue t) = Some st" by blast
    then have "(i, st) \<in> set (ledger t)" by (rule status_SomeD [OF t(2)])
    then have "\<exists>x. (x, st) \<in> set (settled t)" using empty t(3) by (auto simp: ledger_def unsettled_def)
    then have "st \<noteq> Pending" using t(2) log_invD(5) [of t] by (auto simp: announcer_inv_def)
    with st show ?thesis by blast
  qed
  have "status i (queue t) = status i (queue s)" if "status i (queue s) \<noteq> Some Pending" for i
  proof (cases "status i (queue s)")
    case None
    then have "status i (queue t) = None"
      unfolding status_None_iff [OF inv] status_None_iff [OF t(2)] same .
    with None show ?thesis by simp
  next
    case (Some st)
    with that status_SomeD [OF inv Some] have "(i, st) \<in> set (ledger t)"
      using set_mono_prefix [OF t(6)] by (auto simp: ledger_def)
    then show ?thesis using Some status_SomeD(2) [OF inv Some] same status_ledger [OF t(2)] by simp
  qed
  moreover have "\<exists>st. status (fst x) (queue t) = Some st \<and> st \<noteq> Pending" if "x \<in> set (pending (queue s))" for x
    using that unsettled_remembered [OF inv] by (intro final) (auto simp: unsettled_def)
  ultimately show ?thesis
    using t(1) empty final status_SomeD(2) [OF inv] by (intro exI [of _ "queue t"]) auto
qed

theorem publisher_drains_witness:
  "\<exists>(s :: announcer) q. length (pending (queue s)) = 3 \<and>
     publisher_loop borsh_le [1] [2] [toy_rpc] (queue s) = (Ok (), q) \<and> pending q = []"
proof -
  have "(3::nat) \<le> 10000" by simp
  then obtain s where s: "reachable announcer_start (announcer_step hex_text borsh_le [1] [2]) s"
    "publisher s = Idle" "length (pending (queue s)) = 3" using reachable_waiting by blast
  then have "length (pending (queue s)) \<le> 40 * length [toy_rpc]" by simp
  then show ?thesis
    using publisher_drains [OF borsh_laws_le s(1,2), of "[toy_rpc]"] rpc_laws_toy s(3) by auto
qed

text \<open>C39: whatever requests, rounds and batches came before, in any order, what the publisher has in
  flight is a batch the pinboard program accepts: it becomes an instruction the program reads and
  runs without an error, and the log lines it writes parse, in order, as the entries of the batch.
  (Whether the batch also fits a packet is another matter.)\<close>

theorem in_flight_reaches_log:
  assumes "text_laws T" "borsh_laws B" "pinboard_discriminators C"
    and "reachable announcer_start (announcer_step T B pinboard payer) s" "publisher s = Sending b" "b \<noteq> []"
  shows "\<exists>ix body notes.
    build_post_batch_instruction B pinboard payer (map snd b) = (Ok ix :: (slnt_error, instruction) outcome) \<and>
    data ix = discriminator C ''global'' ''post_batch'' @ body \<and>
    run_post_batch B (accounts ix) body = (notes, Ok ()) \<and>
    map (\<lambda>n. try_parse_note_log T B (note_log_line C T B n)) notes =
      map (\<lambda>(_, e). Ok (Some \<lparr>ev_scheme_id = ne_scheme_id e, ev_ephemeral_pub = ne_ephemeral_pub e,
                           ev_view_tag = ne_view_tag e, ev_metadata = ne_metadata e\<rparr>)) b"
proof -
  have inv: "announcer_inv s" using assms(2,4) by (rule reachable_announcer_inv)
  then have "set b \<subseteq> set (accepted s)" "length b \<le> 50"
    using assms(5) log_invD(1) [of s]
    by (auto simp: announcer_inv_def unsettled_def bounds_inv_def MAX_BATCH_def)
  then have "\<forall>e \<in> set (map snd b). is_array 32 (ne_ephemeral_pub e) \<and> length (ne_metadata e) \<le> 64"
    using inv log_invD(4) [of s] by (auto simp: announcer_inv_def postable_def)
  with assms(6) \<open>length b \<le> 50\<close> sdk_batch_accepted [OF assms(1-3), of "map snd b" pinboard payer]
  show ?thesis by (auto simp: split_beta comp_def)
qed

theorem in_flight_reaches_log_witness:
  "\<exists>(b :: (u64 \<times> note_entry) list) ix body notes. length b = 3 \<and>
     build_post_batch_instruction borsh_le [1] [2] (map snd b) = (Ok ix :: (slnt_error, instruction) outcome) \<and>
     run_post_batch borsh_le (accounts ix) body = (notes, Ok ())"
proof -
  have "(3::nat) \<le> 10000" by simp
  then obtain s where s: "reachable announcer_start (announcer_step hex_text borsh_le [1] [2]) s"
    "publisher s = Idle" "length (pending (queue s)) = 3" using reachable_waiting by blast
  obtain b q where b: "take_pending MAX_BATCH (queue s) = (b, q)" "length b = 3"
    using s(3) by (cases "take_pending MAX_BATCH (queue s)") (auto simp: take_pending_eq MAX_BATCH_def)
  then have "b \<noteq> []" by auto
  with s(1) step_take [OF s(2) b(1)]
  have "reachable announcer_start (announcer_step hex_text borsh_le [1] [2]) (s\<lparr>queue := q, publisher := Sending b\<rparr>)"
    by (blast intro: reachable_step)
  from in_flight_reaches_log [OF text_laws_hex_text borsh_laws_le pinboard_discriminators_pin this _ \<open>b \<noteq> []\<close>] b(2)
  show ?thesis by auto
qed

text \<open>A transaction is sent as one packet of at most 1232 bytes, its instructions' data included.\<close>

definition packet_law :: "'x rpc_lib \<Rightarrow> bool" where
  "packet_law R \<longleftrightarrow>
     (\<forall>ixs payer bh tx. new_signed_with_payer R ixs payer bh = Some tx \<longrightarrow>
        (\<exists>ix \<in> set ixs. 1232 < length (data ix)) \<longrightarrow> (\<exists>e. send_and_confirm_transaction R tx = Err e))"

lemma packet_law_toy: "packet_law toy_rpc"
proof -
  have "length (data ix) \<le> length (concat (map data ixs))" if "ix \<in> set ixs" for ix :: instruction and ixs
    using that by (induction ixs) auto
  then show ?thesis unfolding packet_law_def toy_rpc_def by fastforce
qed

lemma batch_data_length:
  assumes "borsh_laws B" "borsh_sizes B" "\<forall>e \<in> set es. entry_ok e"
    and "build_post_batch_instruction B pinboard payer es = (Ok ix :: ('e, instruction) outcome)"
  shows "8 + 39 * length es \<le> length (data ix)"
proof -
  have entry: "39 \<le> length (written (write_note_entry B e))" if "e \<in> set es" for e
  proof -
    have ok: "entry_ok e" using that assms(3) by blast
    then obtain w where "write_note_entry B e = Some w" using write_note_entry_total assms(1) by blast
    then show ?thesis using length_note_fields [OF assms(2)] ok
      by (auto simp: write_note_entry_def entry_ok_def note_fields_ok_def)
  qed
  have "write_each (write_note_entry B) es = Some (concat (map (\<lambda>e. written (write_note_entry B e)) es))"
    using assms(1,3) write_note_entry_total by (intro write_each_eq) blast
  then have "8 + length (concat (map (\<lambda>e. written (write_note_entry B e)) es)) \<le> length (data ix)"
    using assms(4)
    by (auto simp: build_post_batch_instruction_def obind_Ok_iff write_note_entries_def bind_eq_Some_conv
        POST_BATCH_DISCRIMINATOR_def)
  moreover have "39 * length es \<le> length (concat (map (\<lambda>e. written (write_note_entry B e)) es))"
    using entry by (induction es) (auto intro: add_mono)
  ultimately show ?thesis by linarith
qed

text \<open>C32: a batch of 32 entries or more never reaches the chain: its instruction alone is over the
  1232 bytes of a packet, so when 32 or more announcements wait, the round that takes up to 40 of
  them ends with every one of them failed, and none is tried again.\<close>

theorem large_batches_fail:
  fixes R :: "bytes rpc_lib"
  assumes "borsh_laws B" "borsh_sizes B" "rpc_laws payer R" "packet_law R"
    and "reachable announcer_start (announcer_step T B pinboard payer) s" "publisher s = Idle"
    and "32 \<le> length (pending (queue s))"
  shows "\<exists>q. publisher_round B R pinboard payer (queue s) = (Ok (), q) \<and>
    pending q = drop 40 (pending (queue s)) \<and>
    (\<forall>x \<in> set (take 40 (pending (queue s))). \<exists>e. status (fst x) q = Some (Failed e))"
proof -
  have inv: "announcer_inv s" using assms(1,5) by (rule reachable_announcer_inv)
  let ?b = "take MAX_BATCH (pending (queue s))"
  let ?es = "map snd ?b"
  from round_steps [OF assms(1,3) inv assms(6)] obtain t st where
    t: "publisher_round B R pinboard payer (queue s) = (Ok (), queue t)" "announcer_inv t"
      "accepted t = accepted s" "pending (queue t) = drop MAX_BATCH (pending (queue s))"
      "settled t = settled s @ map (\<lambda>x. (x, st)) ?b"
      "pending (queue s) = [] \<or> result_status (publish B R pinboard payer ?es) = Some st" by blast
  have "set ?b \<subseteq> set (accepted s)"
    using inv log_invD(1) [of s] by (auto simp: announcer_inv_def unsettled_def dest: in_set_takeD)
  then have ok: "\<forall>e \<in> set ?es. entry_ok e"
    using inv log_invD(4) [of s] postable_entry_ok by (auto simp: announcer_inv_def)
  have len: "32 \<le> length ?es" "length ?es < 2 ^ 32" using assms(7) by (simp_all add: MAX_BATCH_def)
  obtain ix where ix: "build_post_batch_instruction B pinboard payer ?es = (Ok ix :: (string, instruction) outcome)"
    using build_batch_total [OF assms(1) len(2) ok] by blast
  from batch_data_length [OF assms(1,2) ok ix] len(1) have "1232 < length (data ix)" by linarith
  then have big: "new_signed_with_payer R [ix] payer bh = Some tx \<Longrightarrow>
      \<exists>e. send_and_confirm_transaction R tx = Err e" for bh tx
    using assms(4) unfolding packet_law_def by (metis list.set_intros(1))
  have "publish B R pinboard payer ?es \<noteq> Panic"
    using assms(1,3) len(2) ok by (rule publish_not_Panic)
  moreover have "publish B R pinboard payer ?es \<noteq> Ok sig" for sig
  proof
    assume "publish B R pinboard payer ?es = Ok sig"
    then obtain bh tx where "new_signed_with_payer R [ix] payer bh = Some tx"
      "send_and_confirm_transaction R tx = Ok sig"
      by (auto simp: publish_def ix obind_Ok_iff)
    then show False using big by fastforce
  qed
  ultimately obtain e where "publish B R pinboard payer ?es = Err e"
    by (cases "publish B R pinboard payer ?es") auto
  then have st: "st = Failed e" using t(6) assms(7) by auto
  have "status (fst x) (queue t) = Some (Failed e)" if x: "x \<in> set ?b" for x
  proof -
    have "(fst x, Failed e) \<in> set (ledger t)" using x t(5) st by (force simp: ledger_def)
    moreover have "x \<in> set (unsettled s)" using x by (auto simp: unsettled_def dest: in_set_takeD)
    then have "fst x \<in> set (status_order (queue t))"
      using unsettled_remembered [OF inv] remembered_iff [OF inv] remembered_iff [OF t(2)] t(3) by auto
    ultimately show ?thesis using status_ledger [OF t(2)] by auto
  qed
  with t(1,4) show ?thesis by (auto simp: MAX_BATCH_def)
qed

theorem large_batches_fail_witness:
  "\<exists>(s :: announcer) q. length (pending (queue s)) = 40 \<and>
     publisher_round borsh_le toy_rpc [1] [2] (queue s) = (Ok (), q) \<and> pending q = [] \<and>
     (\<exists>x \<in> set (pending (queue s)). \<exists>e. status (fst x) q = Some (Failed e))"
proof -
  have "(40::nat) \<le> 10000" by simp
  then obtain s where s: "reachable announcer_start (announcer_step hex_text borsh_le [1] [2]) s"
    "publisher s = Idle" "length (pending (queue s)) = 40" using reachable_waiting by blast
  obtain x where x: "x \<in> set (pending (queue s))" using s(3) by (cases "pending (queue s)") auto
  from large_batches_fail [OF borsh_laws_le borsh_sizes_le rpc_laws_toy packet_law_toy s(1,2)]
  obtain q where "publisher_round borsh_le toy_rpc [1] [2] (queue s) = (Ok (), q)"
    "pending q = drop 40 (pending (queue s))"
    "\<forall>x \<in> set (take 40 (pending (queue s))). \<exists>e. status (fst x) q = Some (Failed e)"
    using s(3) by auto
  moreover from this x s(3) have "\<exists>x \<in> set (pending (queue s)). \<exists>e. status (fst x) q = Some (Failed e)"
    by (intro bexI [of _ x]) simp_all
  ultimately show ?thesis using s(3) by (intro exI [of _ s] exI [of _ q]) simp
qed

end
