(* ===== verification/Indexer.thy ===== *)
theory Indexer
  imports Net_Client
begin

text \<open>
  \<open>crates/slnt-indexer/src/store.rs\<close> and \<open>main.rs\<close>: the announcement indexer, a bounded store fed by
  the live subscription and read over HTTP. A handler that panics leaves the store as it was at the
  panic (the poisoned lock is recovered); a panic while ingesting ends the ingesting task.
\<close>

record stored_announcement =
  sa_slot :: u64
  sa_scheme_id :: u16
  sa_ephemeral_pub :: string
  sa_view_tag :: u8
  sa_metadata :: string

definition from_note :: "text_lib \<Rightarrow> u64 \<Rightarrow> note_event \<Rightarrow> stored_announcement" where
  "from_note T slot note_ev =
     \<lparr>sa_slot = slot,
      sa_scheme_id = ev_scheme_id note_ev,
      sa_ephemeral_pub = b58_encode T (ev_ephemeral_pub note_ev),
      sa_view_tag = ev_view_tag note_ev,
      sa_metadata = b58_encode T (ev_metadata note_ev)\<rparr>"

record announcement_store =
  items :: "stored_announcement list"
  cap :: nat
  dropped :: u64

definition MAX_STORED :: nat where
  "MAX_STORED = 1000000"

definition with_cap :: "nat \<Rightarrow> announcement_store" where
  "with_cap n = \<lparr>items = [], cap = max n 1, dropped = 0\<rparr>"

definition store_new :: announcement_store where
  "store_new = with_cap MAX_STORED"

definition store_len :: "announcement_store \<Rightarrow> nat" where
  "store_len s = length (items s)"

definition store_is_empty :: "announcement_store \<Rightarrow> bool" where
  "store_is_empty s \<longleftrightarrow> items s = []"

text \<open>The \<open>while\<close> loop of \<open>insert\<close>; \<open>dropped += 1\<close> panics on overflow, after the pop.\<close>

function evict :: "announcement_store \<Rightarrow> (unit, unit) outcome \<times> announcement_store" where
  "evict s =
     (if cap s < length (items s) then
        (let s' = s\<lparr>items := tl (items s)\<rparr> in
         case add_u64 (dropped s') 1 :: (unit, u64) outcome of
           Ok d \<Rightarrow> evict (s'\<lparr>dropped := d\<rparr>)
         | _ \<Rightarrow> (Panic, s'))
      else (Ok (), s))"
  by pat_completeness auto
termination
  by (relation "measure (\<lambda>s. length (items s))") auto

declare evict.simps [simp del]

definition push_evict ::
  "announcement_store \<Rightarrow> stored_announcement \<Rightarrow> (unit, unit) outcome \<times> announcement_store" where
  "push_evict s a = evict (s\<lparr>items := items s @ [a]\<rparr>)"

definition store_insert ::
  "text_lib \<Rightarrow> u64 \<Rightarrow> note_event \<Rightarrow> announcement_store \<Rightarrow> (unit, unit) outcome \<times> announcement_store" where
  "store_insert T slot note_ev s = push_evict s (from_note T slot note_ev)"

definition query :: "announcement_store \<Rightarrow> u64 option \<Rightarrow> nat \<Rightarrow> stored_announcement list" where
  "query s since_slot limit =
     take limit
       (filter (\<lambda>a. case since_slot of None \<Rightarrow> True | Some t \<Rightarrow> t \<le> sa_slot a) (items s))"

section \<open>The server\<close>

definition DEFAULT_LIMIT :: nat where
  "DEFAULT_LIMIT = 1000"
definition MAX_LIMIT :: nat where
  "MAX_LIMIT = 10000"

definition get_announcements ::
  "announcement_store \<Rightarrow> u64 option \<Rightarrow> nat option \<Rightarrow> stored_announcement list" where
  "get_announcements s since_slot limit =
     query s since_slot (min (case limit of Some n \<Rightarrow> n | None \<Rightarrow> DEFAULT_LIMIT) MAX_LIMIT)"

record health_report =
  retained :: nat
  evicted :: u64

definition health :: "announcement_store \<Rightarrow> health_report" where
  "health s = \<lparr>retained = store_len s, evicted = dropped s\<rparr>"

text \<open>The ingesting task: whether it still runs, and the shared store.\<close>

record indexer =
  running :: bool
  shared :: announcement_store

definition indexer_start :: indexer where
  "indexer_start = \<lparr>running = True, shared = store_new\<rparr>"

definition ingest_note :: "text_lib \<Rightarrow> u64 \<Rightarrow> note_event \<Rightarrow> indexer \<Rightarrow> indexer" where
  "ingest_note T slot note_ev ix =
     (if running ix then
        (case store_insert T slot note_ev (shared ix) of
           (Ok _, s) \<Rightarrow> ix\<lparr>shared := s\<rparr>
         | (_, s) \<Rightarrow> ix\<lparr>running := False, shared := s\<rparr>)
      else ix)"

text \<open>
  The background loop reconnects for ever; \<open>rounds\<close> are the connections it has made so far, each
  with what \<open>connect\<close> and \<open>logs_subscribe\<close> gave.
\<close>

fun ingest_rounds ::
  "text_lib \<Rightarrow> borsh_lib \<Rightarrow> string \<Rightarrow> pubkey \<Rightarrow>
     ((string, 'c) outcome \<times> (string, (u64 \<times> string list) list) outcome) list \<Rightarrow> indexer \<Rightarrow> indexer" where
  "ingest_rounds T B ws_url pinboard [] ix = ix"
| "ingest_rounds T B ws_url pinboard ((c, sub) # rounds) ix =
     (if running ix then
        (case subscribe_pinboard_notes_with_slot T B (\<lambda>_. c) (\<lambda>_ _. sub) ws_url pinboard
                (ingest_note T) ix of
           (Panic, ix') \<Rightarrow> ix'\<lparr>running := False\<rparr>
         | (_, ix') \<Rightarrow> ingest_rounds T B ws_url pinboard rounds ix')
      else ix)"

section \<open>The store is a bounded window\<close>

definition store_ok :: "announcement_store \<Rightarrow> bool" where
  "store_ok s \<longleftrightarrow> 1 \<le> cap s \<and> length (items s) \<le> cap s"

lemma with_cap_ok [wf_rules]: "store_ok (with_cap n)" "store_ok store_new"
  by (simp_all add: store_ok_def with_cap_def store_new_def)

text \<open>From a good store the loop runs at most once.\<close>

lemma evict_done: "length (items s) \<le> cap s \<Longrightarrow> evict s = (Ok (), s)"
  by (subst evict.simps) simp

lemma push_evict_eq:
  assumes "store_ok s"
  shows "push_evict s a =
    (if length (items s) < cap s then (Ok (), s\<lparr>items := items s @ [a]\<rparr>)
     else if unat (dropped s) + 1 < 2 ^ 64
          then (Ok (), s\<lparr>items := tl (items s) @ [a], dropped := dropped s + 1\<rparr>)
          else (Panic, s\<lparr>items := tl (items s) @ [a]\<rparr>))"
proof (cases "length (items s) < cap s")
  case True
  then show ?thesis by (simp add: push_evict_def evict_done)
next
  case False
  with assms obtain x xs where "length (items s) = cap s" "items s = x # xs"
    by (cases "items s") (auto simp: store_ok_def)
  then show ?thesis
    unfolding push_evict_def by (subst evict.simps) (simp add: evict_done add_u64_def)
qed

lemma push_evict_items:
  assumes "store_ok s"
  shows "items (snd (push_evict s a)) = keep_last (cap s) (items s @ [a])"
    and "cap (snd (push_evict s a)) = cap s" and "store_ok (snd (push_evict s a))"
  using assms keep_last_snoc_full [of "cap s" "items s" a]
  by (auto simp: push_evict_eq store_ok_def)

interpretation store: window store_ok items cap "\<lambda>s a. snd (push_evict s a)"
  by unfold_locales (auto simp: push_evict_items, auto simp: store_ok_def)

text \<open>How many have been dropped after a sequence of insertions.\<close>

lemma insert_all:
  assumes "store_ok s" "unat (dropped s) + length as < 2 ^ 64"
  shows "(\<forall>n < length as. fst (push_evict (foldl (\<lambda>s a. snd (push_evict s a)) s (take n as)) (as ! n)) = Ok ())
    \<and> unat (dropped (foldl (\<lambda>s a. snd (push_evict s a)) s as)) + cap s =
        unat (dropped s) + max (cap s) (length (items s) + length as)"
  using assms(2)
proof (induction as rule: rev_induct)
  case Nil
  then show ?case using assms(1) by (simp add: store_ok_def)
next
  case (snoc a as)
  let ?t = "foldl (\<lambda>s a. snd (push_evict s a)) s as"
  have IH: "\<forall>n < length as. fst (push_evict (foldl (\<lambda>s a. snd (push_evict s a)) s (take n as)) (as ! n)) = Ok ()"
    "unat (dropped ?t) + cap s = unat (dropped s) + max (cap s) (length (items s) + length as)"
    using snoc by simp_all
  have ok: "store_ok ?t" "cap ?t = cap s" "items ?t = keep_last (cap s) (items s @ as)"
    using store.good_pushes [OF assms(1)] store.bound_pushes [OF assms(1)]
      store.contents_pushes [OF assms(1)] by simp_all
  have small: "unat (dropped ?t) + 1 < 2 ^ 64"
    using IH(2) snoc.prems assms(1) by (auto simp: store_ok_def max_def split: if_splits)
  then have step: "fst (push_evict ?t a) = Ok ()"
    "unat (dropped (snd (push_evict ?t a))) =
       unat (dropped ?t) + (if length (items ?t) < cap s then 0 else 1)"
    using ok(1,2) unat_add_u64 [of "dropped ?t" 1] by (auto simp: push_evict_eq)
  have "fst (push_evict (foldl (\<lambda>s a. snd (push_evict s a)) s (take n (as @ [a]))) ((as @ [a]) ! n)) = Ok ()"
    if "n < length (as @ [a])" for n
    using that IH(1) step(1) by (cases "n = length as") (auto simp: nth_append)
  moreover have "length (items ?t) = min (cap s) (length (items s) + length as)"
    using ok(3) by simp
  then have "unat (dropped (foldl (\<lambda>s a. snd (push_evict s a)) s (as @ [a]))) + cap s =
      unat (dropped s) + max (cap s) (length (items s) + length (as @ [a]))"
    using IH(2) step(2) by auto
  ultimately show ?case by blast
qed

text \<open>Ingesting a stream is inserting its notes one after the other.\<close>

lemma ingest_foldl:
  assumes "store_ok (shared ix)" "running ix" "unat (dropped (shared ix)) + length ns < 2 ^ 64"
  shows "foldl (\<lambda>ix (t, n). ingest_note T t n ix) ix ns =
    ix\<lparr>shared := foldl (\<lambda>s a. snd (push_evict s a)) (shared ix) (map (\<lambda>(t, n). from_note T t n) ns)\<rparr>"
  using assms
proof (induction ns arbitrary: ix)
  case (Cons x ns)
  obtain t n where x: "x = (t, n)" by (cases x)
  let ?a = "from_note T t n" and ?s = "shared ix"
  have one: "fst (push_evict ?s ?a) = Ok ()" "unat (dropped (snd (push_evict ?s ?a))) \<le> unat (dropped ?s) + 1"
    using Cons.prems unat_add_u64 [of "dropped ?s" 1] by (auto simp: push_evict_eq)
  then have "ingest_note T t n ix = ix\<lparr>shared := snd (push_evict ?s ?a)\<rparr>"
    using Cons.prems by (auto simp: ingest_note_def store_insert_def split: prod.splits)
  moreover have "store_ok (snd (push_evict ?s ?a))"
    using push_evict_items(3) Cons.prems by blast
  moreover have "unat (dropped (snd (push_evict ?s ?a))) + length ns < 2 ^ 64"
    using one(2) Cons.prems by simp
  ultimately show ?case
    using Cons.IH [of "ix\<lparr>shared := snd (push_evict ?s ?a)\<rparr>"] Cons.prems x by simp
qed simp

section \<open>Paging by slot\<close>

text \<open>
  How the service's documentation has a client read everything since a slot: it asks for a page,
  and while pages are full it asks again from the last slot it has seen. \<open>n\<close> bounds the requests;
  the second result says whether the client has seen a short page and ended.
\<close>

fun poll :: "nat \<Rightarrow> announcement_store \<Rightarrow> u64 \<Rightarrow> nat \<Rightarrow> stored_announcement list \<times> bool" where
  "poll 0 s t limit = ([], False)"
| "poll (Suc n) s t limit =
     (let page = get_announcements s (Some t) (Some limit) in
      if length page < limit then (page, True)
      else (let (more, ended) = poll n s (sa_slot (last page)) limit in (page @ more, ended)))"

definition since :: "announcement_store \<Rightarrow> u64 \<Rightarrow> stored_announcement list" where
  "since s t = filter (\<lambda>a. t \<le> sa_slot a) (items s)"

definition at_slot :: "announcement_store \<Rightarrow> u64 \<Rightarrow> stored_announcement list" where
  "at_slot s t = filter (\<lambda>a. sa_slot a = t) (items s)"

lemma query_since: "query s (Some t) limit = take limit (since s t)"
  by (simp add: query_def since_def)

text \<open>What a full page is, when the store is in slot order.\<close>

lemma full_page:
  assumes "sorted (map sa_slot (items s))" "0 < limit" "limit \<le> length (since s t)"
  defines "page \<equiv> query s (Some t) limit"
  shows "t \<le> sa_slot (last page)" "\<forall>a \<in> set page. sa_slot a \<le> sa_slot (last page)"
    and "set (since s t) = set page \<union> set (since s (sa_slot (last page)))"
proof -
  have srt: "sorted (map sa_slot (since s t))"
    using assms(1) by (simp add: since_def sorted_filter)
  have ne: "page \<noteq> []" "length page = limit"
    using assms(2,3) by (auto simp: page_def query_since)
  have split: "since s t = page @ drop limit (since s t)"
    by (simp add: page_def query_since)
  have sub: "set page \<subseteq> set (since s t)" by (simp add: page_def query_since set_take_subset)
  then have "last page \<in> set (since s t)" using ne(1) by auto
  then show t: "t \<le> sa_slot (last page)" by (simp add: since_def)
  have srt2: "sorted (map sa_slot page @ map sa_slot (drop limit (since s t)))"
    using srt split by (metis map_append)
  obtain xs x where page: "page = xs @ [x]" using ne(1) by (cases page rule: rev_cases) auto
  show "\<forall>a \<in> set page. sa_slot a \<le> sa_slot (last page)"
    using srt2 page by (auto simp: sorted_append)
  have "\<forall>a \<in> set (drop limit (since s t)). sa_slot (last page) \<le> sa_slot a"
    using srt2 page by (auto simp: sorted_append)
  moreover have "set (drop limit (since s t)) \<subseteq> set (items s)"
    using set_drop_subset [of limit "since s t"] by (auto simp: since_def)
  ultimately have "set (drop limit (since s t)) \<subseteq> set (since s (sa_slot (last page)))"
    by (auto simp: since_def)
  moreover have "set (since s (sa_slot (last page))) \<subseteq> set (since s t)"
    using t by (auto simp: since_def)
  moreover have "set (since s t) = set page \<union> set (drop limit (since s t))"
    using split by (metis set_append)
  ultimately show "set (since s t) = set page \<union> set (since s (sa_slot (last page)))" by blast
qed

section \<open>Properties\<close>

text \<open>The store is a sliding window: after any sequence of insertions into a new store of a given
  capacity it holds exactly the most recent ones, at most the capacity (at least one), in
  insertion order, and the counter is the number evicted; no insertion panics while the counter
  cannot overflow.\<close>

theorem store_keeps_last:
  assumes "length notes < 2 ^ 64"
  shows "items (foldl (\<lambda>s (t, n). snd (store_insert T t n s)) (with_cap c) notes) =
      keep_last (max c 1) (map (\<lambda>(t, n). from_note T t n) notes)
    \<and> unat (dropped (foldl (\<lambda>s (t, n). snd (store_insert T t n s)) (with_cap c) notes)) =
        length notes - max c 1
    \<and> (\<forall>k < length notes. fst (store_insert T (fst (notes ! k)) (snd (notes ! k))
        (foldl (\<lambda>s (t, n). snd (store_insert T t n s)) (with_cap c) (take k notes))) = Ok ())"
proof -
  let ?as = "map (\<lambda>(t, n). from_note T t n) notes"
  have ins_fold: "foldl (\<lambda>s (t, n). snd (store_insert T t n s)) s ns =
      foldl (\<lambda>s a. snd (push_evict s a)) s (map (\<lambda>(t, n). from_note T t n) ns)" for s ns
    by (induction ns arbitrary: s) (auto simp: store_insert_def)
  have new: "cap (with_cap c) = max c 1" "items (with_cap c) = []" "dropped (with_cap c) = 0"
    by (simp_all add: with_cap_def)
  have all: "unat (dropped (with_cap c)) + length ?as < 2 ^ 64" using assms new by simp
  note ins = insert_all [OF with_cap_ok(1) all]
  have "items (foldl (\<lambda>s a. snd (push_evict s a)) (with_cap c) ?as) = keep_last (max c 1) ?as"
    using store.contents_pushes [OF with_cap_ok(1) [of c], of ?as] new by simp
  moreover have "unat (dropped (foldl (\<lambda>s a. snd (push_evict s a)) (with_cap c) ?as)) =
      length notes - max c 1"
    using ins new by auto
  moreover have "fst (store_insert T (fst (notes ! k)) (snd (notes ! k))
        (foldl (\<lambda>s (t, n). snd (store_insert T t n s)) (with_cap c) (take k notes))) = Ok ()"
    if "k < length notes" for k
  proof -
    have "fst (push_evict (foldl (\<lambda>s a. snd (push_evict s a)) (with_cap c) (take k ?as)) (?as ! k)) = Ok ()"
      using ins that by simp
    then show ?thesis
      unfolding ins_fold take_map [symmetric] store_insert_def [of T "fst (notes ! k)"]
      using that by (simp add: split_def)
  qed
  ultimately show ?thesis unfolding ins_fold by blast
qed

definition toy_event :: "u8 \<Rightarrow> note_event" where
  "toy_event b = \<lparr>ev_scheme_id = 1, ev_ephemeral_pub = replicate 32 b, ev_view_tag = b, ev_metadata = []\<rparr>"

theorem store_keeps_last_witness:
  "map sa_slot (items (foldl (\<lambda>s (t, n). snd (store_insert hex_text t n s)) (with_cap 2)
     [(1, toy_event 1), (2, toy_event 2), (3, toy_event 3)])) = [2, 3]"
proof -
  have "length [(1 :: u64, toy_event 1), (2, toy_event 2), (3, toy_event 3)] < 2 ^ 64" by simp
  from store_keeps_last [OF this, of hex_text 2] show ?thesis
    by (simp add: keep_last_def from_note_def)
qed

text \<open>C22: polling by slot is complete and ends: in a store in slot order where no slot holds a full
  page, of at most the 10000 announcements the server allows, a client that keeps asking from the
  last slot seen sees a short page within one more request than there are announcements, and by
  then has every retained announcement since its starting slot, and nothing else.\<close>

theorem polling_complete:
  assumes "sorted (map sa_slot (items s))" "\<forall>t'. length (at_slot s t') < limit"
    and "length (since s t) < n" "limit \<le> 10000"
  shows "snd (poll n s t limit) \<and> set (fst (poll n s t limit)) = {a \<in> set (items s). t \<le> sa_slot a}"
  using assms(3)
proof (induction n arbitrary: t)
  case (Suc n)
  have all: "{a \<in> set (items s). t \<le> sa_slot a} = set (since s t)" for t by (auto simp: since_def)
  have pos: "0 < limit" using assms(2) by (metis gr0I not_less0)
  have page: "get_announcements s (Some t) (Some limit) = query s (Some t) limit" for t
    using assms(4) by (simp add: get_announcements_def MAX_LIMIT_def min_def)
  let ?page = "query s (Some t) limit" and ?t = "sa_slot (last (query s (Some t) limit))"
  show ?case
  proof (cases "length (since s t) < limit")
    case True
    then show ?thesis by (simp add: page query_since all)
  next
    case False
    then have full: "limit \<le> length (since s t)" by simp
    note fp = full_page [OF assms(1) pos full]
    have "\<exists>a \<in> set ?page. sa_slot a \<noteq> ?t"
    proof (rule ccontr)
      assume "\<not> ?thesis"
      then have "filter (\<lambda>a. sa_slot a = ?t) ?page = ?page" by (simp add: filter_id_conv)
      then have "limit \<le> length (filter (\<lambda>a. sa_slot a = ?t) (since s t))"
        using full by (metis append_take_drop_id filter_append length_append le_add1 length_take
            min.absorb2 query_since)
      also have "\<dots> \<le> length (at_slot s ?t)"
        unfolding since_def at_slot_def by (rule length_filter_filter)
      finally show False using assms(2) by (meson not_less)
    qed
    then obtain a where "a \<in> set (since s t)" "\<not> ?t \<le> sa_slot a"
      using fp(2,3) by fastforce
    then have "length (filter (\<lambda>a. ?t \<le> sa_slot a) (since s t)) < length (since s t)"
      by (rule length_filter_less)
    moreover have "filter (\<lambda>a. ?t \<le> sa_slot a) (since s t) = since s ?t"
      using fp(1) by (auto simp: since_def intro!: filter_cong)
    ultimately have "length (since s ?t) < n" using Suc.prems by simp
    from Suc.IH [OF this] show ?thesis
      using full fp(3) by (simp add: page all query_since Let_def split_def)
  qed
qed simp

text \<open>C23: when a page's worth of announcements share a slot, polling from that slot never gets past
  it: every further request returns announcements of that slot only, whatever came later; and the
  client goes on for ever, or, if its limit is above the server's maximum, ends too early.\<close>

theorem polling_stalls:
  assumes "sorted (map sa_slot (items s))" "0 < limit" "limit \<le> length (at_slot s t)"
  shows "(\<forall>a \<in> set (fst (poll n s t limit)). sa_slot a = t)
    \<and> (snd (poll n s t limit) \<longleftrightarrow> 0 < n \<and> 10000 < limit)"
proof -
  let ?page = "get_announcements s (Some t) (Some limit)"
  have "since s t = at_slot s t @ filter (\<lambda>a. t < sa_slot a) (items s)"
    unfolding since_def at_slot_def using assms(1) by (rule sorted_filter_split)
  then have page: "?page = take (min limit 10000) (at_slot s t)"
    using assms(3) by (simp add: get_announcements_def MAX_LIMIT_def query_since)
  then have all: "\<forall>a \<in> set ?page. sa_slot a = t"
    using set_take_subset [of "min limit 10000" "at_slot s t"] by (auto simp: at_slot_def)
  have len: "length ?page = min limit 10000" using page assms(3) by simp
  have "?page \<noteq> []" using len assms(2) by auto
  with all have last: "sa_slot (last ?page) = t" by simp
  show ?thesis
  proof (induction n)
    case (Suc n)
    then show ?case using all last len
      by (cases "10000 < limit") (auto simp: Let_def split_def)
  qed simp
qed

definition toy_store :: "u64 list \<Rightarrow> announcement_store" where
  "toy_store slots = \<lparr>items = map (\<lambda>t. from_note hex_text t (toy_event 1)) slots, cap = 10, dropped = 0\<rparr>"

theorem polling_complete_witness:
  "snd (poll 6 (toy_store [1, 1, 2, 3, 5]) 2 3) \<and>
   sa_slot ` set (fst (poll 6 (toy_store [1, 1, 2, 3, 5]) 2 3)) = {2, 3, 5}"
proof -
  let ?s = "toy_store [1, 1, 2, 3, 5]"
  have "sorted (map sa_slot (items ?s))" by (simp add: toy_store_def from_note_def)
  moreover have "\<forall>t'. length (at_slot ?s t') < 3" by (auto simp: toy_store_def from_note_def at_slot_def)
  moreover have "length (since ?s 2) < 6" by (simp add: toy_store_def from_note_def since_def)
  ultimately have polled: "snd (poll 6 ?s 2 3)" "set (fst (poll 6 ?s 2 3)) = {a \<in> set (items ?s). 2 \<le> sa_slot a}"
    using polling_complete [of ?s 3 2 6] by simp_all
  then have "sa_slot ` set (fst (poll 6 ?s 2 3)) = sa_slot ` set (since ?s 2)" by (simp add: since_def)
  also have "\<dots> = {2, 3, 5}" by (simp add: since_def toy_store_def from_note_def word_le_nat_alt)
  finally show ?thesis using polled(1) by simp
qed

theorem polling_stalls_witness:
  "sa_slot ` set (fst (poll 9 (toy_store [1, 1, 2, 3]) 1 2)) \<subseteq> {1} \<and>
   \<not> snd (poll 9 (toy_store [1, 1, 2, 3]) 1 2)"
proof -
  let ?s = "toy_store [1, 1, 2, 3]"
  have "sorted (map sa_slot (items ?s))" by (simp add: toy_store_def from_note_def)
  moreover have "2 \<le> length (at_slot ?s 1)" by (simp add: toy_store_def from_note_def at_slot_def)
  ultimately show ?thesis using polling_stalls [of ?s 2 1 9] by auto
qed

text \<open>The notes of a round: those of the stream, if the connection and the subscription worked.\<close>

fun round_notes ::
  "text_lib \<Rightarrow> borsh_lib \<Rightarrow> (string, 'c) outcome \<times> (string, (u64 \<times> string list) list) outcome \<Rightarrow>
     (u64 \<times> note_event) list" where
  "round_notes T B (Ok _, Ok stream) = slot_notes T B stream"
| "round_notes T B _ = []"

lemma one_round:
  assumes "c \<noteq> Panic" "sub \<noteq> Panic"
  shows "\<exists>r. r \<noteq> Panic \<and>
    subscribe_pinboard_notes_with_slot T B (\<lambda>_. c) (\<lambda>_ _. sub) url pid (ingest_note T) ix =
      (r, foldl (\<lambda>ix (t, n). ingest_note T t n ix) ix (round_notes T B (c, sub)))"
  using assms
  by (cases c; cases sub) (auto simp: subscribe_pinboard_notes_with_slot_def stream_loop_foldl)

lemma rounds_foldl:
  assumes "\<forall>(c, sub) \<in> set rounds. c \<noteq> Panic \<and> sub \<noteq> Panic" "running ix" "store_ok (shared ix)"
    and "unat (dropped (shared ix)) + length (concat (map (round_notes T B) rounds)) < 2 ^ 64"
  shows "ingest_rounds T B url pid rounds ix =
    ix\<lparr>shared := foldl (\<lambda>s a. snd (push_evict s a)) (shared ix)
      (map (\<lambda>(t, n). from_note T t n) (concat (map (round_notes T B) rounds)))\<rparr>"
  using assms
proof (induction rounds arbitrary: ix)
  case (Cons x rounds)
  obtain c sub where x: "x = (c, sub)" by (cases x)
  let ?ns = "map (\<lambda>(t, n). from_note T t n) (round_notes T B x)"
  let ?s = "foldl (\<lambda>s a. snd (push_evict s a)) (shared ix) ?ns"
  have small: "unat (dropped (shared ix)) + length (round_notes T B x) < 2 ^ 64"
    using Cons.prems by simp
  have one: "foldl (\<lambda>ix (t, n). ingest_note T t n ix) ix (round_notes T B x) = ix\<lparr>shared := ?s\<rparr>"
    using ingest_foldl [OF Cons.prems(3,2) small] .
  have "unat (dropped ?s) \<le> unat (dropped (shared ix)) + length (round_notes T B x)"
    using insert_all [OF Cons.prems(3), of ?ns] small Cons.prems(3) by (auto simp: store_ok_def)
  then have "ingest_rounds T B url pid rounds (ix\<lparr>shared := ?s\<rparr>) = ix\<lparr>shared :=
      foldl (\<lambda>s a. snd (push_evict s a)) ?s
        (map (\<lambda>(t, n). from_note T t n) (concat (map (round_notes T B) rounds)))\<rparr>"
    using Cons.IH [of "ix\<lparr>shared := ?s\<rparr>"] Cons.prems store.good_pushes by auto
  moreover obtain r where "r \<noteq> Panic"
    "subscribe_pinboard_notes_with_slot T B (\<lambda>_. c) (\<lambda>_ _. sub) url pid (ingest_note T) ix =
      (r, ix\<lparr>shared := ?s\<rparr>)"
    using one_round [of c sub T B url pid ix] Cons.prems(1) one x by auto
  ultimately show ?case using Cons.prems(2) x by (cases r) simp_all
qed simp

text \<open>The state after any connections: the notes of the delivered logs, through the window.\<close>

lemma ingested:
  fixes url :: string and pid :: pubkey
  assumes "\<forall>(c, sub) \<in> set rounds. c \<noteq> Panic \<and> sub \<noteq> Panic"
    and "length (concat (map (round_notes T B) rounds)) < 2 ^ 64"
  defines "ix \<equiv> ingest_rounds T B url pid rounds indexer_start"
    and "served \<equiv> map (\<lambda>(t, n). from_note T t n) (concat (map (round_notes T B) rounds))"
  shows "running ix" "items (shared ix) = keep_last 1000000 served"
    and "unat (dropped (shared ix)) = length served - 1000000"
proof -
  have new: "cap store_new = 1000000" "items store_new = []" "dropped store_new = 0"
    by (simp_all add: store_new_def with_cap_def MAX_STORED_def)
  let ?s = "foldl (\<lambda>s a. snd (push_evict s a)) store_new served"
  have "unat (dropped store_new) + length served < 2 ^ 64"
    using assms(2) new by (simp add: served_def)
  note ins = insert_all [OF with_cap_ok(2) this]
  have ix: "ix = \<lparr>running = True, shared = ?s\<rparr>"
    unfolding ix_def served_def using assms(1,2) new
    by (subst rounds_foldl) (auto simp: indexer_start_def with_cap_ok)
  show "running ix" by (simp add: ix)
  show "items (shared ix) = keep_last 1000000 served"
    using store.contents_pushes [OF with_cap_ok(2), of served] new by (simp add: ix)
  show "unat (dropped (shared ix)) = length served - 1000000" using ins new by (auto simp: ix)
qed

text \<open>C21: the indexer serves what the pinboard published: after any connections, failed ones
  included, \<open>GET /announcements\<close> returns the notes of all delivered logs in order, the most recent
  million, from the requested slot on, at most 10000 (1000 by default), and \<open>GET /health\<close> says how
  many are retained and how many were evicted.\<close>

theorem indexer_serves_stream:
  fixes url :: string and pid :: pubkey
  assumes "\<forall>(c, sub) \<in> set rounds. c \<noteq> Panic \<and> sub \<noteq> Panic"
    and "length (concat (map (round_notes T B) rounds)) < 2 ^ 64"
  defines "ix \<equiv> ingest_rounds T B url pid rounds indexer_start"
    and "served \<equiv> map (\<lambda>(t, n). from_note T t n) (concat (map (round_notes T B) rounds))"
  shows "running ix
    \<and> get_announcements (shared ix) None limit =
        take (min (case limit of Some n \<Rightarrow> n | None \<Rightarrow> 1000) 10000) (keep_last 1000000 served)
    \<and> get_announcements (shared ix) (Some t) limit =
        take (min (case limit of Some n \<Rightarrow> n | None \<Rightarrow> 1000) 10000)
          (filter (\<lambda>a. t \<le> sa_slot a) (keep_last 1000000 served))
    \<and> retained (health (shared ix)) = min 1000000 (length served)
    \<and> unat (evicted (health (shared ix))) = length served - 1000000"
  using ingested [OF assms(1,2), of url pid]
  by (simp add: ix_def served_def get_announcements_def query_def health_def store_len_def DEFAULT_LIMIT_def
      MAX_LIMIT_def split: option.splits)

theorem indexer_serves_stream_witness:
  "length (get_announcements (shared (ingest_rounds hex_text borsh_le ''ws'' [4]
      [(Err ''refused'', Err ''x''), (Ok (), Ok [(5, [note_log_line pin_crypto hex_text borsh_le (toy_note 1)])])]
      indexer_start)) None None) = 1"
proof -
  let ?r = "[(Err ''refused'', Err ''x''), (Ok (), Ok [(5, [note_log_line pin_crypto hex_text borsh_le (toy_note 1)])])]
    :: ((string, unit) outcome \<times> (string, (u64 \<times> string list) list) outcome) list"
  have "notes_from_log_lines hex_text borsh_le (map (note_log_line pin_crypto hex_text borsh_le) [toy_note 1]) =
      map event_of_note [toy_note 1]"
    using pinboard_discriminators_pin
    by (intro notes_from_note_lines [OF text_laws_hex_text borsh_laws_le])
      (simp_all add: pinboard_discriminators_def event_ok_def note_fields_ok_def event_of_note_def toy_note_def)
  then have round: "concat (map (round_notes hex_text borsh_le) ?r) = [(5, event_of_note (toy_note 1))]"
    by (simp add: slot_notes_def)
  have "\<forall>(c, sub) \<in> set ?r. c \<noteq> Panic \<and> sub \<noteq> Panic" by simp
  from indexer_serves_stream [OF this, of hex_text borsh_le "''ws''" "[4]" None] round
  show ?thesis by simp
qed

end
