(* ===== verification/Servers.thy ===== *)
theory Servers
  imports Announcer Indexer
begin

text \<open>
  \<open>main\<close> of \<open>crates/slnt-announcer/src/main.rs\<close> and \<open>crates/slnt-indexer/src/main.rs\<close>: the arguments,
  the start-up and its failures, and the two HTTP interfaces, with what a client of the
  announcement service sees through them. axum's router is a parameter. A request comes with what
  the \<open>Json\<close> and \<open>Query\<close> extractors make of it, a value or the response of their rejection; a
  response is its status and the value it carries. A handler that panics drops the connection.
\<close>

section \<open>Requests and responses\<close>

datatype http_method = GET | POST

type_synonym 'a extracted = "(nat \<times> string, 'a) outcome"

datatype 'v reply_body = Plain string | Json 'v

type_synonym 'v reply = "nat \<times> 'v reply_body"

text \<open>The router: a table, a method and a path give the handler and what the path captured.\<close>

type_synonym 'h router =
  "(string \<times> http_method \<times> 'h) list \<Rightarrow> http_method \<Rightarrow> string \<Rightarrow> (nat \<times> string, 'h \<times> string list) outcome"

fun code_number :: "status_code \<Rightarrow> nat" where
  "code_number BAD_REQUEST = 400"
| "code_number NOT_FOUND = 404"
| "code_number SERVICE_UNAVAILABLE = 503"

text \<open>\<open>into_response\<close> of a \<open>Result<Json<T>, (StatusCode, String)>\<close>, and of a rejection.\<close>

fun respond :: "('a \<Rightarrow> 'v) \<Rightarrow> (status_code \<times> string, 'a) outcome \<Rightarrow> (unit, 'v reply) outcome" where
  "respond json (Ok x) = Ok (200, Json (json x))"
| "respond json (Err (code, text)) = Ok (code_number code, Plain text)"
| "respond json Panic = Panic"

definition reject :: "nat \<times> string \<Rightarrow> (unit, 'v reply) outcome" where
  "reject e = Ok (fst e, Plain (snd e))"

section \<open>The announcement service\<close>

record announcer_args =
  aa_pinboard :: string
  aa_rpc_url :: "string option"
  aa_keypair :: "string option"
  aa_bind :: string

definition announcer_args_default :: announcer_args where
  "announcer_args_default =
     \<lparr>aa_pinboard = ''SLNTPDxgFKwSZ31CbbdSKKHyRpBpKjEMYVj2gpGxkN2'', aa_rpc_url = None,
      aa_keypair = None, aa_bind = ''127.0.0.1:8082''\<rparr>"

text \<open>
  Up to the point where the server runs: an error ends the process with an exit code and a line on
  the error stream. \<open>bind\<close> says whether the address can be listened on, and serving begins.
\<close>

record 'k announcer_server =
  as_pinboard :: pubkey
  as_publisher :: "(string \<times> 'k) option"
  as_queue :: announce_queue

definition announcer_main ::
  "(string \<Rightarrow> pubkey option) \<Rightarrow> (string \<Rightarrow> (string, string) outcome) \<Rightarrow> (string \<Rightarrow> (string, bytes) outcome) \<Rightarrow>
     (bytes \<Rightarrow> (string, 'k) outcome) \<Rightarrow> (string \<Rightarrow> bool) \<Rightarrow> announcer_args \<Rightarrow>
     (nat \<times> string, 'k announcer_server) outcome" where
  "announcer_main pubkey_from_str read_to_string from_str keypair_try_from bind args =
     obind (expect_some (pubkey_from_str (aa_pinboard args))) (\<lambda>pinboard.
     let queue = queue_new in
     obind (case (aa_rpc_url args, aa_keypair args) of
              (Some rpc_url, Some keypair_path) \<Rightarrow>
                (case read_keypair read_to_string from_str keypair_try_from keypair_path of
                   Ok payer \<Rightarrow> Ok (Some (rpc_url, payer))
                 | Err e \<Rightarrow> Err (2, ''error: failed to load keypair `'' @ keypair_path @ ''`: '' @ e)
                 | Panic \<Rightarrow> Panic)
            | _ \<Rightarrow> Ok None) (\<lambda>publisher.
       if bind (aa_bind args)
       then Ok \<lparr>as_pinboard = pinboard, as_publisher = publisher, as_queue = queue\<rparr>
       else Panic))"

datatype announcer_endpoint = Post_Announce | Get_Status | Get_Health

datatype announcer_json = Announced announce_response | Status announce_status

record announcer_http =
  ah_method :: http_method
  ah_path :: string
  ah_body :: "announce_request extracted"

definition announcer_routes :: "(string \<times> http_method \<times> announcer_endpoint) list" where
  "announcer_routes =
     [(''/announce'', POST, Post_Announce),
      (''/announce/status/{batch_id}'', GET, Get_Status),
      (''/health'', GET, Get_Health)]"

fun announcer_handle ::
  "text_lib \<Rightarrow> announcer_endpoint \<Rightarrow> string list \<Rightarrow> announce_request extracted \<Rightarrow> announce_queue \<Rightarrow>
     (unit, announcer_json reply) outcome \<times> announce_queue" where
  "announcer_handle T Post_Announce captured body q =
     (case body of
        Ok req \<Rightarrow> (let (r, q') = post_announce T req q in (respond Announced r, q'))
      | Err e \<Rightarrow> (reject e, q)
      | Panic \<Rightarrow> (Panic, q))"
| "announcer_handle T Get_Status captured body q = (respond Status (get_status (hd captured) q), q)"
| "announcer_handle T Get_Health captured body q = (Ok (200, Plain ''ok''), q)"

definition announcer_app ::
  "announcer_endpoint router \<Rightarrow> text_lib \<Rightarrow> announcer_http \<Rightarrow> announce_queue \<Rightarrow>
     (unit, announcer_json reply) outcome \<times> announce_queue" where
  "announcer_app A T rq q =
     (case A announcer_routes (ah_method rq) (ah_path rq) of
        Ok (h, captured) \<Rightarrow> announcer_handle T h captured (ah_body rq) q
      | Err e \<Rightarrow> (reject e, q)
      | Panic \<Rightarrow> (Panic, q))"

section \<open>The indexer\<close>

record indexer_args =
  ia_pinboard :: string
  ia_ws_url :: string
  ia_bind :: string

definition indexer_args_default :: indexer_args where
  "indexer_args_default =
     \<lparr>ia_pinboard = ''SLNTPDxgFKwSZ31CbbdSKKHyRpBpKjEMYVj2gpGxkN2'',
      ia_ws_url = ''ws://127.0.0.1:8900'', ia_bind = ''127.0.0.1:8081''\<rparr>"

record indexer_server =
  is_pinboard :: pubkey
  is_ws_url :: string
  is_state :: indexer

definition indexer_main ::
  "(string \<Rightarrow> pubkey option) \<Rightarrow> (string \<Rightarrow> bool) \<Rightarrow> indexer_args \<Rightarrow> (nat \<times> string, indexer_server) outcome" where
  "indexer_main pubkey_from_str bind args =
     obind (expect_some (pubkey_from_str (ia_pinboard args))) (\<lambda>pinboard.
       if bind (ia_bind args)
       then Ok \<lparr>is_pinboard = pinboard, is_ws_url = ia_ws_url args, is_state = indexer_start\<rparr>
       else Panic)"

record announcements_query =
  aq_since_slot :: "u64 option"
  aq_limit :: "nat option"

datatype indexer_endpoint = List_Announcements | Store_Health

datatype indexer_json = Announcements "stored_announcement list" | Health health_report

record indexer_http =
  ih_method :: http_method
  ih_path :: string
  ih_query :: "announcements_query extracted"

definition indexer_routes :: "(string \<times> http_method \<times> indexer_endpoint) list" where
  "indexer_routes =
     [(''/announcements'', GET, List_Announcements), (''/health'', GET, Store_Health)]"

fun indexer_handle ::
  "indexer_endpoint \<Rightarrow> announcements_query extracted \<Rightarrow> announcement_store \<Rightarrow>
     (unit, indexer_json reply) outcome" where
  "indexer_handle List_Announcements params s =
     (case params of
        Ok q \<Rightarrow> Ok (200, Json (Announcements (get_announcements s (aq_since_slot q) (aq_limit q))))
      | Err e \<Rightarrow> reject e
      | Panic \<Rightarrow> Panic)"
| "indexer_handle Store_Health params s = Ok (200, Json (Health (health s)))"

definition indexer_app ::
  "indexer_endpoint router \<Rightarrow> indexer_http \<Rightarrow> announcement_store \<Rightarrow> (unit, indexer_json reply) outcome" where
  "indexer_app A rq s =
     (case A indexer_routes (ih_method rq) (ih_path rq) of
        Ok (h, captured) \<Rightarrow> indexer_handle h (ih_query rq) s
      | Err e \<Rightarrow> reject e
      | Panic \<Rightarrow> Panic)"

section \<open>Routing\<close>

text \<open>
  What the router does with the tables here, as axum documents it. Tables have distinct paths, each
  of letters, digits and slashes, but for at most one whose last segment is a capture. A path
  without a capture matches itself; the capture matches one non-empty segment, and letters and
  digits are captured as they stand.
\<close>

definition alnum :: "char \<Rightarrow> bool" where
  "alnum c \<longleftrightarrow> of_char c \<in> {48..57 :: nat} \<union> {65..90} \<union> {97..122}"

definition plain_segment :: "string \<Rightarrow> bool" where
  "plain_segment s \<longleftrightarrow> s \<noteq> [] \<and> (\<forall>c \<in> set s. alnum c)"

definition literal_path :: "string \<Rightarrow> bool" where
  "literal_path p \<longleftrightarrow> p \<noteq> [] \<and> hd p = CHR ''/'' \<and> (\<forall>c \<in> set p. c = CHR ''/'' \<or> alnum c)"

definition capture_path :: "string \<Rightarrow> string \<Rightarrow> bool" where
  "capture_path base p \<longleftrightarrow> literal_path base \<and> strip_prefix (base @ ''/{'') p \<noteq> None \<and> last p = CHR ''}''"

definition table_ok :: "(string \<times> http_method \<times> 'h) list \<Rightarrow> bool" where
  "table_ok routes \<longleftrightarrow> distinct (map fst routes) \<and>
     (\<forall>r \<in> set routes. literal_path (fst r) \<or> (\<exists>base. capture_path base (fst r))) \<and>
     length (filter (\<lambda>r. \<not> literal_path (fst r)) routes) \<le> 1"

definition axum_laws :: "'h router \<Rightarrow> bool" where
  "axum_laws A \<longleftrightarrow>
     (\<forall>routes m p h. table_ok routes \<longrightarrow> (p, m, h) \<in> set routes \<longrightarrow> literal_path p \<longrightarrow>
        A routes m p = Ok (h, [])) \<and>
     (\<forall>routes m p base seg h. table_ok routes \<longrightarrow> (p, m, h) \<in> set routes \<longrightarrow> capture_path base p \<longrightarrow>
        plain_segment seg \<longrightarrow> base @ ''/'' @ seg \<notin> set (map fst routes) \<longrightarrow>
        A routes m (base @ ''/'' @ seg) = Ok (h, [seg]))"

lemma alnum_brace: "\<not> alnum (CHR ''{'')" "\<not> alnum (CHR ''/'')"
  by (simp_all add: alnum_def)

lemma literal_path_plain: "literal_path p \<Longrightarrow> CHR ''{'' \<notin> set p"
  using alnum_brace by (auto simp: literal_path_def)

lemma capture_path_brace: "capture_path base p \<Longrightarrow> CHR ''{'' \<in> set p"
  by (auto simp: capture_path_def strip_prefix_Some_iff)

lemma announcer_routes_ok:
  "table_ok announcer_routes" "literal_path ''/announce''" "literal_path ''/health''"
  "capture_path ''/announce/status'' ''/announce/status/{batch_id}''"
proof -
  show lit: "literal_path ''/announce''" "literal_path ''/health''"
    by (simp_all add: literal_path_def alnum_def)
  show cap: "capture_path ''/announce/status'' ''/announce/status/{batch_id}''"
    by (simp add: capture_path_def literal_path_def alnum_def)
  have "\<not> literal_path ''/announce/status/{batch_id}''" using cap capture_path_brace literal_path_plain by blast
  with lit cap show "table_ok announcer_routes"
    by (auto simp: table_ok_def announcer_routes_def)
qed

lemma indexer_routes_ok:
  "table_ok indexer_routes" "literal_path ''/announcements''" "literal_path ''/health''"
  by (simp_all add: table_ok_def indexer_routes_def literal_path_def alnum_def)

lemma axum_literal:
  "axum_laws A \<Longrightarrow> table_ok routes \<Longrightarrow> (p, m, h) \<in> set routes \<Longrightarrow> literal_path p \<Longrightarrow> A routes m p = Ok (h, [])"
  unfolding axum_laws_def by blast

lemma axum_capture:
  "axum_laws A \<Longrightarrow> table_ok routes \<Longrightarrow> (p, m, h) \<in> set routes \<Longrightarrow> capture_path base p \<Longrightarrow> plain_segment seg \<Longrightarrow>
     base @ ''/'' @ seg \<notin> set (map fst routes) \<Longrightarrow> A routes m (base @ ''/'' @ seg) = Ok (h, [seg])"
  unfolding axum_laws_def by blast

lemma announcer_app_announce:
  assumes "axum_laws A"
  shows "announcer_app A T \<lparr>ah_method = POST, ah_path = ''/announce'', ah_body = Ok req\<rparr> q =
    (let (r, q') = post_announce T req q in (respond Announced r, q'))"
  using axum_literal [OF assms announcer_routes_ok(1) _ announcer_routes_ok(2)]
  by (simp add: announcer_app_def announcer_routes_def)

lemma announcer_app_status:
  assumes "axum_laws A" "plain_segment b"
  shows "announcer_app A T \<lparr>ah_method = GET, ah_path = ''/announce/status/'' @ b, ah_body = body\<rparr> q =
    (respond Status (get_status b q), q)"
proof -
  have "CHR ''{'' \<notin> set b" using assms(2) alnum_brace by (auto simp: plain_segment_def)
  then have "''/announce/status'' @ ''/'' @ b \<notin> set (map fst announcer_routes)"
    by (auto simp: announcer_routes_def)
  from axum_capture [OF assms(1) announcer_routes_ok(1) _ announcer_routes_ok(4) assms(2) this]
  show ?thesis by (simp add: announcer_app_def announcer_routes_def)
qed

lemma indexer_app_list:
  assumes "axum_laws A"
  shows "indexer_app A \<lparr>ih_method = GET, ih_path = ''/announcements'',
      ih_query = Ok \<lparr>aq_since_slot = t, aq_limit = limit\<rparr>\<rparr> s =
    Ok (200, Json (Announcements (get_announcements s t limit)))"
  using axum_literal [OF assms indexer_routes_ok(1) _ indexer_routes_ok(2)]
  by (simp add: indexer_app_def indexer_routes_def)

text \<open>A router for the examples: exact paths first, then the route with a capture.\<close>

definition captures :: "string \<Rightarrow> string \<Rightarrow> string option" where
  "captures q p =
     (if CHR ''{'' \<in> set q then
        (case strip_prefix (takeWhile (\<lambda>c. c \<noteq> CHR ''{'') q) p of
           Some seg \<Rightarrow> if plain_segment seg then Some seg else None
         | None \<Rightarrow> None)
      else None)"

definition toy_axum :: "'h router" where
  "toy_axum routes m p =
     (case find (\<lambda>(q, m', h). q = p) routes of
        Some (q, m', h) \<Rightarrow> if m' = m then Ok (h, []) else Err (405, [])
      | None \<Rightarrow>
          (case find (\<lambda>(q, m', h). captures q p \<noteq> None) routes of
             Some (q, m', h) \<Rightarrow>
               (case captures q p of
                  Some seg \<Rightarrow> if m' = m then Ok (h, [seg]) else Err (405, [])
                | None \<Rightarrow> Err (404, []))
           | None \<Rightarrow> Err (404, [])))"

lemma find_eq_SomeI:
  assumes "x \<in> set xs" "P x" "\<And>y. y \<in> set xs \<Longrightarrow> P y \<Longrightarrow> y = x"
  shows "find P xs = Some x"
  using assms(1,3)
proof (induction xs)
  case (Cons z zs)
  show ?case
  proof (cases "P z")
    case True
    then show ?thesis using Cons.prems(2) [of z] by simp
  next
    case False
    then have "x \<in> set zs" using Cons.prems(1) assms(2) by auto
    then show ?thesis using False Cons.IH Cons.prems(2) by simp
  qed
qed simp

lemma filter_singleton:
  assumes "length (filter P xs) \<le> 1" "x \<in> set xs" "P x" "y \<in> set xs" "P y"
  shows "y = x"
proof -
  define ys where "ys = filter P xs"
  have "x \<in> set ys" "y \<in> set ys" "length ys \<le> 1" using assms by (simp_all add: ys_def)
  then show ?thesis by (cases ys) auto
qed

lemma axum_laws_toy: "axum_laws toy_axum"
  unfolding axum_laws_def
proof (intro conjI allI impI)
  fix routes :: "(string \<times> http_method \<times> 'a) list" and m p h
  assume ok: "table_ok routes" and r: "(p, m, h) \<in> set routes"
  have "find (\<lambda>(q, m', h). q = p) routes = Some (p, m, h)"
    using ok r by (intro find_eq_SomeI) (auto simp: table_ok_def dest: eq_key_imp_eq_value)
  then show "toy_axum routes m p = Ok (h, [])" by (simp add: toy_axum_def)
next
  fix routes :: "(string \<times> http_method \<times> 'a) list" and m p base seg h
  assume ok: "table_ok routes" and r: "(p, m, h) \<in> set routes" and p: "capture_path base p"
    and seg: "plain_segment seg" and new: "base @ ''/'' @ seg \<notin> set (map fst routes)"
  let ?u = "base @ ''/'' @ seg"
  have lit: "CHR ''{'' \<notin> set base" using p literal_path_plain by (auto simp: capture_path_def)
  obtain x where x: "p = base @ ''/{'' @ x"
    using p by (auto simp: capture_path_def strip_prefix_Some_iff)
  have "takeWhile (\<lambda>c. c \<noteq> CHR ''{'') p = base @ ''/''"
    using lit by (auto simp: x takeWhile_append)
  then have cap: "captures p ?u = Some seg"
    using seg strip_prefix_append [of "base @ ''/''" seg] by (simp add: captures_def x)
  have one: "find (\<lambda>(q, m', h). captures q ?u \<noteq> None) routes = Some (p, m, h)"
  proof (intro find_eq_SomeI)
    fix y assume y: "y \<in> set routes" "case y of (q, m', h) \<Rightarrow> captures q ?u \<noteq> None"
    then have "CHR ''{'' \<in> set (fst y)" by (cases y) (auto simp: captures_def split: if_splits)
    then have "\<not> literal_path (fst y)" using literal_path_plain by blast
    moreover have "\<not> literal_path (fst (p, m, h))" using p capture_path_brace literal_path_plain by fastforce
    ultimately show "y = (p, m, h)"
      using ok r y(1) filter_singleton [of "\<lambda>r. \<not> literal_path (fst r)" routes] unfolding table_ok_def by blast
  qed (use r cap in auto)
  have "find (\<lambda>(q, m', h). q = ?u) routes = None"
    using new by (force simp: find_None_iff)
  with one cap show "toy_axum routes m ?u = Ok (h, [seg])" by (simp add: toy_axum_def)
qed

section \<open>A client of the announcement service\<close>

text \<open>
  What lies between the client and the service is a parameter: how \<open>reqwest\<close> prints a status, the
  path of the service a URL leads to or the error of \<open>send\<close>, the error when the connection is
  dropped without a response, what the service's \<open>Json\<close> extractor makes of a request the client
  serializes, and what \<open>resp.json()\<close> makes of a response's body.
\<close>

record http_lib =
  show_code :: "nat \<Rightarrow> string"
  route_url :: "string \<Rightarrow> string + string"
  dropped_text :: "string \<Rightarrow> string"
  extract_request :: "announce_request \<Rightarrow> announce_request extracted"
  decode_announced :: "announcer_json reply_body \<Rightarrow> (string, announce_response) outcome"
  decode_status :: "announcer_json reply_body \<Rightarrow> (string, announce_status) outcome"

text \<open>The service is reached under a base URL, and what one side serializes the other reads back.\<close>

definition http_laws :: "http_lib \<Rightarrow> string \<Rightarrow> bool" where
  "http_laws N base \<longleftrightarrow>
     (\<forall>p. literal_path p \<longrightarrow> route_url N (base @ p) = Inr p) \<and>
     (\<forall>req. extract_request N req = Ok req) \<and>
     (\<forall>x. decode_announced N (Json (Announced x)) = Ok x) \<and>
     (\<forall>x. decode_status N (Json (Status x)) = Ok x)"

fun received ::
  "http_lib \<Rightarrow> ('v reply_body \<Rightarrow> (string, 'a) outcome) \<Rightarrow> string \<Rightarrow> (unit, 'v reply) outcome \<Rightarrow>
     (string, 'a http_response) outcome" where
  "received N decode url (Ok (code, body)) =
     Ok \<lparr>hr_is_success = (200 \<le> code \<and> code < 300), hr_status = show_code N code, hr_json = decode body\<rparr>"
| "received N decode url _ = Err (dropped_text N url)"

definition served_post ::
  "http_lib \<Rightarrow> announcer_endpoint router \<Rightarrow> text_lib \<Rightarrow> announce_queue \<Rightarrow>
     string \<Rightarrow> announce_request \<Rightarrow> (string, announce_response http_response) outcome \<times> announce_queue" where
  "served_post N A T q url req =
     (case route_url N url of
        Inl e \<Rightarrow> (Err e, q)
      | Inr path \<Rightarrow>
          (let (r, q') = announcer_app A T
                 \<lparr>ah_method = POST, ah_path = path, ah_body = extract_request N req\<rparr> q in
           (received N (decode_announced N) url r, q')))"

text \<open>A \<open>GET\<close> has no body.\<close>

definition served_get ::
  "http_lib \<Rightarrow> announcer_endpoint router \<Rightarrow> text_lib \<Rightarrow> announce_queue \<Rightarrow>
     string \<Rightarrow> (string, announce_status http_response) outcome" where
  "served_get N A T q url =
     (case route_url N url of
        Inl e \<Rightarrow> Err e
      | Inr path \<Rightarrow>
          received N (decode_status N) url
            (fst (announcer_app A T \<lparr>ah_method = GET, ah_path = path, ah_body = Err (400, [])\<rparr> q)))"

text \<open>A call of the client against a queue.\<close>

abbreviation submit_to where
  "submit_to N A T c q req \<equiv> client_submit (\<lambda>url rq. fst (served_post N A T q url rq)) c req"

abbreviation queue_after where
  "queue_after N A T c q req \<equiv> snd (served_post N A T q (announce_url c) req)"

abbreviation status_from where
  "status_from N A T c q b \<equiv> client_status (served_get N A T q) c b"

text \<open>An error of a handler, as the client reports it.\<close>

fun over_http ::
  "http_lib \<Rightarrow> string \<Rightarrow> string \<Rightarrow> (status_code \<times> string, 'a) outcome \<Rightarrow> (slnt_error, 'a) outcome" where
  "over_http N what url (Ok x) = Ok x"
| "over_http N what url (Err (code, text)) = Err (Rpc (what @ '': HTTP '' @ show_code N (code_number code)))"
| "over_http N what url Panic = Err (Rpc (dropped_text N url))"

lemma code_number_fails: "\<not> (200 \<le> code_number k \<and> code_number k < 300)"
  by (cases k) simp_all

lemma http_routes:
  assumes "http_laws N (base_url c)"
  shows "route_url N (announce_url c) = Inr ''/announce''"
    and "plain_segment b \<Longrightarrow> route_url N (status_url c b) = Inr (''/announce/status/'' @ b)"
proof -
  have "literal_path (''/announce/status/'' @ b)" if "plain_segment b" for b
    using that by (auto simp: literal_path_def plain_segment_def alnum_def)
  then show "route_url N (announce_url c) = Inr ''/announce''"
    "plain_segment b \<Longrightarrow> route_url N (status_url c b) = Inr (''/announce/status/'' @ b)"
    using assms announcer_routes_ok(2) unfolding http_laws_def announce_url_def status_url_def by blast+
qed

lemma submit_over_http:
  assumes "axum_laws A" "http_laws N (base_url c)"
  shows "submit_to N A T c q req =
      over_http N ''POST /announce'' (announce_url c) (fst (post_announce T req q))"
    and "queue_after N A T c q req = snd (post_announce T req q)"
proof -
  obtain r q' where r: "post_announce T req q = (r, q')" by fastforce
  have "extract_request N req = Ok req" using assms(2) by (simp add: http_laws_def)
  then have post: "served_post N A T q (announce_url c) req =
      (received N (decode_announced N) (announce_url c) (respond Announced r), q')"
    by (simp add: served_post_def http_routes(1) [OF assms(2)] announcer_app_announce [OF assms(1)] r)
  then show "queue_after N A T c q req = snd (post_announce T req q)" by (simp add: r)
  show "submit_to N A T c q req =
      over_http N ''POST /announce'' (announce_url c) (fst (post_announce T req q))"
    using post code_number_fails assms(2)
    by (cases r) (auto simp: client_submit_def r http_laws_def)
qed

lemma status_over_http:
  assumes "axum_laws A" "http_laws N (base_url c)" "plain_segment b"
  shows "status_from N A T c q b = over_http N ''GET /announce/status'' (status_url c b) (get_status b q)"
proof -
  have "served_get N A T q (status_url c b) =
      received N (decode_status N) (status_url c b) (respond Status (get_status b q))"
    by (simp add: served_get_def http_routes(2) [OF assms(2,3)] announcer_app_status [OF assms(1,3), simplified])
  then show ?thesis
    using code_number_fails assms(2)
    by (cases "get_status b q") (auto simp: client_status_def http_laws_def)
qed

text \<open>A transport for the examples: the origin is a prefix, and JSON arrives as it was sent.\<close>

definition toy_http :: "(nat \<Rightarrow> string) \<Rightarrow> string \<Rightarrow> http_lib" where
  "toy_http show origin = \<lparr>show_code = show,
     route_url = (\<lambda>url. case strip_prefix origin url of
        Some path \<Rightarrow> Inr path | None \<Rightarrow> Inl ''error sending request''),
     dropped_text = (\<lambda>_. ''error sending request''),
     extract_request = Ok,
     decode_announced = (\<lambda>body. case body of Json (Announced x) \<Rightarrow> Ok x | _ \<Rightarrow> Err ''error decoding response body''),
     decode_status = (\<lambda>body. case body of Json (Status x) \<Rightarrow> Ok x | _ \<Rightarrow> Err ''error decoding response body'')\<rparr>"

lemma http_laws_toy: "http_laws (toy_http show origin) origin"
  by (simp add: http_laws_def toy_http_def strip_prefix_append)

lemma show_nat_segment: "plain_segment (show_nat n)"
proof -
  have "alnum (dec_digit d)" if "d < 10" for d using that by (simp add: alnum_def of_char_dec_digit)
  then show ?thesis using show_nat_digits [of _ n] by (fastforce simp: plain_segment_def)
qed

section \<open>Properties\<close>

text \<open>C30: the client of the SDK and the service agree over HTTP, wherever the service is reached under
  the client's base URL: a submission does to the queue what the handler does and returns the
  handler's response, and a status request returns the handler's answer; an error of the handler
  becomes the client's \<open>Rpc\<close> error with the status it is sent with, and its text is lost; where the
  service is not reached, the queue stays as it was and the client passes on the transport's error.\<close>

theorem client_sees_service:
  assumes "axum_laws A"
  shows "(http_laws N (base_url c) \<longrightarrow>
      client_submit (\<lambda>u r. fst (served_post N A T q u r)) c req =
        (case fst (post_announce T req q) of
           Ok resp \<Rightarrow> Ok resp
         | Err (code, _) \<Rightarrow> Err (Rpc (''POST /announce: HTTP '' @ show_code N (code_number code)))
         | Panic \<Rightarrow> Err (Rpc (dropped_text N (announce_url c))))
      \<and> snd (served_post N A T q (announce_url c) req) = snd (post_announce T req q)
      \<and> (plain_segment b \<longrightarrow>
         client_status (served_get N A T q) c b =
           (case get_status b q of
              Ok st \<Rightarrow> Ok st
            | Err (code, _) \<Rightarrow> Err (Rpc (''GET /announce/status: HTTP '' @ show_code N (code_number code)))
            | Panic \<Rightarrow> Err (Rpc (dropped_text N (status_url c b))))))
    \<and> (route_url N (base_url c @ ''/announce'') = Inl e \<longrightarrow>
      client_submit (\<lambda>u r. fst (served_post N A T q u r)) c req = Err (Rpc e)
      \<and> snd (served_post N A T q (announce_url c) req) = q)"
proof (intro conjI impI)
  assume http: "http_laws N (base_url c)"
  show "client_submit (\<lambda>u r. fst (served_post N A T q u r)) c req =
        (case fst (post_announce T req q) of
           Ok resp \<Rightarrow> Ok resp
         | Err (code, _) \<Rightarrow> Err (Rpc (''POST /announce: HTTP '' @ show_code N (code_number code)))
         | Panic \<Rightarrow> Err (Rpc (dropped_text N (announce_url c))))"
    unfolding submit_over_http [OF assms http] by (cases "fst (post_announce T req q)") auto
  show "snd (served_post N A T q (announce_url c) req) = snd (post_announce T req q)"
    by (rule submit_over_http(2) [OF assms http])
  show "client_status (served_get N A T q) c b =
      (case get_status b q of
         Ok st \<Rightarrow> Ok st
       | Err (code, _) \<Rightarrow> Err (Rpc (''GET /announce/status: HTTP '' @ show_code N (code_number code)))
       | Panic \<Rightarrow> Err (Rpc (dropped_text N (status_url c b))))" if "plain_segment b"
    unfolding status_over_http [OF assms http that] by (cases "get_status b q") auto
qed (simp_all add: client_submit_def served_post_def announce_url_def)

theorem client_sees_service_witness:
  "client_submit (\<lambda>u r. fst (served_post (toy_http (\<lambda>_. ''400 Bad Request'') ''http://a'') toy_axum hex_text queue_new u r))
      (announce_client_new ''http://a'') (sample_request\<lparr>ar_scheme_id := 0\<rparr>) =
    Err (Rpc ''POST /announce: HTTP 400 Bad Request'')
   \<and> client_status (served_get (toy_http (\<lambda>_. ''404 Not Found'') ''http://a'') toy_axum hex_text queue_new)
      (announce_client_new ''http://a'') ''7'' = Err (Rpc ''GET /announce/status: HTTP 404 Not Found'')"
proof -
  let ?c = "announce_client_new ''http://a''"
  have c: "base_url ?c = ''http://a''"
    by (simp add: announce_client_new_def trim_trailing_slashes.simps)
  have http: "http_laws (toy_http f ''http://a'') (base_url ?c)" for f
    unfolding c by (rule http_laws_toy)
  have shown: "show_code (toy_http f ''http://a'') = f" for f by (simp add: toy_http_def)
  have post: "post_announce hex_text (sample_request\<lparr>ar_scheme_id := 0\<rparr>) queue_new =
      (Err (BAD_REQUEST, ''scheme_id must be non-zero''), queue_new)"
    by (simp add: post_announce_def request_to_note_entry_def)
  have "show_nat (unat (7 :: u64)) = ''7''" by (simp add: show_nat.simps dec_digit_def) code_simp
  moreover have "status 7 queue_new = None" by (simp add: status_def queue_new_def with_caps_def)
  ultimately have get: "get_status ''7'' queue_new = Err (NOT_FOUND, ''unknown batch_id'')" "plain_segment ''7''"
    using get_status_show_nat [of 7 queue_new] show_nat_segment [of "unat (7 :: u64)"] by simp_all
  note sees = client_sees_service [OF axum_laws_toy, where T = hex_text and q = queue_new and c = ?c and
      req = "sample_request\<lparr>ar_scheme_id := 0\<rparr>" and b = "''7''", THEN conjunct1, THEN mp, OF http, unfolded shown]
  show ?thesis
    using sees [of "\<lambda>_. ''400 Bad Request''"] sees [of "\<lambda>_. ''404 Not Found''"] by (simp add: post get)
qed

text \<open>C29: a client that submits an announcement can follow it: from then on, whatever requests and
  rounds of the publisher happen, the status of the returned id is pending while the announcement
  waits or is in flight, and then the outcome of the round that published it, as long as fewer than
  50000 announcements were accepted after it; the announcement under this id is the one submitted.\<close>

theorem submitted_status_tracked:
  assumes "borsh_laws B" "axum_laws A" "http_laws N (base_url c)"
    and "reachable announcer_start (announcer_step T B pinboard payer) s"
    and "client_submit (\<lambda>u r. fst (served_post N A T (queue s) u r)) c req = Ok resp"
    and "request_to_note_entry T req = Ok e"
    and "(announcer_step T B pinboard payer)\<^sup>*\<^sup>*
      (s\<lparr>queue := snd (served_post N A T (queue s) (announce_url c) req),
         accepted := accepted s @ [(next_id (queue s), e)]\<rparr>) t"
  shows "\<exists>i. rs_batch_id resp = show_nat (unat i) \<and> unat i = length (accepted s) \<and>
    ((i, e) \<in> set (in_flight (publisher t) @ pending (queue t)) \<and>
       client_status (served_get N A T (queue t)) c (rs_batch_id resp) =
         Ok (to_wire_status Pending)
     \<or> (\<exists>st. ((i, e), st) \<in> set (settled t) \<and> st \<noteq> Pending \<and>
       client_status (served_get N A T (queue t)) c (rs_batch_id resp) =
         (if length (accepted t) \<le> length (accepted s) + 50000 then Ok (to_wire_status st)
          else Err (Rpc (''GET /announce/status: HTTP '' @ show_code N 404)))))"
proof -
  let ?i = "next_id (queue s)"
  note over = submit_over_http [OF assms(2,3), of T "queue s" req]
  obtain q where post: "post_announce T req (queue s) = (Ok resp, q)"
    using assms(5) unfolding over(1)
    by (cases "post_announce T req (queue s)"; cases "fst (post_announce T req (queue s))") auto
  let ?u = "s\<lparr>queue := q, accepted := accepted s @ [(?i, e)]\<rparr>"
  have inv: "announcer_inv s" using assms(1,4) by (rule reachable_announcer_inv)
  have "announcer_step T B pinboard payer s ?u" using post assms(6) by (rule step_post)
  then have "announcer_inv ?u" using announcer_inv_step assms(1) inv by blast
  moreover have run: "(announcer_step T B pinboard payer)\<^sup>*\<^sup>* ?u t"
    using assms(7) unfolding over(2) post by simp
  ultimately have t: "prefix (accepted ?u) (accepted t)" "announcer_inv t"
    using accepted_grows [OF assms(1)] by blast+
  then have "(?i, e) \<in> set (accepted t)" using set_mono_prefix [OF t(1)] by auto
  then have "(?i, e) \<in> fst ` set (settled t) \<or> (?i, e) \<in> set (unsettled t)"
    using log_invD(1) [of t] t(2) by (auto simp: announcer_inv_def)
  then have known: "(\<exists>st. ((?i, e), st) \<in> set (settled t)) \<or> (?i, e) \<in> set (unsettled t)" by force
  have resp: "rs_batch_id resp = show_nat (unat ?i)" using post by (rule post_announce_Ok) simp
  have len: "unat ?i = length (accepted s)" using inv log_invD(3) by (simp add: announcer_inv_def)
  have client: "status_from N A T c (queue t) (rs_batch_id resp) =
      over_http N ''GET /announce/status'' (status_url c (rs_batch_id resp)) (get_status (show_nat (unat ?i)) (queue t))"
    using status_over_http [OF assms(2,3), of "rs_batch_id resp" T "queue t"] show_nat_segment by (simp add: resp)
  show ?thesis
    unfolding client
    using known get_status_unsettled [OF t(2), of "(?i, e)"] get_status_settled [OF t(2), of "(?i, e)"] resp len
    by (intro exI [of _ ?i]) (auto simp: unsettled_def)
qed

theorem submitted_status_tracked_witness:
  "\<exists>resp q. client_submit (\<lambda>u r. fst (served_post (toy_http (\<lambda>_. []) ''http://a'') toy_axum hex_text queue_new u r))
       (announce_client_new ''http://a'') sample_request = Ok resp \<and>
     client_status (served_get (toy_http (\<lambda>_. []) ''http://a'') toy_axum hex_text q)
       (announce_client_new ''http://a'') (rs_batch_id resp) = Ok (to_wire_status Pending)"
proof -
  let ?c = "announce_client_new ''http://a''" and ?N = "toy_http (\<lambda>_. []) ''http://a''"
  have "base_url ?c = ''http://a''" by (simp add: announce_client_new_def trim_trailing_slashes.simps)
  then have http: "http_laws ?N (base_url ?c)" using http_laws_toy by simp
  obtain e where e: "request_to_note_entry hex_text sample_request = Ok e" using sample_request_Ok by blast
  have start: "queue announcer_start = queue_new" "settled announcer_start = []" by (simp_all add: announcer_start_def)
  have "has_room queue_new" by (simp add: has_room_def queue_new_def with_caps_def MAX_PENDING_def)
  then obtain resp where resp: "fst (post_announce hex_text sample_request queue_new) = Ok resp"
    using e by (auto simp: post_announce_def enqueue_Ok)
  then have sub: "submit_to ?N toy_axum hex_text ?c (queue announcer_start) sample_request = Ok resp"
    unfolding submit_over_http [OF axum_laws_toy http] start by simp
  let ?u = "announcer_start\<lparr>queue := queue_after ?N toy_axum hex_text ?c (queue announcer_start) sample_request,
       accepted := accepted announcer_start @ [(next_id (queue announcer_start), e)]\<rparr>"
  have "settled ?u = []" by (simp add: start)
  then have "status_from ?N toy_axum hex_text ?c (queue ?u) (rs_batch_id resp) = Ok (to_wire_status Pending)"
    using submitted_status_tracked [OF borsh_laws_le axum_laws_toy http reachable_start sub e rtranclp.rtrancl_refl]
    by (metis empty_iff list.set(1))
  with sub show ?thesis unfolding start by blast
qed

text \<open>Requests that arrive one after the other, with nothing in between.\<close>

fun post_all ::
  "text_lib \<Rightarrow> announce_request list \<Rightarrow> announce_queue \<Rightarrow>
     (status_code \<times> string, announce_response) outcome list \<times> announce_queue" where
  "post_all T [] q = ([], q)"
| "post_all T (req # reqs) q =
     (let (r, q) = post_announce T req q; (rs, q) = post_all T reqs q in (r # rs, q))"

lemma post_all_collects:
  assumes "announcer_inv s" "publisher s = Idle" "settled s = []" "length (accepted s) = min 10000 n"
    and "\<forall>req \<in> set reqs. \<exists>e. request_to_note_entry T req = Ok e"
  shows "\<exists>t. announcer_inv t \<and> publisher t = Idle \<and> settled t = [] \<and>
    length (accepted t) = min 10000 (n + length reqs) \<and>
    post_all T reqs (queue s) =
      (map (\<lambda>i. if i < 10000 then Ok \<lparr>rs_queued = True, rs_batch_id = show_nat i, rs_expected_slot = 0\<rparr>
                else Err (SERVICE_UNAVAILABLE, ''announcement queue is full'')) [n..<n + length reqs], queue t)"
  using assms
proof (induction reqs arbitrary: s n)
  case Nil
  then show ?case by auto
next
  case (Cons req reqs)
  obtain e where e: "request_to_note_entry T req = Ok e" using Cons.prems(5) by auto
  have log: "log_inv s" and bounds: "bounds_inv s" using Cons.prems(1) by (simp_all add: announcer_inv_def)
  have len: "length (pending (queue s)) = min 10000 n" "unat (next_id (queue s)) = min 10000 n"
    using log_invD(1,3) [OF log] Cons.prems(2-4) by (simp_all add: unsettled_def)
  have caps: "max_pending (queue s) = 10000" using bounds by (simp add: bounds_inv_def MAX_PENDING_def)
  have range: "[n..<n + length (req # reqs)] = n # [Suc n..<Suc n + length reqs]"
    using upt_conv_Cons [of n "n + length (req # reqs)"] by (simp del: upt_Suc)
  show ?case
  proof (cases "n < 10000")
    case True
    have room: "has_room (queue s)" using len caps True by (simp add: has_room_def)
    let ?q = "set_status (next_id (queue s)) Pending (queue s\<lparr>next_id := next_id (queue s) + 1,
        pending := pending (queue s) @ [(next_id (queue s), e)]\<rparr>)"
    let ?u = "s\<lparr>queue := ?q, accepted := accepted s @ [(next_id (queue s), e)]\<rparr>"
    have "post_announce T req (queue s) =
        (Ok \<lparr>rs_queued = True, rs_batch_id = show_nat n, rs_expected_slot = 0\<rparr>, ?q)"
      using e room len True by (simp add: post_announce_def enqueue_Ok)
    moreover have "announcer_inv ?u" using inv_post [OF Cons.prems(1) room request_postable [OF e]] .
    ultimately show ?thesis
      using Cons.IH [of ?u "Suc n"] Cons.prems(2-5) True unfolding range by (force simp: Let_def)
  next
    case False
    have "post_announce T req (queue s) = (Err (SERVICE_UNAVAILABLE, ''announcement queue is full''), queue s)"
      using e len caps False by (simp add: post_announce_def enqueue_def)
    then show ?thesis
      using Cons.IH [of s "Suc n"] Cons.prems False unfolding range by (force simp: Let_def)
  qed
qed

text \<open>C33: without an RPC URL or without a keypair the service starts and only collects: of any sequence
  of valid requests it accepts the first 10000, numbered from 0, and refuses every one after them
  with 503, since nothing drains the queue; and the status of each accepted one stays pending.\<close>

theorem collect_only_fills:
  assumes "announcer_main pubkey_from_str read_to_string from_str keypair_try_from bind args = Ok sv"
    and "aa_rpc_url args = None \<or> aa_keypair args = None"
    and "\<forall>req \<in> set reqs. \<exists>e. request_to_note_entry T req = Ok e"
  shows "as_publisher sv = None \<and>
    fst (post_all T reqs (as_queue sv)) =
      map (\<lambda>i. if i < 10000 then Ok \<lparr>rs_queued = True, rs_batch_id = show_nat i, rs_expected_slot = 0\<rparr>
               else Err (SERVICE_UNAVAILABLE, ''announcement queue is full'')) [0..<length reqs]
    \<and> pending_len (snd (post_all T reqs (as_queue sv))) = min 10000 (length reqs)
    \<and> (i < min 10000 (length reqs) \<longrightarrow>
         get_status (show_nat i) (snd (post_all T reqs (as_queue sv))) = Ok (to_wire_status Pending))"
proof -
  have sv: "as_publisher sv = None" "as_queue sv = queue announcer_start"
    using assms(1,2)
    by (auto simp: announcer_main_def announcer_start_def obind_Ok_iff split: option.splits if_splits outcome.splits)
  obtain t where t: "announcer_inv t" "publisher t = Idle" "settled t = []"
    "length (accepted t) = min 10000 (length reqs)"
    "post_all T reqs (queue announcer_start) =
      (map (\<lambda>i. if i < 10000 then Ok \<lparr>rs_queued = True, rs_batch_id = show_nat i, rs_expected_slot = 0\<rparr>
                else Err (SERVICE_UNAVAILABLE, ''announcement queue is full'')) [0..<length reqs], queue t)"
    using post_all_collects [OF announcer_inv_start _ _ _ assms(3), of 0] by (auto simp: announcer_start_def)
  have log: "log_inv t" using t(1) by (simp add: announcer_inv_def)
  have acc: "accepted t = unsettled t" "unsettled t = pending (queue t)"
    using log_invD(1) [OF log] t(2,3) by (simp_all add: unsettled_def)
  have "get_status (show_nat i) (queue t) = Ok (to_wire_status Pending)" if "i < length (accepted t)"
  proof -
    let ?x = "accepted t ! i"
    have "map (unat \<circ> fst) (accepted t) ! i = i" unfolding log_invD(2) [OF log] using that by simp
    then have "unat (fst ?x) = i" using that by simp
    moreover have "?x \<in> set (unsettled t)" using that nth_mem acc(1) by metis
    ultimately show ?thesis using get_status_unsettled [OF t(1)] by metis
  qed
  then show ?thesis
    unfolding sv t(5) using t(4) acc by (auto simp: pending_len_def)
qed

theorem collect_only_fills_witness:
  "\<exists>(sv :: unit announcer_server).
     announcer_main (\<lambda>_. Some [4]) (\<lambda>_. Err []) (\<lambda>_. Err []) (\<lambda>_. Err []) (\<lambda>_. True) announcer_args_default = Ok sv \<and>
     fst (post_all hex_text [sample_request, sample_request] (as_queue sv)) =
       [Ok \<lparr>rs_queued = True, rs_batch_id = ''0'', rs_expected_slot = 0\<rparr>,
        Ok \<lparr>rs_queued = True, rs_batch_id = ''1'', rs_expected_slot = 0\<rparr>]"
proof -
  let ?sv = "\<lparr>as_pinboard = [4], as_publisher = None, as_queue = queue_new\<rparr> :: unit announcer_server"
  have main: "announcer_main (\<lambda>_. Some [4]) (\<lambda>_. Err []) (\<lambda>_. Err []) (\<lambda>_. Err []) (\<lambda>_. True)
      announcer_args_default = Ok ?sv"
    by (simp add: announcer_main_def announcer_args_default_def)
  have digits: "show_nat 0 = ''0''" "show_nat 1 = ''1''" by (simp_all add: show_nat.simps dec_digit_def, code_simp+)
  have "[0..<2] = [0 :: nat, 1]" by (simp add: upt_rec)
  then show ?thesis
    using collect_only_fills [OF main, of "[sample_request, sample_request]" hex_text 0] sample_request_Ok main digits
    by (intro exI [of _ ?sv]) (simp add: announcer_args_default_def numeral_2_eq_2)
qed

text \<open>C34: how the announcement service starts: a keypair file that cannot be read, parsed or used ends
  the process with exit code 2 and the reason, never with a panic; the only panics are an invalid
  pinboard address and an address that cannot be bound; and a service that runs publishes exactly
  when both options are given, with a key of 64 bytes from the file.\<close>

theorem announcer_startup:
  assumes "\<forall>path. read_to_string path \<noteq> Panic" "\<forall>c. from_str c \<noteq> Panic" "\<forall>b. keypair_try_from b \<noteq> Panic"
    and r: "announcer_main pubkey_from_str read_to_string from_str keypair_try_from bind args = r"
  shows "(r = Panic \<longrightarrow> pubkey_from_str (aa_pinboard args) = None \<or> \<not> bind (aa_bind args))
    \<and> (r = Err (code, text) \<longrightarrow> code = 2 \<and>
        (\<exists>url path e. aa_rpc_url args = Some url \<and> aa_keypair args = Some path \<and>
           read_keypair read_to_string from_str keypair_try_from path = Err e \<and>
           text = ''error: failed to load keypair `'' @ path @ ''`: '' @ e))
    \<and> (r = Ok sv \<longrightarrow> pubkey_from_str (aa_pinboard args) = Some (as_pinboard sv) \<and> bind (aa_bind args) \<and>
        (as_publisher sv = None \<longleftrightarrow> aa_rpc_url args = None \<or> aa_keypair args = None))
    \<and> (r = Ok sv \<and> as_publisher sv = Some (url, k) \<longrightarrow> aa_rpc_url args = Some url \<and>
        (\<exists>path contents nums. aa_keypair args = Some path \<and> read_to_string path = Ok contents \<and>
           from_str contents = Ok nums \<and> length nums = 64 \<and> keypair_try_from nums = Ok k))"
proof -
  have total: "read_keypair read_to_string from_str keypair_try_from path \<noteq> Panic" for path
    using assms(1-3) by (auto simp: read_keypair_def obind_Panic_iff omap_err_Panic_iff)
  have key: "\<exists>contents nums. read_to_string path = Ok contents \<and> from_str contents = Ok nums \<and>
      length nums = 64 \<and> keypair_try_from nums = Ok k"
    if "read_keypair read_to_string from_str keypair_try_from path = Ok k" for path
    using that by (auto simp: read_keypair_def obind_Ok_iff split: if_splits)
  show ?thesis
  proof (cases "pubkey_from_str (aa_pinboard args)")
    case None
    then show ?thesis using r by (auto simp: announcer_main_def)
  next
    case (Some pid)
    show ?thesis
    proof (cases "aa_rpc_url args = None \<or> aa_keypair args = None")
      case True
      with Some r show ?thesis
        by (auto simp: announcer_main_def split: option.splits if_splits)
    next
      case False
      then obtain u path where opts: "aa_rpc_url args = Some u" "aa_keypair args = Some path" by auto
      show ?thesis
        using r Some opts total [of path] key [of path]
        by (cases "read_keypair read_to_string from_str keypair_try_from path")
          (auto simp: announcer_main_def split: if_splits)
    qed
  qed
qed

theorem announcer_startup_witness:
  "announcer_main (\<lambda>_. Some [4]) (\<lambda>_. Ok ''[1]'') (\<lambda>_. Ok [1]) (\<lambda>b. Ok b) (\<lambda>_. True)
      (announcer_args_default\<lparr>aa_rpc_url := Some ''http://r'', aa_keypair := Some ''k''\<rparr>) =
    Err (2, ''error: failed to load keypair `k`: expected 64 bytes, got 1'')"
proof -
  let ?args = "announcer_args_default\<lparr>aa_rpc_url := Some ''http://r'', aa_keypair := Some ''k''\<rparr>"
  let ?m = "announcer_main (\<lambda>_. Some [4]) (\<lambda>_. Ok ''[1]'') (\<lambda>_. Ok [1]) (\<lambda>b. Ok b) (\<lambda>_. True) ?args"
  have read: "read_keypair (\<lambda>_. Ok ''[1]'') (\<lambda>_. Ok [1]) (\<lambda>b. Ok b) ''k'' = Err ''expected 64 bytes, got 1''"
    by (simp add: read_keypair_def show_nat.simps dec_digit_def) code_simp
  note start = announcer_startup [where read_to_string = "\<lambda>_. Ok ''[1]''" and from_str = "\<lambda>_. Ok [1]" and
      keypair_try_from = "\<lambda>b. Ok b" and pubkey_from_str = "\<lambda>_. Some [4]" and bind = "\<lambda>_. True" and args = ?args]
  have "?m \<noteq> Ok sv" for sv using read by (simp add: announcer_main_def announcer_args_default_def)
  moreover have "?m \<noteq> Panic" using start by simp
  ultimately obtain code msg where "?m = Err (code, msg)" by (cases ?m) auto
  moreover from start [OF _ _ _ this] read have "code = 2 \<and>
      msg = ''error: failed to load keypair `k`: expected 64 bytes, got 1''"
    by (simp add: announcer_args_default_def)
  ultimately show ?thesis by simp
qed

end
