(* ===== verification/Delivery.thy ===== *)
theory Delivery
  imports Lifecycle Servers
begin

text \<open>
  A payment announced through the announcement service: the components of one delivery put
  together, from the sender's client over the service, its publisher, the pinboard program, the
  log stream and the indexer to the recipient's scan.
\<close>

section \<open>A batch on chain\<close>

text \<open>The note lines of the transaction that carries a batch: the program run on its instruction.\<close>

definition batch_log ::
  "('s, 'p, 'k) crypto \<Rightarrow> text_lib \<Rightarrow> borsh_lib \<Rightarrow> pubkey \<Rightarrow> pubkey \<Rightarrow> note_entry list \<Rightarrow> string list" where
  "batch_log C T B pinboard payer es =
     (case build_post_batch_instruction B pinboard payer es :: (slnt_error, instruction) outcome of
        Ok ix \<Rightarrow> map (note_log_line C T B) (fst (run_post_batch B (accounts ix) (drop 8 (data ix))))
      | _ \<Rightarrow> [])"

definition entry_event :: "note_entry \<Rightarrow> note_event" where
  "entry_event e = \<lparr>ev_scheme_id = ne_scheme_id e, ev_ephemeral_pub = ne_ephemeral_pub e,
     ev_view_tag = ne_view_tag e, ev_metadata = ne_metadata e\<rparr>"

lemma notes_from_parsed:
  "map (\<lambda>n. try_parse_note_log T B (f n)) ns = map (\<lambda>e. Ok (Some (g e))) es \<Longrightarrow>
     notes_from_log_lines T B (map f ns) = map g es"
proof (induction es arbitrary: ns)
  case (Cons e es)
  then show ?case by (cases ns) (auto simp: notes_from_Cons)
qed simp

lemma batch_log_notes:
  assumes "text_laws T" "borsh_laws B" "pinboard_discriminators C"
    and "es \<noteq> []" "length es \<le> 50" "\<forall>e \<in> set es. postable e"
  shows "notes_from_log_lines T B (batch_log C T B pinboard payer es) = map entry_event es"
proof -
  have "\<forall>e \<in> set es. is_array 32 (ne_ephemeral_pub e) \<and> length (ne_metadata e) \<le> 64"
    using assms(6) by (auto simp: postable_def)
  from sdk_batch_accepted [OF assms(1-5) this, of pinboard payer] obtain ix body posted where ix:
    "build_post_batch_instruction B pinboard payer es = (Ok ix :: (slnt_error, instruction) outcome)"
    "data ix = discriminator C ''global'' ''post_batch'' @ body"
    "run_post_batch B (accounts ix) body = (posted, Ok ())"
    "map (\<lambda>n. try_parse_note_log T B (note_log_line C T B n)) posted = map (\<lambda>e. Ok (Some (entry_event e))) es"
    unfolding entry_event_def by blast
  have "drop 8 (data ix) = body"
    using assms(3) by (simp add: ix(2) pinboard_discriminators_def POST_BATCH_DISCRIMINATOR_def)
  then have "batch_log C T B pinboard payer es = map (note_log_line C T B) posted"
    by (simp add: batch_log_def ix(1,3))
  then show ?thesis using notes_from_parsed [OF ix(4)] by simp
qed

text \<open>The batch in flight with the id of an accepted announcement carries its entry.\<close>

lemma in_flight_entry:
  assumes "announcer_inv t" "publisher t = Sending b" "x \<in> set b" "(fst x, e) \<in> set (accepted t)"
  shows "snd x = e" "\<forall>e \<in> set (map snd b). postable e" "length b \<le> 50"
proof -
  have log: "log_inv t" using assms(1) by (simp add: announcer_inv_def)
  have sub: "set b \<subseteq> set (accepted t)"
    unfolding log_invD(1) [OF log] unsettled_def assms(2) by auto
  have "(fst x, snd x) \<in> set (accepted t)" using subsetD [OF sub assms(3)] by simp
  from eq_key_imp_eq_value [OF log_inv_ids [OF log] this assms(4)] show "snd x = e" .
  show "\<forall>e \<in> set (map snd b). postable e" using sub log_invD(4) [OF log] by auto
  show "length b \<le> 50"
    using assms(1,2) by (simp add: announcer_inv_def bounds_inv_def MAX_BATCH_def)
qed

lemma show_nat_unat_inj: "show_nat (unat i) = show_nat (unat j) \<longleftrightarrow> i = (j :: u64)"
  by (metis parse_u64_show_nat option.inject)

text \<open>A submission that the client saw accepted, as a step of the service.\<close>

lemma submitted:
  assumes "axum_laws A" "http_laws N (base_url c)" "submit_to N A T c (queue s) req = Ok resp"
    and "queue s' = queue_after N A T c (queue s) req"
    and "request_to_note_entry T req = Ok e" "announcer_inv s"
    and "announcer_step T B pinboard payer s s'" "accepted s' \<noteq> accepted s"
  shows "rs_batch_id resp = show_nat (unat (next_id (queue s)))"
    and "(next_id (queue s), e) \<in> set (accepted s')"
proof -
  obtain q where post: "post_announce T req (queue s) = (Ok resp, q)"
    using assms(3) unfolding submit_over_http [OF assms(1,2)]
    by (cases "post_announce T req (queue s)"; cases "fst (post_announce T req (queue s))") auto
  then have q: "queue s' = q" using assms(4) unfolding submit_over_http [OF assms(1,2)] by simp
  show "rs_batch_id resp = show_nat (unat (next_id (queue s)))" using post by (rule post_announce_Ok) simp
  have pq: "pending q = pending (queue s) @ [(next_id (queue s), e)]"
    using post by (rule post_announce_Ok) (use assms(5) in simp)
  from assms(7) show "(next_id (queue s), e) \<in> set (accepted s')"
  proof cases
    case (step_post req' resp' q' e')
    from step_post(2) have "pending q' = pending (queue s) @ [(next_id (queue s), e')]"
      by (rule post_announce_Ok) (use step_post(3) in simp)
    then show ?thesis using step_post(1) q pq by simp
  qed (use assms(8) in simp_all)
qed

text \<open>What the indexer answers once a log has been delivered.\<close>

lemma indexer_lists:
  fixes url :: string and pid :: pubkey
  assumes "\<forall>(c, sub) \<in> set rounds. c \<noteq> Panic \<and> sub \<noteq> Panic"
    and "length (concat (map (round_notes T B) rounds)) \<le> 1000000"
    and "length (filter (\<lambda>(t, _). slot \<le> t) (concat (map (round_notes T B) rounds))) \<le> 10000"
    and "(Ok client, Ok stream) \<in> set rounds" "(slot, ls) \<in> set stream" "n \<in> set (notes_from_log_lines T B ls)"
  shows "from_note T slot n \<in>
    set (get_announcements (shared (ingest_rounds T B url pid rounds indexer_start)) (Some slot) (Some 10000))"
proof -
  let ?all = "concat (map (round_notes T B) rounds)"
  have "length ?all < 2 ^ 64" using assms(2) by simp
  note got = ingested(2) [OF assms(1) this, of url pid]
  have items: "items (shared (ingest_rounds T B url pid rounds indexer_start)) =
      map (\<lambda>(t, n). from_note T t n) ?all"
    unfolding got using assms(2) by (intro keep_last_small) simp
  have "(slot, n) \<in> set (slot_notes T B stream)"
    using assms(5,6) by (force simp: slot_notes_def)
  then have mem: "(slot, n) \<in> set ?all" using assms(4) by force
  have slot: "sa_slot (from_note T t n) = t" for t n by (simp add: from_note_def)
  have "filter (\<lambda>a. slot \<le> sa_slot a) (map (\<lambda>(t, n). from_note T t n) xs) =
      map (\<lambda>(t, n). from_note T t n) (filter (\<lambda>(t, _). slot \<le> t) xs)" for xs
    by (induction xs) (auto simp: slot)
  moreover have "from_note T slot n \<in> set (map (\<lambda>(t, n). from_note T t n) (filter (\<lambda>(t, _). slot \<le> t) ?all))"
    using mem by force
  ultimately show ?thesis
    using assms(3) by (simp add: get_announcements_def query_def items MAX_LIMIT_def)
qed

section \<open>A service for the example\<close>

text \<open>A new service takes one request, and its publisher takes it up.\<close>

lemma toy_in_flight:
  assumes "request_to_note_entry hex_text req = Ok e" "http_laws N (base_url c)"
  shows "\<exists>resp s t i.
    submit_to N toy_axum hex_text c (queue announcer_start) req = Ok resp \<and>
    queue s = queue_after N toy_axum hex_text c (queue announcer_start) req \<and>
    announcer_step hex_text borsh_le [4] [2] announcer_start s \<and> accepted s \<noteq> accepted announcer_start \<and>
    (announcer_step hex_text borsh_le [4] [2])\<^sup>*\<^sup>* s t \<and> publisher t = Sending [(i, e)] \<and>
    show_nat (unat i) = rs_batch_id resp"
proof -
  have start: "queue announcer_start = queue_new" "publisher announcer_start = Idle"
    by (simp_all add: announcer_start_def)
  have "has_room queue_new" "pending queue_new = []"
    by (simp_all add: has_room_def queue_new_def with_caps_def MAX_PENDING_def)
  then obtain resp q where post: "post_announce hex_text req queue_new = (Ok resp, q)"
    "pending q = [(next_id queue_new, e)]" "rs_batch_id resp = show_nat (unat (next_id queue_new))"
    using assms(1) by (auto simp: post_announce_def enqueue_Ok)
  let ?s = "announcer_start\<lparr>queue := q, accepted := accepted announcer_start @ [(next_id (queue announcer_start), e)]\<rparr>"
  let ?b = "[(next_id queue_new, e)]"
  obtain q' where take: "take_pending MAX_BATCH q = (?b, q')"
    using post(2) by (cases "take_pending MAX_BATCH q") (auto simp: take_pending_eq MAX_BATCH_def)
  let ?t = "?s\<lparr>queue := q', publisher := Sending ?b\<rparr>"
  have "announcer_step hex_text borsh_le [4] [2] announcer_start ?s"
    using post(1) assms(1) unfolding start(1) by (rule step_post [where s = announcer_start, unfolded start(1)])
  moreover have "(announcer_step hex_text borsh_le [4] [2])\<^sup>*\<^sup>* ?s ?t"
    using step_take [of ?s] take start by (intro r_into_rtranclp) simp
  moreover have "submit_to N toy_axum hex_text c (queue announcer_start) req = Ok resp"
    "queue ?s = queue_after N toy_axum hex_text c (queue announcer_start) req"
    unfolding submit_over_http [OF axum_laws_toy assms(2)] start using post(1) by simp_all
  ultimately show ?thesis
    using post(3) by (intro exI [of _ resp] exI [of _ ?s] exI [of _ ?t] exI [of _ "next_id queue_new"]) simp
qed

section \<open>Properties\<close>

text \<open>C2: a payment announced through the service reaches its recipient: the sender's client submits the
  announcement of the payment; when the batch that holds the returned id is published and the
  log of its transaction is delivered to an indexer, among other lines and other logs, the
  indexer's \<open>GET /announcements\<close> from that slot lists an announcement whose key and view tag the
  recipient's scan matches, with the address that was paid and a scalar that signs for it. The
  indexer must have kept the note (a million) and the answer must hold all from the slot on (ten
  thousand).\<close>

theorem announced_payment_found:
  assumes "text_laws T" "borsh_laws B" "pinboard_discriminators C"
    and "group_laws C" "compress_laws C" "dh_laws C" "scalar_laws C" "axum_laws A" "axum_laws A'"
    and "http_laws N (base_url c)"
    and "derive_stealth_keys C sig = Ok (spend, scan)"
    and "derive_payment C fill (from_keys C spend scan) rng = (Ok p, rng')"
    and "from_payment p metadata = Ok a"
    and "reachable announcer_start (announcer_step T B pinboard payer) s"
    and "client_submit (\<lambda>u r. fst (served_post N A T (queue s) u r)) c
      (from_announcement T a proof_text) = Ok resp"
    and "queue s' = snd (served_post N A T (queue s) (announce_url c)
      (from_announcement T a proof_text))"
    and "announcer_step T B pinboard payer s s'" "accepted s' \<noteq> accepted s"
    and "(announcer_step T B pinboard payer)\<^sup>*\<^sup>* s' t" "publisher t = Sending b"
    and "x \<in> set b" "show_nat (unat (fst x)) = rs_batch_id resp"
    and "\<forall>(con, sub) \<in> set rounds. con \<noteq> Panic \<and> sub \<noteq> Panic"
    and "(Ok con, Ok stream) \<in> set rounds"
    and "(slot, before @ batch_log C T B pinboard payer (map snd b) @ after) \<in> set stream"
    and "length (concat (map (round_notes T B) rounds)) \<le> 1000000"
    and "length (filter (\<lambda>(t, _). slot \<le> t) (concat (map (round_notes T B) rounds))) \<le> 10000"
  shows "\<exists>anns ann eph m.
    indexer_app A' \<lparr>ih_method = GET, ih_path = ''/announcements'',
        ih_query = Ok \<lparr>aq_since_slot = Some slot, aq_limit = Some 10000\<rparr>\<rparr>
      (shared (ingest_rounds T B url pinboard rounds indexer_start)) = Ok (200, Json (Announcements anns))
    \<and> ann \<in> set anns \<and> sa_slot ann = slot \<and> b58_decode T (sa_ephemeral_pub ann) = Ok eph
    \<and> scan_note C spend scan eph (sa_view_tag ann) = Ok (Some m)
    \<and> nm_stealth_address m = stealth_address p
    \<and> verifies C (stealth_address p) message (sign C (signing_key_new C (nm_stealth_scalar m)) message)"
proof -
  let ?req = "from_announcement T a proof_text" and ?i = "next_id (queue s)"
  let ?e = "\<lparr>ne_scheme_id = 1, ne_ephemeral_pub = ephemeral_pub p, ne_view_tag = view_tag p,
    ne_metadata = metadata\<rparr>"
  note wf = derive_stealth_keys_wf [OF assms(11)]
  obtain m where m: "scan_note C spend scan (ephemeral_pub p) (view_tag p) = Ok (Some m)"
      "nm_stealth_address m = stealth_address p"
      "compress C (point_mul C (nm_stealth_scalar m) (basepoint C)) = stealth_address p"
    using scan_finds_match [OF assms(4-6) wf assms(12)] by blast
  have sig: "verifies C (stealth_address p) message (sign C (signing_key_new C (nm_stealth_scalar m)) message)"
    using sign_new_verifies [OF assms(4,5,7), of "nm_stealth_scalar m" message] m(3)
    by (simp add: public_bytes_new address_for_scalar_def)
  have eph: "is_array 32 (ephemeral_pub p)"
    using assms(12) by (rule derive_payment_Ok) (simp add: dh_lawsD [OF assms(6)])
  have e: "request_to_note_entry T ?req = Ok ?e"
    using assms(13) eph unfolding request_of_announcement [OF assms(1)]
    by (auto simp: from_payment_def SCHEME_ID_V1_def ANNOUNCE_MAX_METADATA_LEN_def split: if_splits)
  have inv: "announcer_inv s" using assms(2,14) by (rule reachable_announcer_inv)
  note sent = submitted [OF assms(8,10,15,16) e inv assms(17,18)]
  have t: "prefix (accepted s') (accepted t)" "announcer_inv t"
    using accepted_grows [OF assms(2) announcer_inv_step [OF assms(2) inv assms(17)] assms(19)] by blast+
  have "fst x = ?i" using assms(22) sent(1) by (simp add: show_nat_unat_inj)
  then have acc: "(fst x, ?e) \<in> set (accepted t)" using set_mono_prefix [OF t(1)] sent(2) by auto
  note fl = in_flight_entry [OF t(2) assms(20,21) acc]
  have "map snd b \<noteq> []" using assms(21) by auto
  from batch_log_notes [OF assms(1-3) this _ fl(2)] fl(1,3) assms(21)
  have "entry_event ?e \<in> set (notes_from_log_lines T B (before @ batch_log C T B pinboard payer (map snd b) @ after))"
    by (force simp: image_iff)
  from indexer_lists [OF assms(23,26,27,24,25) this, of url pinboard]
  have "\<exists>ann eph m. ann \<in> set (get_announcements (shared (ingest_rounds T B url pinboard rounds indexer_start))
        (Some slot) (Some 10000)) \<and> sa_slot ann = slot \<and> b58_decode T (sa_ephemeral_pub ann) = Ok eph \<and>
      scan_note C spend scan eph (sa_view_tag ann) = Ok (Some m) \<and> nm_stealth_address m = stealth_address p \<and>
      verifies C (stealth_address p) message (sign C (signing_key_new C (nm_stealth_scalar m)) message)"
    using m(1,2) sig text_lawsD(1) [OF assms(1)]
    by (intro exI [of _ "from_note T slot (entry_event ?e)"] exI [of _ "ephemeral_pub p"] exI [of _ m])
      (simp add: from_note_def entry_event_def)
  then show ?thesis unfolding indexer_app_list [OF assms(9)] by auto
qed

theorem announced_payment_found_witness:
  "\<exists>p lines anns ann eph m.
     derive_payment pin_crypto toy_fill (from_keys pin_crypto toy_spend toy_scan) 3 = (Ok p, 4) \<and>
     indexer_app toy_axum \<lparr>ih_method = GET, ih_path = ''/announcements'',
         ih_query = Ok \<lparr>aq_since_slot = Some 5, aq_limit = Some 10000\<rparr>\<rparr>
       (shared (ingest_rounds hex_text borsh_le ''ws'' [4] [(Ok (), Ok [(5, lines)])] indexer_start)) =
       Ok (200, Json (Announcements anns)) \<and> ann \<in> set anns \<and> b58_decode hex_text (sa_ephemeral_pub ann) = Ok eph \<and>
     scan_note pin_crypto toy_spend toy_scan eph (sa_view_tag ann) = Ok (Some m) \<and>
     nm_stealth_address m = stealth_address p"
proof -
  obtain p where pay: "derive_payment pin_crypto toy_fill (from_keys pin_crypto toy_spend toy_scan) 3 = (Ok p, 4)"
    using pin_payment by blast
  have eph: "is_array 32 (ephemeral_pub p)"
    using pay by (rule derive_payment_Ok) (simp add: dh_lawsD [OF pin_crypto_laws(4)])
  let ?a = "\<lparr>an_scheme_id = 1, an_ephemeral_pub = ephemeral_pub p, an_view_tag = view_tag p, an_metadata = []\<rparr>"
  let ?e = "\<lparr>ne_scheme_id = 1, ne_ephemeral_pub = ephemeral_pub p, ne_view_tag = view_tag p, ne_metadata = []\<rparr>"
  let ?req = "from_announcement hex_text ?a None" and ?c = "announce_client_new ''http://a''"
    and ?N = "toy_http (\<lambda>_. []) ''http://a''"
  have a: "from_payment p [] = Ok ?a" by (simp add: from_payment_def SCHEME_ID_V1_def)
  have e: "request_to_note_entry hex_text ?req = Ok ?e"
    using eph by (simp add: request_of_announcement [OF text_laws_hex_text])
  have "base_url ?c = ''http://a''" by (simp add: announce_client_new_def trim_trailing_slashes.simps)
  then have http: "http_laws ?N (base_url ?c)" using http_laws_toy by simp
  from toy_in_flight [OF e http] obtain resp s t i where run:
    "submit_to ?N toy_axum hex_text ?c (queue announcer_start) ?req = Ok resp"
    "queue s = queue_after ?N toy_axum hex_text ?c (queue announcer_start) ?req"
    "announcer_step hex_text borsh_le [4] [2] announcer_start s" "accepted s \<noteq> accepted announcer_start"
    "(announcer_step hex_text borsh_le [4] [2])\<^sup>*\<^sup>* s t" "publisher t = Sending [(i, ?e)]"
    "show_nat (unat (fst (i, ?e))) = rs_batch_id resp"
    unfolding fst_conv by blast
  let ?b = "[(i, ?e)]"
  let ?l = "batch_log pin_crypto hex_text borsh_le [4] [2] (map snd ?b)"
  let ?r = "[(Ok (), Ok [(5, [] @ ?l @ [])])] :: ((string, unit) outcome \<times> (string, (u64 \<times> string list) list) outcome) list"
  have "notes_from_log_lines hex_text borsh_le ?l = [entry_event ?e]"
    using batch_log_notes [OF text_laws_hex_text borsh_laws_le pinboard_discriminators_pin, of "[?e]" "[4]" "[2]"] eph
    by (simp add: postable_def)
  then have len: "length (concat (map (round_notes hex_text borsh_le) ?r)) \<le> 1000000"
    "length (filter (\<lambda>(t, _). 5 \<le> t) (concat (map (round_notes hex_text borsh_le) ?r))) \<le> 10000"
    by (simp_all add: slot_notes_def)
  have mem: "(i, ?e) \<in> set ?b" by simp
  have "\<forall>(con, sub) \<in> set ?r. con \<noteq> Panic \<and> sub \<noteq> Panic" "(Ok (), Ok [(5, [] @ ?l @ [])]) \<in> set ?r"
    "(5, [] @ ?l @ []) \<in> set [(5, [] @ ?l @ [])]"
    by simp_all
  from announced_payment_found [OF text_laws_hex_text borsh_laws_le pinboard_discriminators_pin
      pin_crypto_laws(1,2,4,3) axum_laws_toy axum_laws_toy http pin_keys pay a reachable_start run(1-6) mem run(7)
      this len, of "''ws''" "[]"] pay
  show ?thesis unfolding append_Nil append_Nil2 by blast
qed

end
