(* ===== verification/Announcer_Spec.thy ===== *)
theory Announcer_Spec
  imports Announcer
begin

text \<open>
  What the announcement service promises, without its queue, id counter, status map and eviction
  order: an office that numbers the announcements it takes in and gives each a status. The service
  of \<open>Announcer\<close> is a refinement of it: every sequence of requests, answers and publisher rounds the
  service can show is one the office can show, so what is proved of the office holds of the
  service.
\<close>

section \<open>The office\<close>

text \<open>
  One entry per accepted announcement; its number is its position. The publisher has taken those
  before \<open>taken\<close> and settled those before \<open>finished\<close>.
\<close>

record office =
  tickets :: "(note_entry \<times> batch_status) list"
  finished :: nat
  taken :: nat

definition office_start :: office where
  "office_start = \<lparr>tickets = [], finished = 0, taken = 0\<rparr>"

text \<open>What can be observed: a request and its answer, and the rounds of the publisher.\<close>

datatype service_event =
    Submit announce_request "(status_code \<times> string, announce_response) outcome"
  | Query string "(status_code \<times> string, announce_status) outcome"
  | Take "note_entry list"
  | Finish batch_status
  | Crash

definition answer :: "string \<Rightarrow> office \<Rightarrow> (status_code \<times> string, announce_status) outcome" where
  "answer b a =
     (case parse_u64 b of
        None \<Rightarrow> Err (BAD_REQUEST, ''invalid batch_id'')
      | Some i \<Rightarrow>
          if unat i < length (tickets a) \<and> length (tickets a) \<le> unat i + 50000
          then Ok (to_wire_status (snd (tickets a ! unat i)))
          else Err (NOT_FOUND, ''unknown batch_id''))"

inductive office_does :: "text_lib \<Rightarrow> office \<Rightarrow> service_event \<Rightarrow> office \<Rightarrow> bool" for T where
  office_accept:
    "request_to_note_entry T req = Ok e \<Longrightarrow> length (tickets a) < taken a + 10000 \<Longrightarrow>
     Suc (length (tickets a)) < 2 ^ 64 \<Longrightarrow>
     office_does T a
       (Submit req (Ok \<lparr>rs_queued = True, rs_batch_id = show_nat (length (tickets a)), rs_expected_slot = 0\<rparr>))
       (a\<lparr>tickets := tickets a @ [(e, Pending)]\<rparr>)"
| office_full:
    "request_to_note_entry T req = Ok e \<Longrightarrow> taken a + 10000 \<le> length (tickets a) \<Longrightarrow>
     office_does T a (Submit req (Err (SERVICE_UNAVAILABLE, ''announcement queue is full''))) a"
| office_invalid:
    "request_to_note_entry T req = Err x \<Longrightarrow> office_does T a (Submit req (Err (BAD_REQUEST, x))) a"
| office_panic:
    "request_to_note_entry T req = Panic \<or> 2 ^ 64 \<le> Suc (length (tickets a)) \<Longrightarrow>
     office_does T a (Submit req Panic) a"
| office_query: "office_does T a (Query b (answer b a)) a"
| office_take:
    "finished a = taken a \<Longrightarrow> taken a < length (tickets a) \<Longrightarrow>
     office_does T a (Take (map fst (take 40 (drop (taken a) (tickets a)))))
       (a\<lparr>taken := min (taken a + 40) (length (tickets a))\<rparr>)"
| office_finish:
    "finished a < taken a \<Longrightarrow> st \<noteq> Pending \<Longrightarrow>
     office_does T a (Finish st)
       (a\<lparr>tickets := take (finished a) (tickets a) @
            map (\<lambda>(e, _). (e, st)) (drop (finished a) (take (taken a) (tickets a))) @
            drop (taken a) (tickets a),
          finished := taken a\<rparr>)"

section \<open>The service, with what can be observed of it\<close>

inductive announcer_does ::
  "text_lib \<Rightarrow> borsh_lib \<Rightarrow> pubkey \<Rightarrow> pubkey \<Rightarrow> announcer \<Rightarrow> service_event \<Rightarrow> announcer \<Rightarrow> bool"
  for T B pinboard payer where
  does_accept:
    "post_announce T req (queue s) = (Ok resp, q) \<Longrightarrow> request_to_note_entry T req = Ok e \<Longrightarrow>
     announcer_does T B pinboard payer s (Submit req (Ok resp))
       (s\<lparr>queue := q, accepted := accepted s @ [(next_id (queue s), e)]\<rparr>)"
| does_refuse:
    "post_announce T req (queue s) = (r, q) \<Longrightarrow> \<forall>resp. r \<noteq> Ok resp \<Longrightarrow>
     announcer_does T B pinboard payer s (Submit req r) (s\<lparr>queue := q\<rparr>)"
| does_query: "announcer_does T B pinboard payer s (Query b (get_status b (queue s))) s"
| does_take:
    "publisher s = Idle \<Longrightarrow> take_pending MAX_BATCH (queue s) = (b, q) \<Longrightarrow> b \<noteq> [] \<Longrightarrow>
     announcer_does T B pinboard payer s (Take (map snd b)) (s\<lparr>queue := q, publisher := Sending b\<rparr>)"
| does_finish:
    "publisher s = Sending b \<Longrightarrow> rpc_laws payer (R :: bytes rpc_lib) \<Longrightarrow>
     publish B R pinboard payer (map snd b) = r \<Longrightarrow> result_status r = Some st \<Longrightarrow>
     announcer_does T B pinboard payer s (Finish st)
       (s\<lparr>queue := snd (finish_batch (map fst b) r (queue s)), publisher := Idle,
          settled := settled s @ map (\<lambda>x. (x, st)) b\<rparr>)"
| does_crash:
    "publisher s = Sending b \<Longrightarrow> rpc_laws payer (R :: bytes rpc_lib) \<Longrightarrow>
     publish B R pinboard payer (map snd b) = Panic \<Longrightarrow>
     announcer_does T B pinboard payer s Crash (s\<lparr>publisher := Dead\<rparr>)"

text \<open>Forgetting the events gives the steps of \<open>Announcer\<close>, a query being none.\<close>

lemma does_step:
  "announcer_does T B pinboard payer s ev t \<Longrightarrow> t = s \<or> announcer_step T B pinboard payer s t"
  by (induction rule: announcer_does.induct)
    (blast intro: step_post step_refuse step_take step_finish step_panic)+

lemma step_does:
  "announcer_step T B pinboard payer s t \<Longrightarrow> \<exists>ev. announcer_does T B pinboard payer s ev t"
  by (induction rule: announcer_step.induct)
    (blast intro: does_accept does_refuse does_take does_finish does_crash)+

section \<open>The abstraction\<close>

definition office_of :: "announcer \<Rightarrow> office" where
  "office_of s =
     \<lparr>tickets = map (\<lambda>(x, st). (snd x, st)) (settled s) @ map (\<lambda>x. (snd x, Pending)) (unsettled s),
      finished = length (settled s),
      taken = length (settled s) + length (in_flight (publisher s))\<rparr>"

lemma office_of_start: "office_of announcer_start = office_start"
  by (simp add: office_of_def announcer_start_def office_start_def unsettled_def queue_new_def with_caps_def)

lemma length_tickets:
  assumes "announcer_inv s"
  shows "length (tickets (office_of s)) = length (accepted s)"
    "length (tickets (office_of s)) = taken (office_of s) + length (pending (queue s))"
proof -
  have "log_inv s" using assms by (simp add: announcer_inv_def)
  then have "length (accepted s) = length (settled s) + length (unsettled s)"
    using log_invD(1) by (metis length_append length_map)
  then show "length (tickets (office_of s)) = length (accepted s)"
    by (simp add: office_of_def)
qed (simp add: office_of_def unsettled_def)

text \<open>The ticket of an id, and what the service answers for it.\<close>

lemma ticket_status:
  assumes "announcer_inv s" "unat i < length (accepted s)"
  shows "(i, snd (tickets (office_of s) ! unat i)) \<in> set (ledger s)"
proof -
  have log: "log_inv s" using assms(1) by (simp add: announcer_inv_def)
  define jobs where "jobs = settled s @ map (\<lambda>x. (x, Pending)) (unsettled s)"
  have tickets: "tickets (office_of s) = map (\<lambda>j. (snd (fst j), snd j)) jobs"
    and ledger: "ledger s = map (\<lambda>j. (fst (fst j), snd j)) jobs"
    by (simp_all add: jobs_def office_of_def ledger_def split_beta)
  have accepted: "accepted s = map fst jobs"
    unfolding log_invD(1) [OF log] by (simp add: jobs_def comp_def)
  have len: "unat i < length jobs" using assms(2) accepted by simp
  then have "unat (fst (fst (jobs ! unat i))) = unat i"
    using log_invD(2) [OF log] accepted
    by (metis (no_types, lifting) add_0 comp_apply length_map nth_map nth_upt)
  then have "fst (fst (jobs ! unat i)) = i" by (simp add: word_unat_eq_iff)
  then have "(i, snd (tickets (office_of s) ! unat i)) = (\<lambda>j. (fst (fst j), snd j)) (jobs ! unat i)"
    using len by (simp add: tickets)
  then show ?thesis using nth_mem [OF len] unfolding ledger set_map by blast
qed

lemma answers_agree:
  assumes "announcer_inv s"
  shows "get_status b (queue s) = answer b (office_of s)"
proof (cases "parse_u64 b")
  case (Some i)
  note len = length_tickets(1) [OF assms]
  show ?thesis
  proof (cases "unat i < length (accepted s)")
    case True
    from status_ledger [OF assms ticket_status [OF assms True]] remembered_iff [OF assms, of i] True
    show ?thesis by (simp add: get_status_def answer_def Some len)
  next
    case False
    then have "status i (queue s) = None"
      using remembered_iff [OF assms, of i] assms
      by (simp add: announcer_inv_def history_inv_def status_def)
    with False show ?thesis by (simp add: get_status_def answer_def Some len)
  qed
qed (simp add: get_status_def answer_def)

section \<open>Every step of the service is a step of the office\<close>

lemma office_submits:
  assumes inv: "announcer_inv s" and post: "post_announce T req (queue s) = (Ok resp, q)"
    and e: "request_to_note_entry T req = Ok e"
  shows "office_does T (office_of s) (Submit req (Ok resp))
    (office_of (s\<lparr>queue := q, accepted := accepted s @ [(next_id (queue s), e)]\<rparr>))"
proof -
  have q: "has_room (queue s)" "pending q = pending (queue s) @ [(next_id (queue s), e)]"
    "resp = \<lparr>rs_queued = True, rs_batch_id = show_nat (unat (next_id (queue s))), rs_expected_slot = 0\<rparr>"
    using post by (rule post_announce_Ok, use e in simp)+
  have log: "log_inv s" and bounds: "bounds_inv s" using inv by (simp_all add: announcer_inv_def)
  note len = length_tickets [OF inv] log_invD(3) [OF log]
  have room: "length (pending (queue s)) < 10000" "Suc (unat (next_id (queue s))) < 2 ^ 64"
    using q(1) bounds by (simp_all add: has_room_def bounds_inv_def MAX_PENDING_def)
  have "resp = \<lparr>rs_queued = True, rs_batch_id = show_nat (length (tickets (office_of s))), rs_expected_slot = 0\<rparr>"
    using len q(3) by simp
  moreover have "office_of (s\<lparr>queue := q, accepted := accepted s @ [(next_id (queue s), e)]\<rparr>) =
      office_of s\<lparr>tickets := tickets (office_of s) @ [(e, Pending)]\<rparr>"
    by (simp add: office_of_def unsettled_def q(2))
  moreover have "length (tickets (office_of s)) < taken (office_of s) + 10000"
    using len(2) room(1) by linarith
  moreover have "Suc (length (tickets (office_of s))) < 2 ^ 64" using len room(2) by simp
  ultimately show ?thesis using office_accept [OF e] by simp
qed

lemma office_refuses:
  assumes inv: "announcer_inv s" and post: "post_announce T req (queue s) = (r, q)" "\<forall>resp. r \<noteq> Ok resp"
  shows "office_does T (office_of s) (Submit req r) (office_of s)"
proof (cases "request_to_note_entry T req")
  case (Ok e)
  have log: "log_inv s" and bounds: "bounds_inv s" using inv by (simp_all add: announcer_inv_def)
  note len = length_tickets [OF inv] log_invD(3) [OF log]
  have cap: "max_pending (queue s) = 10000" using bounds by (simp add: bounds_inv_def MAX_PENDING_def)
  show ?thesis
  proof (cases "10000 \<le> length (pending (queue s))")
    case True
    then have "r = Err (SERVICE_UNAVAILABLE, ''announcement queue is full'')"
      using post(1) Ok cap by (simp add: post_announce_def enqueue_def)
    moreover have "taken (office_of s) + 10000 \<le> length (tickets (office_of s))" using True len(2) by linarith
    ultimately show ?thesis using office_full [OF Ok] by simp
  next
    case False
    then have "\<not> has_room (queue s)" "\<not> 10000 \<le> length (pending (queue s))"
      using post Ok by (auto simp: post_announce_def enqueue_Ok)
    then have "r = Panic" "2 ^ 64 \<le> Suc (unat (next_id (queue s)))"
      using post(1) Ok cap by (auto simp: has_room_def post_announce_def enqueue_def add_u64_def Let_def)
    then show ?thesis using len office_panic by simp
  qed
next
  case (Err x)
  then have "r = Err (BAD_REQUEST, x)" using post(1) by (simp add: post_announce_def)
  then show ?thesis using office_invalid [OF Err] by simp
next
  case Panic
  then have "r = Panic" using post(1) by (simp add: post_announce_def)
  then show ?thesis using office_panic Panic by blast
qed

lemma office_takes:
  assumes inv: "announcer_inv s" and "publisher s = Idle" "take_pending MAX_BATCH (queue s) = (b, q)" "b \<noteq> []"
  shows "office_does T (office_of s) (Take (map snd b)) (office_of (s\<lparr>queue := q, publisher := Sending b\<rparr>))"
proof -
  let ?a = "office_of s" and ?p = "pending (queue s)"
  have b: "b = take 40 ?p" "pending q = drop 40 ?p"
    using assms(3) by (auto simp: take_pending_eq MAX_BATCH_def)
  have idle: "in_flight (publisher s) = []" using assms(2) by simp
  have drop: "drop (taken ?a) (tickets ?a) = map (\<lambda>x. (snd x, Pending)) ?p"
    by (simp add: office_of_def idle unsettled_def)
  have "map fst (take 40 (drop (taken ?a) (tickets ?a))) = map snd b"
    by (simp add: drop b(1) take_map comp_def)
  moreover have "finished ?a = taken ?a" by (simp add: office_of_def idle)
  moreover have "taken ?a < length (tickets ?a)"
    using length_tickets(2) [OF inv] assms(4) b(1) by auto
  moreover have "office_of (s\<lparr>queue := q, publisher := Sending b\<rparr>) =
      ?a\<lparr>taken := min (taken ?a + 40) (length (tickets ?a))\<rparr>"
    using unsettled_take [OF assms(2,3)] length_tickets(2) [OF inv]
    by (auto simp: office_of_def idle b min_def)
  ultimately show ?thesis using office_take [of ?a T] by simp
qed

lemma office_finishes:
  assumes inv: "announcer_inv s" and "publisher s = Sending b" "b \<noteq> []" "st \<noteq> Pending"
  shows "office_does T (office_of s) (Finish st)
    (office_of (s\<lparr>queue := set_statuses (map fst b) st (queue s), publisher := Idle,
       settled := settled s @ map (\<lambda>x. (x, st)) b\<rparr>))" (is "office_does T _ _ (office_of ?t)")
proof -
  let ?a = "office_of s" and ?old = "map (\<lambda>(x, st). (snd x, st)) (settled s)"
  let ?wait = "map (\<lambda>x. (snd x, Pending)) (pending (queue s))"
  have frame: "pending (set_statuses ids st q) = pending q" for ids q
    by (induction ids arbitrary: q) simp_all
  have t: "tickets ?a = ?old @ map (\<lambda>x. (snd x, Pending)) b @ ?wait" "finished ?a = length ?old"
    "taken ?a = length ?old + length b"
    using assms(2) by (simp_all add: office_of_def unsettled_def)
  have "tickets (office_of ?t) = ?old @ map (\<lambda>x. (snd x, st)) b @ ?wait"
    "finished (office_of ?t) = taken ?a" "taken (office_of ?t) = taken ?a"
    using t(3) by (simp_all add: office_of_def unsettled_def frame comp_def)
  moreover have "take (finished ?a) (tickets ?a) = ?old" "drop (taken ?a) (tickets ?a) = ?wait"
    "map (\<lambda>(e, _). (e, st)) (drop (finished ?a) (take (taken ?a) (tickets ?a))) = map (\<lambda>x. (snd x, st)) b"
    using t by (simp_all add: comp_def)
  ultimately have "office_of ?t = ?a\<lparr>tickets := take (finished ?a) (tickets ?a) @
            map (\<lambda>(e, _). (e, st)) (drop (finished ?a) (take (taken ?a) (tickets ?a))) @
            drop (taken ?a) (tickets ?a), finished := taken ?a\<rparr>"
    by (intro office.equality) simp_all
  moreover have "finished ?a < taken ?a" using t assms(3) by simp
  ultimately show ?thesis using office_finish [of ?a st T] assms(4) by simp
qed

definition batch_inv :: "announcer \<Rightarrow> bool" where
  "batch_inv s \<longleftrightarrow> announcer_inv s \<and> publisher s \<noteq> Sending []"

lemma batch_inv_start: "batch_inv announcer_start"
  by (simp add: batch_inv_def announcer_inv_start) (simp add: announcer_start_def)

lemma batch_inv_step:
  assumes "borsh_laws B" "batch_inv s" "announcer_does T B pinboard payer s ev t"
  shows "batch_inv t"
proof -
  have "announcer_inv t"
    using does_step [OF assms(3)] announcer_inv_step [OF assms(1)] assms(2) unfolding batch_inv_def by blast
  moreover have "publisher t \<noteq> Sending []"
    using assms(3,2) by cases (simp_all add: batch_inv_def)
  ultimately show ?thesis by (simp add: batch_inv_def)
qed

lemma office_simulates:
  assumes "borsh_laws B" "batch_inv s" "announcer_does T B pinboard payer s ev t"
  shows "office_does T (office_of s) ev (office_of t)"
proof -
  have inv: "announcer_inv s" using assms(2) by (simp add: batch_inv_def)
  from assms(3) show ?thesis
  proof cases
    case (does_accept req resp q e)
    then show ?thesis using office_submits [OF inv] by simp
  next
    case (does_refuse req r q)
    then have "q = queue s" using post_announce_not_Ok by blast
    then show ?thesis using office_refuses [OF inv does_refuse(3,4)] does_refuse(1,2) by simp
  next
    case (does_query b)
    then show ?thesis using answers_agree [OF inv] office_query by simp
  next
    case (does_take b q)
    then show ?thesis using office_takes [OF inv] by simp
  next
    case (does_finish b R r st)
    then have "b \<noteq> []" using assms(2) by (auto simp: batch_inv_def)
    then show ?thesis
      using office_finishes [OF inv does_finish(3)] finish_batch_status [OF does_finish(6)] does_finish(1,2) by simp
  next
    case (does_crash b R)
    then show ?thesis
      using publish_not_Panic [OF assms(1) does_crash(4) in_flight_ok [OF inv does_crash(3)]] by simp
  qed
qed

interpretation office: simulation
  announcer_start "\<lambda>s ev t. borsh_laws B \<and> announcer_does T B pinboard payer s ev t" batch_inv
  office_start "office_does T" office_of for T B pinboard payer
  by unfold_locales (auto simp: batch_inv_start office_of_start intro: office_simulates dest: batch_inv_step)

lemma run_with_laws:
  "borsh_laws B \<Longrightarrow> run (\<lambda>s ev t. borsh_laws B \<and> announcer_does T B pinboard payer s ev t) s evs t \<longleftrightarrow>
     run (announcer_does T B pinboard payer) s evs t"
  by (induction evs arbitrary: s) auto

section \<open>What the office promises\<close>

text \<open>The ticket of a number keeps its entry, and its status once that is not pending.\<close>

definition keeps :: "office \<Rightarrow> office \<Rightarrow> bool" where
  "keeps a b \<longleftrightarrow> length (tickets a) \<le> length (tickets b) \<and> finished a \<le> finished b \<and>
     (\<forall>i < length (tickets a). fst (tickets b ! i) = fst (tickets a ! i) \<and>
        (i < finished a \<longrightarrow> tickets b ! i = tickets a ! i))"

definition office_inv :: "office \<Rightarrow> bool" where
  "office_inv a \<longleftrightarrow> finished a \<le> taken a \<and> taken a \<le> length (tickets a) \<and>
     (\<forall>i < length (tickets a). snd (tickets a ! i) = Pending \<longleftrightarrow> finished a \<le> i)"

lemma office_inv_start: "office_inv office_start"
  by (simp add: office_inv_def office_start_def)

lemma finished_tickets:
  assumes "finished a \<le> taken a" "taken a \<le> length (tickets a)" "i < length (tickets a)"
  shows "(take (finished a) (tickets a) @
      map (\<lambda>(e, _). (e, st)) (drop (finished a) (take (taken a) (tickets a))) @
      drop (taken a) (tickets a)) ! i =
    (if finished a \<le> i \<and> i < taken a then (fst (tickets a ! i), st) else tickets a ! i)"
  using assms by (auto simp: nth_append min_def split_beta)

lemma finish_effect:
  assumes "office_inv a" "office_does T a (Finish st) c"
  shows "length (tickets c) = length (tickets a)" "finished c = taken a" "taken c = taken a" "st \<noteq> Pending"
    and "i < length (tickets a) \<Longrightarrow> tickets c ! i =
      (if finished a \<le> i \<and> i < taken a then (fst (tickets a ! i), st) else tickets a ! i)"
proof -
  from assms(2) have c: "c = a\<lparr>tickets := take (finished a) (tickets a) @
            map (\<lambda>(e, _). (e, st)) (drop (finished a) (take (taken a) (tickets a))) @
            drop (taken a) (tickets a), finished := taken a\<rparr>" "finished a < taken a" "st \<noteq> Pending"
    by (auto elim: office_does.cases)
  then show "length (tickets c) = length (tickets a)" "finished c = taken a" "taken c = taken a" "st \<noteq> Pending"
    using assms(1) by (auto simp: office_inv_def min_def)
  show "tickets c ! i =
      (if finished a \<le> i \<and> i < taken a then (fst (tickets a ! i), st) else tickets a ! i)"
    if "i < length (tickets a)"
    using finished_tickets [of a i st] assms(1) that unfolding c(1) by (simp add: office_inv_def)
qed

lemma office_step:
  assumes "office_inv a" "office_does T a ev b"
  shows "office_inv b \<and> keeps a b"
  using assms(2)
proof cases
  case (office_accept req e)
  with assms(1) show ?thesis by (auto simp: office_inv_def keeps_def nth_append)
next
  case (office_finish st)
  from finish_effect [OF assms(1) assms(2) [unfolded office_finish(1)]] office_finish(3) assms(1)
  show ?thesis by (auto simp: office_inv_def keeps_def)
qed (use assms(1) in \<open>auto simp: office_inv_def keeps_def\<close>)

lemma office_run:
  "office_inv a \<Longrightarrow> run (office_does T) a evs b \<Longrightarrow> office_inv b \<and> keeps a b"
proof (induction evs arbitrary: a)
  case (Cons ev evs)
  then obtain c where c: "office_does T a ev c" "run (office_does T) c evs b" by auto
  then have "office_inv c" "keeps a c" using office_step [OF Cons.prems(1)] by blast+
  moreover from this have "office_inv b" "keeps c b" using Cons.IH c(2) by blast+
  ultimately show ?case by (force simp: keeps_def)
qed (simp add: keeps_def)

text \<open>The answers to one query over time.\<close>

lemma office_answer_stable:
  assumes "office_inv a" "keeps a b" "office_inv b" "answer q a = Ok st"
  shows "\<exists>st'. (answer q b = Ok st' \<or> answer q b = Err (NOT_FOUND, ''unknown batch_id'')) \<and>
    (as_status st \<noteq> ''pending'' \<longrightarrow> st' = st)"
proof -
  from assms(4) obtain i where i: "parse_u64 q = Some i" "unat i < length (tickets a)"
    "st = to_wire_status (snd (tickets a ! unat i))"
    by (auto simp: answer_def split: option.splits if_splits)
  have "tickets b ! unat i = tickets a ! unat i" if "as_status st \<noteq> ''pending''"
  proof -
    have "snd (tickets a ! unat i) \<noteq> Pending" using that i(3) by auto
    then have "unat i < finished a" using assms(1) i(2) by (auto simp: office_inv_def)
    then show ?thesis using assms(2) i(2) by (simp add: keeps_def)
  qed
  then show ?thesis using i
    by (intro exI [of _ "to_wire_status (snd (tickets b ! unat i))"]) (auto simp: answer_def)
qed

text \<open>What a list of events says of the announcements taken in and of those taken up.\<close>

fun accepted_of :: "text_lib \<Rightarrow> service_event list \<Rightarrow> (string \<times> note_entry) list" where
  "accepted_of T [] = []"
| "accepted_of T (Submit req (Ok resp) # evs) =
     (case request_to_note_entry T req of
        Ok e \<Rightarrow> (rs_batch_id resp, e) # accepted_of T evs
      | _ \<Rightarrow> accepted_of T evs)"
| "accepted_of T (_ # evs) = accepted_of T evs"

fun taken_of :: "service_event list \<Rightarrow> note_entry list" where
  "taken_of [] = []"
| "taken_of (Take es # evs) = es @ taken_of evs"
| "taken_of (_ # evs) = taken_of evs"

lemma office_counts:
  assumes "office_inv a" "run (office_does T) a evs b"
  shows "map fst (tickets b) = map fst (tickets a) @ map snd (accepted_of T evs)
    \<and> map fst (accepted_of T evs) = map show_nat [length (tickets a)..<length (tickets b)]
    \<and> map fst (take (taken b) (tickets b)) = map fst (take (taken a) (tickets a)) @ taken_of evs"
  using assms
proof (induction evs arbitrary: a)
  case (Cons ev evs)
  then obtain c where c: "office_does T a ev c" "run (office_does T) c evs b" by auto
  have inv: "office_inv c" using office_step [OF Cons.prems(1) c(1)] by blast
  note IH = Cons.IH [OF inv c(2)]
  have grow: "length (tickets c) \<le> length (tickets b)" using office_run [OF inv c(2)] by (simp add: keeps_def)
  from c(1) show ?case
  proof cases
    case (office_accept req e)
    with IH grow show ?thesis using Cons.prems(1)
      by (simp add: office_inv_def upt_conv_Cons)
  next
    case office_take
    have "take (min n (length xs)) xs = take n xs" for n and xs :: "(note_entry \<times> batch_status) list"
      by (simp add: min_def)
    then have "take (taken c) (tickets c) =
        take (taken a) (tickets a) @ take 40 (drop (taken a) (tickets a))"
      by (simp add: office_take(2) take_add)
    with office_take IH show ?thesis by simp
  next
    case (office_finish st)
    note eff = finish_effect [OF Cons.prems(1) c(1) [unfolded office_finish(1)]]
    have "map fst (tickets c) = map fst (tickets a)"
      using eff(1,5) by (intro nth_equalityI) simp_all
    moreover from this have "map fst (take (taken c) (tickets c)) = map fst (take (taken a) (tickets a))"
      unfolding eff(3) by (metis take_map)
    ultimately show ?thesis using IH eff(1) office_finish(1) by simp
  qed (use IH in simp_all)
qed simp

section \<open>A run for the examples\<close>

definition good_rpc :: "bytes rpc_lib" where
  "good_rpc = \<lparr>get_latest_blockhash = Ok [], new_signed_with_payer = (\<lambda>ixs payer bh. Some []),
     send_and_confirm_transaction = (\<lambda>tx. Ok ''signature'')\<rparr>"

text \<open>One announcement is submitted, taken up and confirmed.\<close>

lemma sample_run:
  "\<exists>resp e s. run (announcer_does hex_text borsh_le [1] [2]) announcer_start
     [Submit sample_request (Ok resp), Query ''0'' (Ok (to_wire_status Pending)), Take [e],
      Finish (Confirmed ''signature''), Query ''0'' (Ok (to_wire_status (Confirmed ''signature'')))] s \<and>
     request_to_note_entry hex_text sample_request = Ok e"
proof -
  let ?does = "announcer_does hex_text borsh_le [1] [2]"
  obtain e where e: "request_to_note_entry hex_text sample_request = Ok e" using sample_request_Ok by blast
  have new: "queue announcer_start = queue_new" "publisher announcer_start = Idle" "next_id queue_new = 0"
    "pending queue_new = []" "has_room queue_new"
    by (simp_all add: announcer_start_def queue_new_def with_caps_def has_room_def MAX_PENDING_def)
  obtain resp q where post: "post_announce hex_text sample_request (queue announcer_start) = (Ok resp, q)"
    "pending q = [(0, e)]"
    using e new by (auto simp: post_announce_def enqueue_Ok)
  let ?s = "announcer_start\<lparr>queue := q, accepted := accepted announcer_start @ [(next_id (queue announcer_start), e)]\<rparr>"
  have submit: "?does announcer_start (Submit sample_request (Ok resp)) ?s" using post(1) e by (rule does_accept)
  obtain q' where take: "take_pending MAX_BATCH (queue ?s) = ([(0, e)], q')"
    using post(2) by (cases "take_pending MAX_BATCH q") (auto simp: take_pending_eq MAX_BATCH_def)
  let ?t = "?s\<lparr>queue := q', publisher := Sending [(0, e)]\<rparr>"
  have up: "?does ?s (Take (map snd [(0, e)])) ?t"
    using does_take [of ?s "[(0, e)]" q'] take by (simp add: new)
  have inv: "batch_inv ?s" "batch_inv ?t"
    using batch_inv_step [OF borsh_laws_le] batch_inv_start submit up by blast+
  have "announcer_inv ?t" using inv(2) by (simp add: batch_inv_def)
  from in_flight_ok [OF this, of "[(0, e)]"] have ok: "length (map snd [(0 :: u64, e)]) < 2 ^ 32"
    "\<forall>e \<in> set (map snd [(0 :: u64, e)]). entry_ok e" by simp_all
  have rpc: "rpc_laws [2] good_rpc" by (simp add: rpc_laws_def good_rpc_def)
  have sent: "publish borsh_le good_rpc [1] [2] (map snd [(0, e)]) = Ok ''signature''"
    using build_batch_total [OF borsh_laws_le ok, of "[1]" "[2]", where ?'a = string]
    by (auto simp: publish_def good_rpc_def)
  let ?u = "?t\<lparr>queue := snd (finish_batch (map fst [(0, e)]) (Ok ''signature'') (queue ?t)), publisher := Idle,
       settled := settled ?t @ map (\<lambda>x. (x, Confirmed ''signature'')) [(0, e)]\<rparr>"
  have fin: "?does ?t (Finish (Confirmed ''signature'')) ?u"
    using does_finish [of ?t "[(0, e)]" "[2]" good_rpc, OF _ rpc sent] by simp
  have "show_nat 0 = ''0''" by (simp add: show_nat.simps dec_digit_def) code_simp
  then have zero: "parse_u64 ''0'' = Some 0" using parse_u64_show_nat [of 0] by simp
  have empty: "pending q' = []" using take post(2) by (auto simp: take_pending_eq MAX_BATCH_def)
  have ans: "answer ''0'' (office_of ?s) = Ok (to_wire_status Pending)"
    "answer ''0'' (office_of ?u) = Ok (to_wire_status (Confirmed ''signature''))"
    by (simp_all add: answer_def zero office_of_def unsettled_def announcer_start_def post(2) empty)
  have "batch_inv ?u" using batch_inv_step [OF borsh_laws_le inv(2) fin] .
  then have "get_status ''0'' (queue ?s) = Ok (to_wire_status Pending)"
    "get_status ''0'' (queue ?u) = Ok (to_wire_status (Confirmed ''signature''))"
    using answers_agree inv(1) ans unfolding batch_inv_def by metis+
  then have "?does ?s (Query ''0'' (Ok (to_wire_status Pending))) ?s"
    "?does ?u (Query ''0'' (Ok (to_wire_status (Confirmed ''signature'')))) ?u"
    using does_query by metis+
  with submit up fin e show ?thesis by fastforce
qed

section \<open>Properties\<close>

text \<open>C24: the announcement service refines the office: whatever requests, status queries and publisher
  rounds happen, in whatever order, the office can show the same events with the same answers and
  ends in the state the service stands for; in particular the publisher never panics.\<close>

theorem announcer_refines_office:
  assumes "borsh_laws B" "run (announcer_does T B pinboard payer) announcer_start evs s"
  shows "run (office_does T) office_start evs (office_of s) \<and> Crash \<notin> set evs"
proof -
  have office: "run (office_does T) office_start evs (office_of s)"
    using office.trace_inclusion run_with_laws assms by blast
  have "Crash \<notin> set es" if "run (office_does T) a es b" for a es b
    using that by (induction es arbitrary: a) (auto elim: office_does.cases)
  with office show ?thesis by blast
qed

theorem announcer_refines_office_witness:
  "\<exists>resp e a. run (office_does hex_text) office_start
     [Submit sample_request (Ok resp), Query ''0'' (Ok (to_wire_status Pending)), Take [e],
      Finish (Confirmed ''signature''), Query ''0'' (Ok (to_wire_status (Confirmed ''signature'')))] a"
  using sample_run announcer_refines_office [OF borsh_laws_le] by metis

text \<open>C25: for a client of the service: the k-th accepted announcement gets the number k as its id, from
  0 on and whatever came between, and the publisher takes announcements up in the order in which
  they were accepted, each once.\<close>

theorem taken_in_order:
  assumes "borsh_laws B" "run (announcer_does T B pinboard payer) announcer_start evs s"
  shows "map fst (accepted_of T evs) = map show_nat [0..<length (accepted_of T evs)]
    \<and> prefix (taken_of evs) (map snd (accepted_of T evs))"
proof -
  let ?a = "office_of s"
  have "run (office_does T) office_start evs ?a"
    using office.trace_inclusion run_with_laws assms by blast
  from office_counts [OF office_inv_start this]
  have "map fst (tickets ?a) = map snd (accepted_of T evs)"
    "map fst (accepted_of T evs) = map show_nat [0..<length (tickets ?a)]"
    "map fst (take (taken ?a) (tickets ?a)) = taken_of evs"
    by (simp_all add: office_start_def)
  moreover from this(1) have "length (tickets ?a) = length (accepted_of T evs)" by (metis length_map)
  ultimately show ?thesis by (metis take_is_prefix take_map)
qed

theorem taken_in_order_witness:
  "\<exists>resp e. map fst (accepted_of hex_text [Submit sample_request (Ok resp), Query ''0'' (Ok (to_wire_status Pending)),
      Take [e], Finish (Confirmed ''signature''), Query ''0'' (Ok (to_wire_status (Confirmed ''signature'')))]) = [''0''] \<and>
    prefix [e] (map snd (accepted_of hex_text [Submit sample_request (Ok resp)]))"
proof -
  obtain resp e s where "run (announcer_does hex_text borsh_le [1] [2]) announcer_start
     [Submit sample_request (Ok resp), Query ''0'' (Ok (to_wire_status Pending)), Take [e],
      Finish (Confirmed ''signature''), Query ''0'' (Ok (to_wire_status (Confirmed ''signature'')))] s"
    and "request_to_note_entry hex_text sample_request = Ok e"
    using sample_run by blast
  moreover have "show_nat 0 = ''0''" by (simp add: show_nat.simps dec_digit_def) code_simp
  ultimately show ?thesis
    using taken_in_order [OF borsh_laws_le] by (intro exI [of _ resp] exI [of _ e]) fastforce
qed

text \<open>C26: answers are consistent over time: once a client has been given a status for an id, every later
  answer for it is a status again or, when the id is forgotten, unknown; and a status that is not
  pending never changes.\<close>

theorem final_answers_stable:
  assumes "borsh_laws B"
    and "run (announcer_does T B pinboard payer) announcer_start (evs @ Query b (Ok st) # between @ [Query b r]) s"
  shows "((\<exists>st'. r = Ok st') \<or> r = Err (NOT_FOUND, ''unknown batch_id''))
    \<and> (as_status st \<noteq> ''pending'' \<longrightarrow> r = Ok st \<or> r = Err (NOT_FOUND, ''unknown batch_id''))"
proof -
  have "run (office_does T) office_start (evs @ Query b (Ok st) # between @ [Query b r]) (office_of s)"
    using office.trace_inclusion run_with_laws assms by blast
  then obtain a c where a: "run (office_does T) office_start evs a" "answer b a = Ok st"
    and c: "run (office_does T) a between c" "answer b c = r"
    by (auto simp: run_append elim!: office_does.cases [of _ _ "Query _ _"])
  have "office_inv a" using office_run [OF office_inv_start a(1)] by blast
  moreover from this have "office_inv c" "keeps a c" using office_run [OF _ c(1)] by blast+
  ultimately show ?thesis using office_answer_stable [OF _ _ _ a(2), of c] c(2) by auto
qed

theorem final_answers_stable_witness:
  "\<exists>resp e s. run (announcer_does hex_text borsh_le [1] [2]) announcer_start
     ([Submit sample_request (Ok resp)] @ Query ''0'' (Ok (to_wire_status Pending)) # [Take [e],
      Finish (Confirmed ''signature'')] @ [Query ''0'' (Ok (to_wire_status (Confirmed ''signature'')))]) s \<and>
     (\<exists>st'. Ok (to_wire_status (Confirmed ''signature'')) = (Ok st' :: (status_code \<times> string, announce_status) outcome))"
proof -
  obtain resp e s where r: "run (announcer_does hex_text borsh_le [1] [2]) announcer_start
     ([Submit sample_request (Ok resp)] @ Query ''0'' (Ok (to_wire_status Pending)) # [Take [e],
      Finish (Confirmed ''signature'')] @ [Query ''0'' (Ok (to_wire_status (Confirmed ''signature'')))]) s"
    using sample_run unfolding append_Cons append_Nil by blast
  from final_answers_stable [OF borsh_laws_le r] r show ?thesis by blast
qed

end
