(* ===== verification/Cli.thy ===== *)
theory Cli
  imports Sender
begin

text \<open>
  \<open>crates/slnt-cli/src/main.rs\<close>: the offline commands. \<open>clap\<close>'s parsing of the command line is left
  out: a command is its parsed value. \<open>ChaCha20Rng::from_seed\<close> and the generator's \<open>fill_bytes\<close>
  are parameters; a \<open>Pubkey\<close> prints in base58.
\<close>

datatype cli_command =
    CanonicalMessage string
  | Derive string
  | DeriveHd string u32
  | Label string u32
  | MetaDecode string
  | Pay string string

definition parse_network :: "string \<Rightarrow> (string, network) outcome" where
  "parse_network s =
     (let t = to_ascii_lowercase s in
      if t = ''mainnet'' \<or> t = ''mainnet-beta'' then Ok Mainnet
      else if t = ''devnet'' then Ok Devnet
      else if t = ''testnet'' then Ok Testnet
      else if t = ''localnet'' then Ok Localnet
      else Err (''unknown network: '' @ t))"

definition parse_fixed :: "text_lib \<Rightarrow> nat \<Rightarrow> string \<Rightarrow> string \<Rightarrow> (string, bytes) outcome" where
  "parse_fixed T n s what =
     obind (omap_err (\<lambda>e. what @ '' hex: '' @ e) (hex_decode T (trim s))) (\<lambda>bs.
       if length bs \<noteq> n then Err (what @ '' must be '' @ show_nat n @ '' bytes'') else Ok bs)"

definition meta_decode_output :: "text_lib \<Rightarrow> meta_address \<Rightarrow> string" where
  "meta_decode_output T m =
     ''version:     0x'' @ show_02x (ma_version m) @ [newline] @
     ''b_spend:     '' @ hex_encode T (ma_b_spend m) @ [newline] @
     ''b_scan:      '' @ hex_encode T (ma_b_scan m) @ [newline] @
     ''label_index: '' @ show_nat (unat (ma_label_index m)) @ [newline] @
     ''flags:       0x'' @ show_02x (ma_flags m)"

definition pay_output :: "text_lib \<Rightarrow> stealth_payment \<Rightarrow> string" where
  "pay_output T p =
     ''stealth_address: '' @ b58_encode T (stealth_address p) @ [newline] @
     ''ephemeral_pub:   '' @ hex_encode T (ephemeral_pub p) @ [newline] @
     ''view_tag:        0x'' @ show_02x (view_tag p)"

fun dispatch ::
  "('s, 'p, 'k) crypto \<Rightarrow> 'h bech32_lib \<Rightarrow> text_lib \<Rightarrow> (bytes \<Rightarrow> 'r) \<Rightarrow> ('r \<Rightarrow> nat \<Rightarrow> bytes \<times> 'r) \<Rightarrow>
     cli_command \<Rightarrow> (string, string) outcome" where
  "dispatch C L T from_seed fill (CanonicalMessage net) =
     obind (parse_network net) (\<lambda>n. Ok (canonical_message n))"
| "dispatch C L T from_seed fill (Derive signature) =
     obind (parse_fixed T 64 signature ''signature'') (\<lambda>sig.
     obind (omap_err slnt_error_to_string (derive_stealth_keys C sig)) (\<lambda>(spend, scan).
       omap_err slnt_error_to_string (encode_bech32m L (from_keys C spend scan))))"
| "dispatch C L T from_seed fill (DeriveHd seed account) =
     obind (omap_err (\<lambda>e. ''seed hex: '' @ e) (hex_decode T (trim seed))) (\<lambda>seed.
     obind (omap_err slnt_error_to_string (derive_stealth_keys_hd C seed account)) (\<lambda>(spend, scan).
       omap_err slnt_error_to_string (encode_bech32m L (from_keys C spend scan))))"
| "dispatch C L T from_seed fill (Label signature index) =
     obind (parse_fixed T 64 signature ''signature'') (\<lambda>sig.
     obind (omap_err slnt_error_to_string (derive_stealth_keys C sig)) (\<lambda>(spend, scan).
     obind (for_label C spend scan index) (\<lambda>m.
       omap_err slnt_error_to_string (encode_bech32m L m))))"
| "dispatch C L T from_seed fill (MetaDecode meta) =
     obind (omap_err slnt_error_to_string (decode_bech32m L (trim meta))) (\<lambda>m.
       Ok (meta_decode_output T m))"
| "dispatch C L T from_seed fill (Pay meta rng) =
     obind (omap_err slnt_error_to_string (decode_bech32m L (trim meta))) (\<lambda>m.
     obind (parse_fixed T 32 rng ''rng'') (\<lambda>seed.
     obind (omap_err slnt_error_to_string (fst (derive_payment C fill m (from_seed seed)))) (\<lambda>payment.
       Ok (pay_output T payment))))"

text \<open>What is printed on the two streams, and the exit code (a panic's message is the runtime's).\<close>

fun cli_main :: "(string, string) outcome \<Rightarrow> (string \<times> string \<times> nat) option" where
  "cli_main (Ok out) = Some (out @ [newline], [], 0)"
| "cli_main (Err e) = Some ([], ''error: '' @ e @ [newline], 1)"
| "cli_main Panic = None"

section \<open>Properties\<close>

lemma parse_fixed_hex:
  "text_laws T \<Longrightarrow> parse_fixed T n (hex_encode T d) what =
     (if length d \<noteq> n then Err (what @ '' must be '' @ show_nat n @ '' bytes'') else Ok d)"
  using text_lawsD(5,6) [of T d] by (simp add: parse_fixed_def printable_trimmed)

text \<open>A decoder that never panics, as the crates document.\<close>

definition decoders_total :: "'h bech32_lib \<Rightarrow> text_lib \<Rightarrow> bool" where
  "decoders_total L T \<longleftrightarrow> (\<forall>s. bech32_decode L s \<noteq> Panic) \<and> (\<forall>s. hex_decode T s \<noteq> Panic)"

lemma ok_or_not_Panic [simp]: "ok_or e m \<noteq> Panic"
  by (cases m) auto

lemma read_leb128_loop_not_Panic: "read_leb128_loop bs i val shift \<noteq> Panic"
  by (induction bs i val shift rule: read_leb128_loop.induct) (auto simp: Let_def)

lemma decode_payload_not_Panic: "decode_payload d \<noteq> Panic"
  by (auto simp: decode_payload_def read_leb128_u32_def read_leb128_loop_not_Panic obind_Panic_iff Let_def)

text \<open>C38: the commands agree with each other and with the library: \<open>derive\<close> on the hex of a 64-byte
  signature prints a meta-address that \<open>meta-decode\<close> shows as the derived keys with label 0, and
  \<open>pay\<close> to it prints exactly the payment the library derives for these keys from the seed, or its
  error's text.\<close>

theorem cli_derive_decode_pay:
  assumes "bech32_laws L" "text_laws T" "compress_laws C" "dh_laws C"
    and "length sig = 64" "length seed = 32"
    and "derive_stealth_keys C sig = Ok (spend, scan)"
  shows "\<exists>t. dispatch C L T from_seed fill (Derive (hex_encode T sig)) = Ok t \<and>
    dispatch C L T from_seed fill (MetaDecode t) =
      Ok (''version:     0x01'' @ [newline] @
          ''b_spend:     '' @ hex_encode T (compress C (spend_point spend)) @ [newline] @
          ''b_scan:      '' @ hex_encode T (scan_public scan) @ [newline] @
          ''label_index: 0'' @ [newline] @ ''flags:       0x00'') \<and>
    dispatch C L T from_seed fill (Pay t (hex_encode T seed)) =
      obind (omap_err slnt_error_to_string
        (fst (derive_payment C fill (from_keys C spend scan) (from_seed seed)))) (\<lambda>p. Ok (pay_output T p))"
proof -
  let ?m = "from_keys C spend scan"
  have "wf_meta ?m"
    using derive_stealth_keys_wf [OF assms(7)] assms(3,4) by (intro from_keys_wf)
  then obtain t where t: "encode_bech32m L ?m = Ok t" "trimmed t" "decode_bech32m L t = Ok ?m"
    using encode_printable [OF assms(1)] by blast
  have "show_02x 1 = ''01''" "show_02x 0 = ''00''" "show_nat 0 = ''0''"
    by (simp_all add: show_02x_def show_nat.simps dec_digit_def hex_digit_def) code_simp+
  then have "meta_decode_output T ?m =
      ''version:     0x01'' @ [newline] @
      ''b_spend:     '' @ hex_encode T (compress C (spend_point spend)) @ [newline] @
      ''b_scan:      '' @ hex_encode T (scan_public scan) @ [newline] @
      ''label_index: 0'' @ [newline] @ ''flags:       0x00''"
    by (simp add: meta_decode_output_def from_keys_def spend_public_bytes_def scan_public_bytes_def
        META_ADDRESS_VERSION_V1_def)
  then show ?thesis
    using assms(5-7) t parse_fixed_hex [OF assms(2)] by (intro exI [of _ t]) simp
qed

theorem cli_derive_decode_pay_witness:
  "\<exists>t. dispatch toy_crypto plain_bech32 hex_text hd toy_fill (Derive (hex_encode hex_text toy_sig)) = Ok t \<and>
     dispatch toy_crypto plain_bech32 hex_text hd toy_fill (Pay t (hex_encode hex_text (3 # replicate 31 0))) =
       Ok (pay_output hex_text toy_payment)"
proof -
  have "length toy_sig = 64" "length (3 # replicate 31 (0 :: u8)) = 32" by (simp_all add: toy_sig_def)
  from cli_derive_decode_pay [OF bech32_laws_plain text_laws_hex_text compress_laws_toy dh_laws_toy this
      toy_keys, of hd toy_fill] toy_payment [unfolded toy_meta_def]
  show ?thesis by auto
qed

text \<open>No command panics: every input ends with output and exit code 0 or a message and exit code
  1, as long as the decoders of the bech32 and hex crates return and HKDF expands 32 bytes.\<close>

theorem cli_never_panics:
  fixes C :: "('s, 'p, 'k) crypto"
  assumes "hash_laws C" "decoders_total L T"
  shows "\<exists>out msg code. cli_main (dispatch C L T from_seed fill cmd) = Some (out, msg, code) \<and>
    (code = 0 \<or> code = 1) \<and> (code = 0 \<longleftrightarrow> msg = []) \<and> (code = 1 \<longleftrightarrow> out = [])"
proof -
  have dec: "decode_bech32m L s \<noteq> Panic" for s
    using assms(2) decode_payload_not_Panic
    by (auto simp: decode_bech32m_def decoders_total_def obind_Panic_iff)
  have enc: "encode_bech32m L m \<noteq> Panic" for m
    by (auto simp: encode_bech32m_def obind_Panic_iff)
  have fixed: "parse_fixed T n s w \<noteq> Panic" for n s w
    using assms(2) by (auto simp: parse_fixed_def decoders_total_def obind_Panic_iff)
  have keys: "derive_stealth_keys C sig \<noteq> Panic" "derive_stealth_keys_hd C sd a \<noteq> Panic" for sig sd a
    using keys_from_secrets_no_panic
    by (auto simp: derive_stealth_keys_def derive_stealth_keys_hd_def obind_Panic_iff Let_def)
  have "label_tweak_scalar C scan i \<noteq> (Panic :: (string, 's) outcome)" for scan i
  proof -
    obtain m where "label_tweak_scalar C scan i = (Ok m :: (string, 's) outcome)"
      using label_tweak_total [OF assms(1)] by blast
    then show ?thesis by simp
  qed
  then have lab: "for_label C spend scan i \<noteq> (Panic :: (string, meta_address) outcome)" for spend scan i
    by (auto simp: for_label_def obind_Panic_iff Let_def)
  have pay: "fst (derive_payment C fill m rng) \<noteq> Panic" for m rng
    by (auto simp: derive_payment_def Let_def split: if_splits option.splits prod.splits)
  have net: "parse_network s \<noteq> Panic" for s by (simp add: parse_network_def Let_def)
  have "dispatch C L T from_seed fill cmd \<noteq> Panic"
    using assms(2) by (cases cmd)
      (auto simp: obind_Panic_iff dec enc fixed keys lab pay net decoders_total_def)
  then show ?thesis by (cases "dispatch C L T from_seed fill cmd") auto
qed

lemma unhex_not_Panic: "unhex s \<noteq> Panic"
  by (induction s rule: unhex.induct) (auto simp: obind_Panic_iff split: option.split)

theorem cli_never_panics_witness:
  "\<exists>out msg. cli_main (dispatch toy_crypto plain_bech32 hex_text hd toy_fill (Pay ''slnt1zz'' ''00'')) =
     Some (out, msg, 1)"
proof -
  have "decoders_total plain_bech32 hex_text"
    using unhex_not_Panic
    by (auto simp: decoders_total_def plain_bech32_def hex_text_def plain_bech32_decode_def obind_Panic_iff Let_def)
  note this = cli_never_panics [OF hash_laws_toy this, of hd toy_fill "Pay ''slnt1zz'' ''00''"]
  moreover have "case dispatch toy_crypto plain_bech32 hex_text hd toy_fill (Pay ''slnt1zz'' ''00'') of Ok _ \<Rightarrow> False | _ \<Rightarrow> True"
    by code_simp
  ultimately show ?thesis
    by (cases "dispatch toy_crypto plain_bech32 hex_text hd toy_fill (Pay ''slnt1zz'' ''00'')") auto
qed

end
