(* ===== verification/Service_Tests.thy ===== *)
theory Service_Tests
  imports Announcer_Service Indexer Cli
begin

text \<open>
  The unit tests that stand beside the code, run on the model: here those of the announcement
  service's queue (\<open>slnt-announcer/src/service.rs\<close>), the indexer's store (\<open>slnt-indexer/src/store.rs\<close>)
  and the command line tool (\<open>slnt-cli/src/main.rs\<close>). A test is a Boolean under the name of its
  function: its assertions, each step on the state the one before left, and \<open>False\<close> where an \<open>unwrap\<close>
  would panic. A lemma says that it passes, under the documented behaviour of the crates and, where
  the test derives keys or a payment from fixed bytes, provided that this derivation succeeds.
\<close>

text \<open>\<open>r.unwrap()\<close> followed by the rest of the test, \<open>is_ok\<close> and \<open>is_err\<close>.\<close>

fun unwrapped :: "('e, 'a) outcome \<Rightarrow> ('a \<Rightarrow> bool) \<Rightarrow> bool" where
  "unwrapped (Ok x) rest = rest x"
| "unwrapped _ rest = False"

fun is_ok :: "('e, 'a) outcome \<Rightarrow> bool" where
  "is_ok (Ok x) = True"
| "is_ok _ = False"

fun is_err :: "('e, 'a) outcome \<Rightarrow> bool" where
  "is_err (Err e) = True"
| "is_err _ = False"

section \<open>The announcement service's queue\<close>

definition test_req :: "text_lib \<Rightarrow> string \<Rightarrow> announce_request" where
  "test_req T meta_b58 =
     \<lparr>ar_scheme_id = 1, ar_ephemeral_pub = b58_encode T (replicate 32 4), ar_view_tag = 0x10,
      ar_metadata = meta_b58, ar_payment_proof = None\<rparr>"

definition converts_valid_request :: "text_lib \<Rightarrow> bool" where
  "converts_valid_request T =
     unwrapped (request_to_note_entry T (test_req T [])) (\<lambda>entry.
       ne_ephemeral_pub entry = replicate 32 4 \<and> ne_scheme_id entry = 1 \<and> ne_metadata entry = [])"

definition rejects_oversized_metadata :: "text_lib \<Rightarrow> bool" where
  "rejects_oversized_metadata T =
     (let big = b58_encode T (replicate 65 0) in is_err (request_to_note_entry T (test_req T big)))"

definition rejects_bad_ephemeral_length :: "text_lib \<Rightarrow> bool" where
  "rejects_bad_ephemeral_length T =
     (let r = (test_req T [])\<lparr>ar_ephemeral_pub := b58_encode T (replicate 8 1)\<rparr>
      in is_err (request_to_note_entry T r))"

definition queue_assigns_incrementing_ids_and_tracks_status :: "text_lib \<Rightarrow> bool" where
  "queue_assigns_incrementing_ids_and_tracks_status T =
     (let q = queue_new in
      unwrapped (request_to_note_entry T (test_req T [])) (\<lambda>e.
      let (r0, q) = enqueue e q in unwrapped r0 (\<lambda>id0.
      let (r1, q) = enqueue e q in unwrapped r1 (\<lambda>id1.
        (id0, id1) = (0, 1) \<and> status id0 q = Some Pending \<and>
        (let (drained, q) = take_pending 10 q in
         length drained = 2 \<and> pending_len q = 0 \<and>
         (let q = set_status id0 (Confirmed ''sig123'') q in
          status id0 q = Some (Confirmed ''sig123'')))))))"

definition enqueue_rejects_when_pending_full :: "text_lib \<Rightarrow> bool" where
  "enqueue_rejects_when_pending_full T =
     (let q = with_caps 2 100 in
      unwrapped (request_to_note_entry T (test_req T [])) (\<lambda>e.
      let (r, q) = enqueue e q in is_ok r \<and>
      (let (r, q) = enqueue e q in is_ok r \<and>
      (let (r, q) = enqueue e q in r = Err QueueFull \<and>
      (let (_, q) = take_pending 1 q;
           (r, q) = enqueue e q in is_ok r)))))"

text \<open>The loops of the next two tests; \<open>None\<close> is the panic of their \<open>unwrap\<close>.\<close>

fun enqueue_and_take :: "nat \<Rightarrow> note_entry \<Rightarrow> announce_queue \<Rightarrow> u64 list \<Rightarrow> (u64 list \<times> announce_queue) option" where
  "enqueue_and_take 0 e q ids = Some (ids, q)"
| "enqueue_and_take (Suc n) e q ids =
     (case enqueue e q of
        (Ok i, q) \<Rightarrow> enqueue_and_take n e (snd (take_pending 1 q)) (ids @ [i])
      | _ \<Rightarrow> None)"

definition status_history_is_bounded :: "text_lib \<Rightarrow> bool" where
  "status_history_is_bounded T =
     (let q = with_caps 1000 3 in
      unwrapped (request_to_note_entry T (test_req T [])) (\<lambda>e.
      case enqueue_and_take 6 e q [] of
        None \<Rightarrow> False
      | Some (ids, q) \<Rightarrow>
          status (ids ! 0) q = None \<and> status (ids ! 2) q = None \<and>
          status (ids ! 3) q \<noteq> None \<and> status (ids ! 5) q \<noteq> None))"

fun enqueue_times :: "nat \<Rightarrow> note_entry \<Rightarrow> announce_queue \<Rightarrow> announce_queue option" where
  "enqueue_times 0 e q = Some q"
| "enqueue_times (Suc n) e q =
     (case enqueue e q of (Ok i, q) \<Rightarrow> enqueue_times n e q | _ \<Rightarrow> None)"

definition take_pending_respects_max :: "text_lib \<Rightarrow> bool" where
  "take_pending_respects_max T =
     (let q = queue_new in
      unwrapped (request_to_note_entry T (test_req T [])) (\<lambda>e.
      case enqueue_times 5 e q of
        None \<Rightarrow> False
      | Some q \<Rightarrow> (let (taken, q) = take_pending 2 q in length taken = 2 \<and> pending_len q = 3)))"

text \<open>The entry of the tests' request, and what enqueuing does below the two capacities.\<close>

lemma test_request:
  "text_laws T \<Longrightarrow> request_to_note_entry T (test_req T []) =
     Ok \<lparr>ne_scheme_id = 1, ne_ephemeral_pub = replicate 32 4, ne_view_tag = 0x10, ne_metadata = []\<rparr>"
  by (simp add: request_to_note_entry_def test_req_def text_lawsD ANNOUNCE_MAX_METADATA_LEN_def)

lemma request_tests_pass:
  assumes "text_laws T"
  shows "converts_valid_request T" "rejects_oversized_metadata T" "rejects_bad_ephemeral_length T"
proof -
  show "converts_valid_request T" by (simp add: converts_valid_request_def test_request [OF assms])
  show "rejects_oversized_metadata T" "rejects_bad_ephemeral_length T"
    using text_lawsD(1) [OF assms] b58_encode_empty_iff [OF assms]
    by (simp_all add: rejects_oversized_metadata_def rejects_bad_ephemeral_length_def test_req_def
        request_to_note_entry_def ANNOUNCE_MAX_METADATA_LEN_def)
qed

text \<open>On a concrete queue the eviction loop runs at most once, so the tests compute.\<close>

lemma evict_one:
  assumes "length (status_order q) = Suc (max_statuses q)"
  shows "evict_statuses q =
    q\<lparr>status_order := tl (status_order q), statuses := (statuses q)(hd (status_order q) := None)\<rparr>"
proof -
  obtain old rest where "status_order q = old # rest" using assms by (cases "status_order q") auto
  then show ?thesis using assms by (subst evict_statuses.simps) (simp add: evict_statuses_done)
qed

lemmas queue_defs = queue_new_def with_caps_def enqueue_def set_status_def take_pending_def status_def
  pending_len_def MAX_PENDING_def MAX_STATUSES_def add_u64_def evict_statuses_done evict_one

lemma six_times: "enqueue_and_take 6 = enqueue_and_take (Suc (Suc (Suc (Suc (Suc (Suc 0))))))"
  and five_times: "enqueue_times 5 = enqueue_times (Suc (Suc (Suc (Suc (Suc 0)))))"
  by (simp_all add: numeral_eq_Suc)

lemma queue_tests_pass:
  assumes "text_laws T"
  shows "queue_assigns_incrementing_ids_and_tracks_status T" "enqueue_rejects_when_pending_full T"
    "status_history_is_bounded T" "take_pending_respects_max T"
proof -
  show "queue_assigns_incrementing_ids_and_tracks_status T"
    by (simp add: queue_assigns_incrementing_ids_and_tracks_status_def test_request [OF assms] queue_defs)
  show "enqueue_rejects_when_pending_full T"
    by (simp add: enqueue_rejects_when_pending_full_def test_request [OF assms] queue_defs)
  show "status_history_is_bounded T"
    by (simp add: status_history_is_bounded_def test_request [OF assms] queue_defs six_times)
  show "take_pending_respects_max T"
    by (simp add: take_pending_respects_max_def test_request [OF assms] queue_defs five_times)
qed

section \<open>The indexer's store\<close>

definition test_note :: "u8 \<Rightarrow> note_event" where
  "test_note tag =
     \<lparr>ev_scheme_id = 1, ev_ephemeral_pub = replicate 32 tag, ev_view_tag = tag, ev_metadata = []\<rparr>"

text \<open>The insertions of a test, in order: slots and tags.\<close>

fun insert_notes :: "text_lib \<Rightarrow> (u64 \<times> u8) list \<Rightarrow> announcement_store \<Rightarrow> announcement_store option" where
  "insert_notes T [] s = Some s"
| "insert_notes T ((slot, tag) # rest) s =
     (case store_insert T slot (test_note tag) s of
        (Ok _, s) \<Rightarrow> insert_notes T rest s
      | _ \<Rightarrow> None)"

definition store_evicts_oldest_beyond_cap :: "text_lib \<Rightarrow> bool" where
  "store_evicts_oldest_beyond_cap T =
     (case insert_notes T (map (\<lambda>slot. (of_nat slot, of_nat slot)) [0..<5]) (with_cap 3) of
        None \<Rightarrow> False
      | Some s \<Rightarrow>
          store_len s = 3 \<and> dropped s = 2 \<and>
          (let found = query s None 100 in
           (case found of [] \<Rightarrow> False | a # _ \<Rightarrow> sa_slot a = 2 \<and> sa_slot (last found) = 4)))"

definition query_filters_by_since_slot :: "text_lib \<Rightarrow> bool" where
  "query_filters_by_since_slot T =
     (case insert_notes T [(10, 1), (20, 2), (30, 3)] store_new of
        None \<Rightarrow> False
      | Some s \<Rightarrow>
          (let from20 = query s (Some 20) 100 in
           length from20 = 2 \<and> sa_slot (from20 ! 0) = 20 \<and> sa_slot (from20 ! 1) = 30))"

definition query_respects_limit :: "text_lib \<Rightarrow> bool" where
  "query_respects_limit T =
     (case insert_notes T (map (\<lambda>i. (of_nat i, of_nat i)) [0..<10]) store_new of
        None \<Rightarrow> False
      | Some s \<Rightarrow> length (query s None 3) = 3)"

definition query_none_since_returns_all :: "text_lib \<Rightarrow> bool" where
  "query_none_since_returns_all T =
     (case insert_notes T [(5, 1)] store_new of
        None \<Rightarrow> False
      | Some s \<Rightarrow> length (query s None 100) = 1)"

definition stored_announcement_encodes_r_as_base58 :: "text_lib \<Rightarrow> bool" where
  "stored_announcement_encodes_r_as_base58 T =
     (let a = from_note T 7 (test_note 9) in
      unwrapped (b58_decode T (sa_ephemeral_pub a)) (\<lambda>decoded. decoded = replicate 32 9) \<and> sa_slot a = 7)"

lemma evict_oldest:
  assumes "length (items s) = Suc (cap s)" "unat (dropped s) + 1 < 2 ^ 64"
  shows "evict s = (Ok (), s\<lparr>items := tl (items s), dropped := dropped s + 1\<rparr>)"
  using assms by (subst evict.simps) (simp add: evict_done add_u64_def)

lemmas store_defs = store_new_def with_cap_def MAX_STORED_def store_insert_def push_evict_def from_note_def
  query_def store_len_def test_note_def evict_done evict_oldest

lemma store_tests_pass:
  "store_evicts_oldest_beyond_cap T" "query_filters_by_since_slot T" "query_respects_limit T"
  "query_none_since_returns_all T" "text_laws T \<Longrightarrow> stored_announcement_encodes_r_as_base58 T"
proof -
  show "store_evicts_oldest_beyond_cap T"
    by (simp add: store_evicts_oldest_beyond_cap_def upt_rec store_defs)
  show "query_filters_by_since_slot T" by (simp add: query_filters_by_since_slot_def store_defs)
  show "query_respects_limit T" by (simp add: query_respects_limit_def upt_rec store_defs)
  show "query_none_since_returns_all T" by (simp add: query_none_since_returns_all_def store_defs)
  show "stored_announcement_encodes_r_as_base58 T" if "text_laws T"
    using that by (simp add: stored_announcement_encodes_r_as_base58_def store_defs text_lawsD)
qed

section \<open>The command line tool\<close>

definition repeat_str :: "nat \<Rightarrow> string \<Rightarrow> string" where
  "repeat_str n s = concat (replicate n s)"

text \<open>\<open>str::starts_with\<close>.\<close>

definition starts_with :: "string \<Rightarrow> string \<Rightarrow> bool" where
  "starts_with p s \<longleftrightarrow> strip_prefix p s \<noteq> None"

text \<open>
  What the tests use of the text formats beyond \<open>text_laws\<close> and \<open>bech32_laws\<close>: hex is two lower-case
  digits a byte, and a bech32m string starts with its human-readable part and a \<open>1\<close>.
\<close>

definition hex_digits_law :: "text_lib \<Rightarrow> bool" where
  "hex_digits_law T \<longleftrightarrow> (\<forall>d. hex_encode T d = concat (map show_02x d))"

definition bech32_prefix_law :: "'h bech32_lib \<Rightarrow> bool" where
  "bech32_prefix_law L \<longleftrightarrow>
     (\<forall>h d t. bech32m_encode L h d = Some t \<longrightarrow> starts_with (hrp_as_str L h @ ''1'') t)"

definition canonical_message_matches_sdk ::
  "('s, 'p, 'k) crypto \<Rightarrow> 'h bech32_lib \<Rightarrow> text_lib \<Rightarrow> (bytes \<Rightarrow> 'r) \<Rightarrow> ('r \<Rightarrow> nat \<Rightarrow> bytes \<times> 'r) \<Rightarrow> bool" where
  "canonical_message_matches_sdk C L T from_seed fill =
     unwrapped (dispatch C L T from_seed fill (CanonicalMessage ''devnet'')) (\<lambda>out.
       str_contains ''Network: Devnet'' out)"

definition derive_then_decode_roundtrips ::
  "('s, 'p, 'k) crypto \<Rightarrow> 'h bech32_lib \<Rightarrow> text_lib \<Rightarrow> (bytes \<Rightarrow> 'r) \<Rightarrow> ('r \<Rightarrow> nat \<Rightarrow> bytes \<times> 'r) \<Rightarrow> bool" where
  "derive_then_decode_roundtrips C L T from_seed fill =
     (let sig = repeat_str 64 ''11'' in
      unwrapped (dispatch C L T from_seed fill (Derive sig)) (\<lambda>meta.
        starts_with ''slnt1'' meta \<and>
        unwrapped (dispatch C L T from_seed fill (MetaDecode meta)) (\<lambda>decoded.
          str_contains ''version:     0x01'' decoded \<and> str_contains ''label_index: 0'' decoded)))"

definition label_sets_label_index ::
  "('s, 'p, 'k) crypto \<Rightarrow> 'h bech32_lib \<Rightarrow> text_lib \<Rightarrow> (bytes \<Rightarrow> 'r) \<Rightarrow> ('r \<Rightarrow> nat \<Rightarrow> bytes \<times> 'r) \<Rightarrow> bool" where
  "label_sets_label_index C L T from_seed fill =
     (let sig = repeat_str 64 ''22'' in
      unwrapped (dispatch C L T from_seed fill (Label sig 9)) (\<lambda>meta.
        unwrapped (dispatch C L T from_seed fill (MetaDecode meta)) (\<lambda>decoded.
          str_contains ''label_index: 9'' decoded)))"

definition pay_is_deterministic_for_fixed_rng ::
  "('s, 'p, 'k) crypto \<Rightarrow> 'h bech32_lib \<Rightarrow> text_lib \<Rightarrow> (bytes \<Rightarrow> 'r) \<Rightarrow> ('r \<Rightarrow> nat \<Rightarrow> bytes \<times> 'r) \<Rightarrow> bool" where
  "pay_is_deterministic_for_fixed_rng C L T from_seed fill =
     (let sig = repeat_str 64 ''33'' in
      unwrapped (dispatch C L T from_seed fill (Derive sig)) (\<lambda>meta.
        let rng = repeat_str 32 ''ab'' in
        unwrapped (dispatch C L T from_seed fill (Pay meta rng)) (\<lambda>a.
        unwrapped (dispatch C L T from_seed fill (Pay meta rng)) (\<lambda>b.
          a = b \<and> str_contains ''stealth_address:'' a))))"

definition derive_rejects_wrong_length_signature ::
  "('s, 'p, 'k) crypto \<Rightarrow> 'h bech32_lib \<Rightarrow> text_lib \<Rightarrow> (bytes \<Rightarrow> 'r) \<Rightarrow> ('r \<Rightarrow> nat \<Rightarrow> bytes \<times> 'r) \<Rightarrow> bool" where
  "derive_rejects_wrong_length_signature C L T from_seed fill =
     is_err (dispatch C L T from_seed fill (Derive ''00''))"

definition hd_derivation_produces_meta_address ::
  "('s, 'p, 'k) crypto \<Rightarrow> 'h bech32_lib \<Rightarrow> text_lib \<Rightarrow> (bytes \<Rightarrow> 'r) \<Rightarrow> ('r \<Rightarrow> nat \<Rightarrow> bytes \<times> 'r) \<Rightarrow> bool" where
  "hd_derivation_produces_meta_address C L T from_seed fill =
     (let seed = repeat_str 64 ''00'' in
      unwrapped (dispatch C L T from_seed fill (DeriveHd seed 0)) (\<lambda>meta. starts_with ''slnt1'' meta))"

text \<open>The two formats as the instances have them.\<close>

lemma format_laws_hold: "hex_digits_law hex_text" "bech32_prefix_law plain_bech32"
proof -
  show "hex_digits_law hex_text" by (simp add: hex_digits_law_def hex_text_def hex_of_def)
  have "starts_with p (p @ s)" for p s by (simp add: starts_with_def)
  from this [of "_ @ ''1''"] show "bech32_prefix_law plain_bech32"
    by (simp add: bech32_prefix_law_def plain_bech32_def)
qed

lemma str_contains_middle: "str_contains p (s @ p @ t)"
proof (induction s)
  case Nil
  show ?case
  proof (cases "p @ t")
    case (Cons c u)
    then have "strip_prefix p (c # u) = Some t" by (metis strip_prefix_append)
    with Cons show ?thesis by simp
  qed simp
next
  case (Cons c s)
  then show ?case by simp
qed

lemma repeated_hex:
  assumes "hex_digits_law T"
  shows "repeat_str n (show_02x b) = hex_encode T (replicate n b)"
  using assms by (simp add: hex_digits_law_def repeat_str_def map_replicate)

lemma encoded_starts_with:
  assumes "bech32_laws L" "bech32_prefix_law L" "encode_bech32m L m = Ok t"
  shows "starts_with ''slnt1'' t"
proof -
  obtain h where h: "hrp_parse L ''slnt'' = Some h" "hrp_as_str L h = ''slnt''"
    using bech32_lawsE [OF assms(1)] by metis
  then have "bech32m_encode L h (encode_payload m) = Some t"
    using assms(3) by (cases "bech32m_encode L h (encode_payload m)")
      (simp_all add: encode_bech32m_def META_ADDRESS_HRP_def)
  then show ?thesis using assms(2) h(2) unfolding bech32_prefix_law_def by fastforce
qed

lemma decode_output_contains:
  "ma_version m = 1 \<Longrightarrow> str_contains ''version:     0x01'' (meta_decode_output T m)"
  "str_contains (''label_index: '' @ show_nat (unat (ma_label_index m))) (meta_decode_output T m)"
proof -
  have "show_02x 1 = ''01''" by (simp add: show_02x_def hex_digit_def) code_simp
  then show "str_contains ''version:     0x01'' (meta_decode_output T m)" if "ma_version m = 1"
    using that str_contains_middle [of "''version:     0x01''" "[]"] by (simp add: meta_decode_output_def)
  show "str_contains (''label_index: '' @ show_nat (unat (ma_label_index m))) (meta_decode_output T m)"
    using str_contains_middle [of "''label_index: '' @ show_nat (unat (ma_label_index m))"
        "''version:     0x'' @ show_02x (ma_version m) @ [newline] @
         ''b_spend:     '' @ hex_encode T (ma_b_spend m) @ [newline] @
         ''b_scan:      '' @ hex_encode T (ma_b_scan m) @ [newline]"
        "[newline] @ ''flags:       0x'' @ show_02x (ma_flags m)"]
    by (simp add: meta_decode_output_def)
qed

text \<open>The hex strings of the tests.\<close>

lemma test_hex:
  assumes "hex_digits_law T"
  shows "repeat_str n ''00'' = hex_encode T (replicate n 0)" "repeat_str n ''11'' = hex_encode T (replicate n 0x11)"
    "repeat_str n ''22'' = hex_encode T (replicate n 0x22)" "repeat_str n ''33'' = hex_encode T (replicate n 0x33)"
    "repeat_str n ''ab'' = hex_encode T (replicate n 0xab)"
proof -
  have "show_02x 0 = ''00''" "show_02x 0x11 = ''11''" "show_02x 0x22 = ''22''" "show_02x 0x33 = ''33''"
    "show_02x 0xab = ''ab''" by (simp_all add: show_02x_def hex_digit_def) code_simp+
  with repeated_hex [OF assms] show
    "repeat_str n ''00'' = hex_encode T (replicate n 0)" "repeat_str n ''11'' = hex_encode T (replicate n 0x11)"
    "repeat_str n ''22'' = hex_encode T (replicate n 0x22)" "repeat_str n ''33'' = hex_encode T (replicate n 0x33)"
    "repeat_str n ''ab'' = hex_encode T (replicate n 0xab)" by metis+
qed

lemma text_tests_pass:
  assumes "text_laws T" "hex_digits_law T"
  shows "canonical_message_matches_sdk C L T from_seed fill"
    and "derive_rejects_wrong_length_signature C L T from_seed fill"
proof -
  have "to_ascii_lowercase ''devnet'' = ''devnet''" by code_simp
  then have "parse_network ''devnet'' = Ok Devnet" by (simp add: parse_network_def)
  moreover have "str_contains ''Network: Devnet'' (canonical_message Devnet)" by code_simp
  ultimately show "canonical_message_matches_sdk C L T from_seed fill"
    by (simp add: canonical_message_matches_sdk_def)
  have "''00'' = repeat_str 1 ''00''" by (simp add: repeat_str_def)
  then have "parse_fixed T 64 ''00'' ''signature'' = Err (''signature'' @ '' must be '' @ show_nat 64 @ '' bytes'')"
    unfolding test_hex(1) [OF assms(2)] using parse_fixed_hex [OF assms(1), of 64 "replicate 1 0"] by simp
  then show "derive_rejects_wrong_length_signature C L T from_seed fill"
    by (simp add: derive_rejects_wrong_length_signature_def)
qed

lemma derive_test_passes:
  assumes "bech32_laws L" "text_laws T" "compress_laws C" "dh_laws C" "hex_digits_law T" "bech32_prefix_law L"
    and "derive_stealth_keys C (replicate 64 0x11) = Ok keys"
  shows "derive_then_decode_roundtrips C L T from_seed fill"
proof -
  obtain spend scan where keys: "keys = (spend, scan)" by fastforce
  let ?m = "from_keys C spend scan"
  have "wf_meta ?m"
    using derive_stealth_keys_wf assms(3,4,7) keys by (intro from_keys_wf) blast+
  then obtain t where t: "encode_bech32m L ?m = Ok t" "trimmed t" "decode_bech32m L t = Ok ?m"
    using encode_printable [OF assms(1)] by blast
  have fields: "ma_version ?m = 1" "ma_label_index ?m = 0"
    by (simp_all add: from_keys_def META_ADDRESS_VERSION_V1_def)
  have "show_nat 0 = ''0''" by (simp add: show_nat.simps dec_digit_def) code_simp
  then show ?thesis
    using t encoded_starts_with [OF assms(1,6) t(1)] decode_output_contains(1) [of ?m T, OF fields(1)]
      decode_output_contains(2) [of ?m T] assms(7) keys fields(2)
    by (simp add: derive_then_decode_roundtrips_def test_hex [OF assms(5)] parse_fixed_hex [OF assms(2)])
qed

lemma label_test_passes:
  assumes "bech32_laws L" "text_laws T" "compress_laws C" "dh_laws C" "hash_laws C" "hex_digits_law T"
    and "derive_stealth_keys C (replicate 64 0x22) = Ok keys"
  shows "label_sets_label_index C L T from_seed fill"
proof -
  obtain spend scan where keys: "keys = (spend, scan)" by fastforce
  obtain tweak where tweak: "label_tweak_scalar C scan 9 = (Ok tweak :: (string, _) outcome)"
    using label_tweak_total [OF assms(5)] by blast
  then obtain m where m: "for_label C spend scan 9 = (Ok m :: (string, meta_address) outcome)"
    and label: "ma_label_index m = 9" by (auto simp: for_label_def Let_def)
  have "wf_meta m"
    using for_label_wf [OF assms(3,4)] derive_stealth_keys_wf [of C "replicate 64 0x22"] m assms(7) keys by blast
  then obtain t where t: "encode_bech32m L m = Ok t" "trimmed t" "decode_bech32m L t = Ok m"
    using encode_printable [OF assms(1)] by blast
  have "show_nat 9 = ''9''" by (simp add: show_nat.simps dec_digit_def) code_simp
  then show ?thesis
    using t decode_output_contains(2) [of m T] assms(7) keys label m
    by (simp add: label_sets_label_index_def test_hex [OF assms(6)] parse_fixed_hex [OF assms(2)])
qed

lemma pay_test_passes:
  assumes "bech32_laws L" "text_laws T" "compress_laws C" "dh_laws C" "hex_digits_law T"
    and "derive_stealth_keys C (replicate 64 0x33) = Ok (spend, scan)"
    and "derive_payment C fill (from_keys C spend scan) (from_seed (replicate 32 0xab)) = (Ok p, rng)"
  shows "pay_is_deterministic_for_fixed_rng C L T from_seed fill"
proof -
  let ?m = "from_keys C spend scan"
  have "wf_meta ?m"
    using derive_stealth_keys_wf [OF assms(6)] assms(3,4) by (intro from_keys_wf) blast+
  then obtain t where t: "encode_bech32m L ?m = Ok t" "trimmed t" "decode_bech32m L t = Ok ?m"
    using encode_printable [OF assms(1)] by blast
  have "str_contains ''stealth_address:'' (pay_output T p)"
    using str_contains_middle [of "''stealth_address:''" "[]"] by (simp add: pay_output_def)
  then show ?thesis
    using t assms(6,7)
    by (simp add: pay_is_deterministic_for_fixed_rng_def test_hex [OF assms(5)] parse_fixed_hex [OF assms(2)])
qed

lemma hd_test_passes:
  assumes "bech32_laws L" "text_laws T" "compress_laws C" "dh_laws C" "hex_digits_law T" "bech32_prefix_law L"
    and "derive_stealth_keys_hd C (replicate 64 0) 0 = Ok (spend, scan)"
  shows "hd_derivation_produces_meta_address C L T from_seed fill"
proof -
  have "wf_meta (from_keys C spend scan)"
    using derive_stealth_keys_hd_wf [OF assms(7)] assms(3,4) by (intro from_keys_wf) blast+
  then obtain t where t: "encode_bech32m L (from_keys C spend scan) = Ok t"
    using encode_printable [OF assms(1)] by blast
  then show ?thesis
    using encoded_starts_with [OF assms(1,6) t] assms(7) text_lawsD(5,6) [OF assms(2), of "replicate 64 0"]
    by (simp add: hd_derivation_produces_meta_address_def test_hex [OF assms(5)] printable_trimmed)
qed

end
