(* ===== verification/Registry_Program.thy ===== *)
theory Registry_Program
  imports Anchor
begin

text \<open>
  \<open>programs/registry/src/lib.rs\<close>: the on-chain registry of meta-addresses. The state is what the
  program can see of the ledger: its own accounts by address, the lamports of every account, and
  the events it has emitted; every account it does not own is an account of the system program,
  which does not exist if it has no lamports. An instruction that fails leaves the ledger as it was.
  \<open>rent\<close> is the runtime's rent-exempt minimum for an account of a given size.
\<close>

record meta_payload =
  mp_version :: u8
  mp_b_spend :: bytes
  mp_b_scan :: bytes
  mp_flags :: u8

record registry_entry =
  re_registrant :: pubkey
  re_scheme_id :: u16
  re_bump :: u8
  re_version :: u8
  re_b_spend :: bytes
  re_b_scan :: bytes
  re_flags :: u8

definition ENTRY_SIZE :: nat where
  "ENTRY_SIZE = 32 + 2 + 1 + 1 + 32 + 32 + 1"

datatype registry_event =
    MetaAddressRegistered pubkey u16 meta_payload
  | MetaAddressUpdated pubkey u16 meta_payload
  | MetaAddressClosed pubkey u16

datatype registry_error =
    RegistryAnchor anchor_error
  | InvalidSchemeId
  | InvalidVersion
  | InvalidFlags

record ledger =
  entries :: "pubkey \<rightharpoonup> registry_entry"
  lamports :: "pubkey \<Rightarrow> nat"
  emitted :: "registry_event list"

section \<open>Accounts\<close>

definition entry_seeds :: "pubkey \<Rightarrow> u16 \<Rightarrow> bytes list" where
  "entry_seeds registrant scheme_id = [ascii ''meta'', registrant, u16_to_le_bytes scheme_id]"

text \<open>
  \<open>init, payer, space\<close>: the account is topped up to the rent-exempt minimum by the payer, whom the
  runtime debits only if no program owns the account.
\<close>

definition init_lamports ::
  "(nat \<Rightarrow> nat) \<Rightarrow> pubkey \<Rightarrow> pubkey \<Rightarrow> ledger \<Rightarrow> (anchor_error, pubkey \<Rightarrow> nat) outcome" where
  "init_lamports rent payer entry l =
     (let bal = lamports l; need = rent (8 + ENTRY_SIZE) - bal entry in
      if need = 0 then Ok bal
      else if entries l payer \<noteq> None then Err ExternalAccountLamportSpend
      else if bal payer < need then Err InsufficientFunds
      else
        (let bal' = bal(payer := bal payer - need) in
         Ok (bal'(entry := bal' entry + need))))"

text \<open>\<open>close = registrant\<close>: all lamports go to the destination, the account is gone.\<close>

definition close_lamports :: "pubkey \<Rightarrow> pubkey \<Rightarrow> (pubkey \<Rightarrow> nat) \<Rightarrow> (pubkey \<Rightarrow> nat)" where
  "close_lamports dest entry bal =
     (let bal' = bal(entry := 0) in bal'(dest := bal' dest + bal entry))"

text \<open>
  \<open>Register\<close>: the context a handler gets is the registrant's key, the entry's address, its bump and
  the ledger with the account created.
\<close>

fun register_accounts ::
  "solana_lib \<Rightarrow> (nat \<Rightarrow> nat) \<Rightarrow> pubkey \<Rightarrow> u16 \<Rightarrow> ledger \<Rightarrow> account_meta list \<Rightarrow>
     (anchor_error, pubkey \<times> pubkey \<times> u8 \<times> ledger) outcome" where
  "register_accounts S rent pid scheme_id l (registrant # entry # system # _) =
     obind (signer registrant) (\<lambda>_.
     if am_pubkey system \<noteq> system_program S then Err InvalidProgramId
     else
       (let (pda, bump) =
              find_program_address S (entry_seeds (am_pubkey registrant) scheme_id) pid in
        if am_pubkey entry \<noteq> pda then Err ConstraintSeeds
        else if entries l pda \<noteq> None then Err AccountAlreadyInUse
        else
          obind (init_lamports rent (am_pubkey registrant) pda l) (\<lambda>bal.
          obind (mut entry) (\<lambda>_.
          obind (mut registrant) (\<lambda>_.
            Ok (am_pubkey registrant, pda, bump, l\<lparr>lamports := bal\<rparr>))))))"
| "register_accounts S rent pid scheme_id l _ = Err AccountNotEnoughKeys"

text \<open>
  An \<open>Account<MetaAddressEntry>\<close> is loaded before any constraint is checked: it must exist and be an
  account of the program. The constraints \<open>Update\<close> and \<open>Close\<close> share: its address derives from the
  seeds with the stored bump, it is writable, and \<open>has_one\<close>.
\<close>

definition load_entry :: "ledger \<Rightarrow> account_meta \<Rightarrow> (anchor_error, registry_entry) outcome" where
  "load_entry l entry =
     (case entries l (am_pubkey entry) of
        Some e \<Rightarrow> Ok e
      | None \<Rightarrow> Err (if lamports l (am_pubkey entry) = 0 then AccountNotInitialized
                     else AccountOwnedByWrongProgram))"

definition entry_constraints ::
  "solana_lib \<Rightarrow> pubkey \<Rightarrow> u16 \<Rightarrow> account_meta \<Rightarrow> account_meta \<Rightarrow> registry_entry \<Rightarrow>
     (anchor_error, unit) outcome" where
  "entry_constraints S pid scheme_id registrant entry e =
     (if create_program_address S
           (entry_seeds (am_pubkey registrant) scheme_id @ [[re_bump e]]) pid
         \<noteq> Some (am_pubkey entry)
      then Err ConstraintSeeds
      else
        obind (mut entry) (\<lambda>_.
        if re_registrant e \<noteq> am_pubkey registrant then Err ConstraintHasOne else Ok ()))"

lemma load_entry_Ok [simp]: "load_entry l m = Ok e \<longleftrightarrow> entries l (am_pubkey m) = Some e"
  by (simp add: load_entry_def split: option.split)

fun update_accounts ::
  "solana_lib \<Rightarrow> pubkey \<Rightarrow> u16 \<Rightarrow> ledger \<Rightarrow> account_meta list \<Rightarrow>
     (anchor_error, pubkey \<times> registry_entry) outcome" where
  "update_accounts S pid scheme_id l (registrant # entry # _) =
     obind (signer registrant) (\<lambda>_.
     obind (load_entry l entry) (\<lambda>e.
     obind (entry_constraints S pid scheme_id registrant entry e) (\<lambda>_.
       Ok (am_pubkey entry, e))))"
| "update_accounts S pid scheme_id l _ = Err AccountNotEnoughKeys"

fun close_accounts ::
  "solana_lib \<Rightarrow> pubkey \<Rightarrow> u16 \<Rightarrow> ledger \<Rightarrow> account_meta list \<Rightarrow>
     (anchor_error, pubkey \<times> pubkey \<times> registry_entry) outcome" where
  "close_accounts S pid scheme_id l (registrant # entry # _) =
     obind (signer registrant) (\<lambda>_.
     obind (load_entry l entry) (\<lambda>e.
     obind (mut registrant) (\<lambda>_.
     obind (entry_constraints S pid scheme_id registrant entry e) (\<lambda>_.
       Ok (am_pubkey registrant, am_pubkey entry, e)))))"
| "close_accounts S pid scheme_id l _ = Err AccountNotEnoughKeys"

section \<open>Handlers\<close>

text \<open>The three \<open>require!\<close>s of \<open>register\<close> and \<open>update\<close>.\<close>

definition check_payload :: "u16 \<Rightarrow> meta_payload \<Rightarrow> (registry_error, unit) outcome" where
  "check_payload scheme_id payload =
     (if scheme_id = 0 then Err InvalidSchemeId
      else if mp_version payload \<noteq> 1 then Err InvalidVersion
      else if mp_flags payload \<noteq> 0 then Err InvalidFlags
      else Ok ())"

definition register ::
  "solana_lib \<Rightarrow> (nat \<Rightarrow> nat) \<Rightarrow> pubkey \<Rightarrow> account_meta list \<Rightarrow> u16 \<Rightarrow> meta_payload \<Rightarrow> ledger \<Rightarrow>
     (registry_error, ledger) outcome" where
  "register S rent pid metas scheme_id payload l =
     obind (omap_err RegistryAnchor (register_accounts S rent pid scheme_id l metas))
       (\<lambda>(registrant, pda, bump, l).
     obind (check_payload scheme_id payload) (\<lambda>_.
       let entry = \<lparr>re_registrant = registrant, re_scheme_id = scheme_id, re_bump = bump,
                    re_version = mp_version payload, re_b_spend = mp_b_spend payload,
                    re_b_scan = mp_b_scan payload, re_flags = mp_flags payload\<rparr> in
       Ok (l\<lparr>entries := (entries l)(pda \<mapsto> entry),
             emitted := emitted l @ [MetaAddressRegistered registrant scheme_id payload]\<rparr>)))"

definition update ::
  "solana_lib \<Rightarrow> pubkey \<Rightarrow> account_meta list \<Rightarrow> u16 \<Rightarrow> meta_payload \<Rightarrow> ledger \<Rightarrow>
     (registry_error, ledger) outcome" where
  "update S pid metas scheme_id payload l =
     obind (omap_err RegistryAnchor (update_accounts S pid scheme_id l metas)) (\<lambda>(key, e).
     obind (check_payload scheme_id payload) (\<lambda>_.
       let entry = e\<lparr>re_version := mp_version payload, re_b_spend := mp_b_spend payload,
                     re_b_scan := mp_b_scan payload, re_flags := mp_flags payload\<rparr> in
       Ok (l\<lparr>entries := (entries l)(key \<mapsto> entry),
             emitted := emitted l @ [MetaAddressUpdated (re_registrant e) scheme_id payload]\<rparr>)))"

definition close ::
  "solana_lib \<Rightarrow> pubkey \<Rightarrow> account_meta list \<Rightarrow> u16 \<Rightarrow> ledger \<Rightarrow> (registry_error, ledger) outcome" where
  "close S pid metas scheme_id l =
     obind (omap_err RegistryAnchor (close_accounts S pid scheme_id l metas)) (\<lambda>(dest, key, e).
       Ok (l\<lparr>entries := (entries l)(key := None),
             lamports := close_lamports dest key (lamports l),
             emitted := emitted l @ [MetaAddressClosed (re_registrant e) scheme_id]\<rparr>))"

section \<open>The ledger as a transition system\<close>

text \<open>
  Any transaction, or another program that calls this one, may run an instruction with any
  accounts, if every key marked as a signer has signed: a keypair signs the transaction, another
  program signs for its own addresses. Only this program could sign for an address of this program,
  and it never does. The rest of the chain may move lamports, but cannot debit an account the
  program owns.
\<close>

definition may_sign :: "solana_lib \<Rightarrow> pubkey \<Rightarrow> pubkey \<Rightarrow> bool" where
  "may_sign S pid k \<longleftrightarrow> (\<forall>ss. create_program_address S ss pid \<noteq> Some k)"

definition signatures_ok :: "solana_lib \<Rightarrow> pubkey \<Rightarrow> account_meta list \<Rightarrow> bool" where
  "signatures_ok S pid metas \<longleftrightarrow> (\<forall>m \<in> set metas. is_signer m \<longrightarrow> may_sign S pid (am_pubkey m))"

lemma keypair_may_sign: "pda_laws S \<Longrightarrow> is_on_curve S k \<Longrightarrow> may_sign S pid k"
  using pda_off_curve by (auto simp: may_sign_def)

lemma pda_may_not_sign: "pda_laws S \<Longrightarrow> \<not> may_sign S pid (fst (find_program_address S ss pid))"
  using pda_canonical by (fastforce simp: may_sign_def prod_eq_iff)

inductive ledger_step :: "solana_lib \<Rightarrow> (nat \<Rightarrow> nat) \<Rightarrow> pubkey \<Rightarrow> ledger \<Rightarrow> ledger \<Rightarrow> bool"
  for S rent pid where
  step_register:
    "signatures_ok S pid metas \<Longrightarrow> register S rent pid metas s p l = Ok l' \<Longrightarrow> ledger_step S rent pid l l'"
| step_update:
    "signatures_ok S pid metas \<Longrightarrow> update S pid metas s p l = Ok l' \<Longrightarrow> ledger_step S rent pid l l'"
| step_close:
    "signatures_ok S pid metas \<Longrightarrow> close S pid metas s l = Ok l' \<Longrightarrow> ledger_step S rent pid l l'"
| step_transfers:
    "\<forall>k. entries l k \<noteq> None \<longrightarrow> lamports l k \<le> bal k \<Longrightarrow>
     ledger_step S rent pid l (l\<lparr>lamports := bal\<rparr>)"

inductive_cases ledger_stepE: "ledger_step S rent pid l l'"

definition genesis :: "(pubkey \<Rightarrow> nat) \<Rightarrow> ledger" where
  "genesis bal = \<lparr>entries = Map.empty, lamports = bal, emitted = []\<rparr>"

section \<open>Abstraction\<close>

definition payload_of :: "registry_entry \<Rightarrow> meta_payload" where
  "payload_of e = \<lparr>mp_version = re_version e, mp_b_spend = re_b_spend e, mp_b_scan = re_b_scan e,
     mp_flags = re_flags e\<rparr>"

definition entry_pda :: "solana_lib \<Rightarrow> pubkey \<Rightarrow> pubkey \<times> u16 \<Rightarrow> pubkey" where
  "entry_pda S pid k = fst (find_program_address S (entry_seeds (fst k) (snd k)) pid)"

text \<open>What a client reads for a registrant and a scheme.\<close>

definition registered :: "solana_lib \<Rightarrow> pubkey \<Rightarrow> ledger \<Rightarrow> pubkey \<times> u16 \<rightharpoonup> meta_payload" where
  "registered S pid l = (\<lambda>k. map_option payload_of (entries l (entry_pda S pid k)))"

text \<open>What an indexer of the events rebuilds.\<close>

fun apply_event :: "(pubkey \<times> u16 \<rightharpoonup> meta_payload) \<Rightarrow> registry_event \<Rightarrow> (pubkey \<times> u16 \<rightharpoonup> meta_payload)" where
  "apply_event m (MetaAddressRegistered r s p) = m((r, s) \<mapsto> p)"
| "apply_event m (MetaAddressUpdated r s p) = m((r, s) \<mapsto> p)"
| "apply_event m (MetaAddressClosed r s) = m((r, s) := None)"

definition replay :: "registry_event list \<Rightarrow> (pubkey \<times> u16 \<rightharpoonup> meta_payload)" where
  "replay = foldl apply_event Map.empty"

lemma replay_snoc [simp]: "replay (es @ [e]) = apply_event (replay es) e"
  by (simp add: replay_def)

text \<open>Every account is at its canonical address, holds a valid v1 entry and is rent-exempt.\<close>

definition entry_inv :: "solana_lib \<Rightarrow> (nat \<Rightarrow> nat) \<Rightarrow> pubkey \<Rightarrow> nat \<Rightarrow> pubkey \<Rightarrow> registry_entry \<Rightarrow> bool" where
  "entry_inv S rent pid bal pda e \<longleftrightarrow>
     find_program_address S (entry_seeds (re_registrant e) (re_scheme_id e)) pid = (pda, re_bump e) \<and>
     may_sign S pid (re_registrant e) \<and>
     re_version e = 1 \<and> re_flags e = 0 \<and> re_scheme_id e \<noteq> 0 \<and>
     rent (8 + ENTRY_SIZE) \<le> bal"

definition registry_inv :: "solana_lib \<Rightarrow> (nat \<Rightarrow> nat) \<Rightarrow> pubkey \<Rightarrow> ledger \<Rightarrow> bool" where
  "registry_inv S rent pid l \<longleftrightarrow>
     (\<forall>pda e. entries l pda = Some e \<longrightarrow> entry_inv S rent pid (lamports l pda) pda e) \<and>
     replay (emitted l) = registered S pid l"

definition may_register :: "u16 \<Rightarrow> meta_payload \<Rightarrow> bool" where
  "may_register s p \<longleftrightarrow> s \<noteq> 0 \<and> mp_version p = 1 \<and> mp_flags p = 0"

lemma check_payload_Ok [simp]: "check_payload s p = Ok u \<longleftrightarrow> may_register s p"
  by (simp add: check_payload_def may_register_def)

section \<open>Inversion of the three instructions\<close>

lemma entry_seeds_inj: "concat (entry_seeds r s) = concat (entry_seeds r' s') \<longleftrightarrow> r = r' \<and> s = s'"
  by (auto simp: entry_seeds_def u16_to_le_bytes_inj)

lemma entry_pda_inj:
  assumes "pda_laws S" shows "entry_pda S pid j = entry_pda S pid k \<longleftrightarrow> j = k"
proof
  assume eq: "entry_pda S pid j = entry_pda S pid k"
  obtain b c where "find_program_address S (entry_seeds (fst j) (snd j)) pid = (entry_pda S pid j, b)"
    "find_program_address S (entry_seeds (fst k) (snd k)) pid = (entry_pda S pid k, c)"
    by (auto simp: entry_pda_def prod_eq_iff)
  from this [THEN pda_canonical [OF assms]]
  have "concat (entry_seeds (fst j) (snd j)) = concat (entry_seeds (fst k) (snd k))"
    using pda_collision_free [OF assms] eq by fastforce
  then show "j = k" by (simp add: entry_seeds_inj prod_eq_iff)
qed simp

lemma registered_upd:
  "pda_laws S \<Longrightarrow> registered S pid (l\<lparr>entries := (entries l)(entry_pda S pid k \<mapsto> e)\<rparr>) =
     (registered S pid l)(k \<mapsto> payload_of e)"
  "pda_laws S \<Longrightarrow> registered S pid (l\<lparr>entries := (entries l)(entry_pda S pid k := None)\<rparr>) =
     (registered S pid l)(k := None)"
  by (auto simp: registered_def entry_pda_inj fun_eq_iff)

lemma registered_other_fields [simp]:
  "registered S pid (l\<lparr>lamports := b\<rparr>) = registered S pid l"
  "registered S pid (l\<lparr>emitted := es\<rparr>) = registered S pid l"
  by (simp_all add: registered_def)

text \<open>A successful instruction: who signed, for which key, and the new ledger.\<close>

lemma register_OkE:
  assumes "register S rent pid metas s p l = Ok l'"
  obtains registrant entry system rest pda bump bal where
    "metas = registrant # entry # system # rest" "is_signer registrant"
    "find_program_address S (entry_seeds (am_pubkey registrant) s) pid = (pda, bump)"
    "entries l pda = None" "init_lamports rent (am_pubkey registrant) pda l = Ok bal"
    "may_register s p"
    "l' = l\<lparr>entries := (entries l)(pda \<mapsto>
            \<lparr>re_registrant = am_pubkey registrant, re_scheme_id = s, re_bump = bump,
             re_version = mp_version p, re_b_spend = mp_b_spend p, re_b_scan = mp_b_scan p,
             re_flags = mp_flags p\<rparr>),
           lamports := bal,
           emitted := emitted l @ [MetaAddressRegistered (am_pubkey registrant) s p]\<rparr>"
  using assms
  by (auto simp: register_def obind_Ok_iff Ok_obind_iff Let_def
      elim!: register_accounts.elims split: if_splits prod.splits)

text \<open>Under the invariant the stored bump and \<open>has_one\<close> pin down the entry's key.\<close>

lemma loaded_entry:
  assumes "entries l (am_pubkey entry) = Some e" "entry_constraints S pid s registrant entry e = Ok u"
    and "pda_laws S" "registry_inv S rent pid l"
  shows "re_registrant e = am_pubkey registrant \<and>
    re_scheme_id e = s \<and> am_pubkey entry = entry_pda S pid (am_pubkey registrant, s)"
proof -
  from assms(2) have e: "re_registrant e = am_pubkey registrant"
    "create_program_address S (entry_seeds (am_pubkey registrant) s @ [[re_bump e]]) pid =
       Some (am_pubkey entry)"
    by (auto simp: entry_constraints_def obind_Ok_iff split: if_splits)
  have find: "find_program_address S (entry_seeds (re_registrant e) (re_scheme_id e)) pid =
      (am_pubkey entry, re_bump e)"
    using assms(1,4) by (auto simp: registry_inv_def entry_inv_def)
  have "concat (entry_seeds (re_registrant e) (re_scheme_id e)) = concat (entry_seeds (am_pubkey registrant) s)"
    using pda_collision_free [OF assms(3) pda_canonical [OF assms(3) find] e(2)] by simp
  then have "re_scheme_id e = s" by (simp add: entry_seeds_inj)
  with e find show ?thesis by (simp add: entry_pda_def)
qed

lemma update_OkE:
  assumes "update S pid metas s p l = Ok l'" "pda_laws S" "registry_inv S rent pid l"
  obtains registrant entry rest e where
    "metas = registrant # entry # rest" "is_signer registrant"
    "entries l (entry_pda S pid (am_pubkey registrant, s)) = Some e"
    "re_registrant e = am_pubkey registrant" "re_scheme_id e = s" "may_register s p"
    "l' = l\<lparr>entries := (entries l)(entry_pda S pid (am_pubkey registrant, s) \<mapsto>
            e\<lparr>re_version := mp_version p, re_b_spend := mp_b_spend p, re_b_scan := mp_b_scan p,
              re_flags := mp_flags p\<rparr>),
           emitted := emitted l @ [MetaAddressUpdated (am_pubkey registrant) s p]\<rparr>"
  using assms(1) loaded_entry [OF _ _ assms(2,3)]
  by (fastforce simp: update_def obind_Ok_iff Ok_obind_iff Let_def
      elim!: update_accounts.elims split: if_splits prod.splits)

lemma close_OkE:
  assumes "close S pid metas s l = Ok l'" "pda_laws S" "registry_inv S rent pid l"
  obtains registrant entry rest e where
    "metas = registrant # entry # rest" "is_signer registrant"
    "entries l (entry_pda S pid (am_pubkey registrant, s)) = Some e"
    "re_registrant e = am_pubkey registrant" "re_scheme_id e = s"
    "l' = l\<lparr>entries := (entries l)(entry_pda S pid (am_pubkey registrant, s) := None),
           lamports := close_lamports (am_pubkey registrant)
             (entry_pda S pid (am_pubkey registrant, s)) (lamports l),
           emitted := emitted l @ [MetaAddressClosed (am_pubkey registrant) s]\<rparr>"
  using assms(1) loaded_entry [OF _ _ assms(2,3)]
  by (fastforce simp: close_def obind_Ok_iff Ok_obind_iff Let_def
      elim!: close_accounts.elims split: if_splits prod.splits)

section \<open>The invariant\<close>

lemma payload_eta [simp]:
  "\<lparr>mp_version = mp_version p, mp_b_spend = mp_b_spend p, mp_b_scan = mp_b_scan p,
    mp_flags = mp_flags p\<rparr> = p"
  by simp

lemma registry_invI [intro]:
  "(\<And>pda e. entries l pda = Some e \<Longrightarrow> entry_inv S rent pid (lamports l pda) pda e) \<Longrightarrow>
   replay (emitted l) = registered S pid l \<Longrightarrow> registry_inv S rent pid l"
  by (simp add: registry_inv_def)

lemma entry_inv_mono: "entry_inv S rent pid b k e \<Longrightarrow> b \<le> b' \<Longrightarrow> entry_inv S rent pid b' k e"
  by (auto simp: entry_inv_def)

lemma entry_inv_old:
  "registry_inv S rent pid l \<Longrightarrow> entries l k = Some e \<Longrightarrow> lamports l k \<le> b \<Longrightarrow>
     entry_inv S rent pid b k e"
  by (auto simp: registry_inv_def intro: entry_inv_mono)

lemma init_lamports_Ok:
  assumes "init_lamports rent payer pda l = Ok bal" "payer \<noteq> pda"
  shows "rent (8 + ENTRY_SIZE) \<le> bal pda"
    and "entries l k \<noteq> None \<Longrightarrow> lamports l k \<le> bal k"
    and "bal payer + bal pda = lamports l payer + lamports l pda"
    and "k \<noteq> payer \<Longrightarrow> k \<noteq> pda \<Longrightarrow> bal k = lamports l k"
  using assms by (auto simp: init_lamports_def Let_def split: if_splits)

lemma close_lamports_other: "k \<noteq> pda \<Longrightarrow> bal k \<le> close_lamports dest pda bal k"
  by (simp add: close_lamports_def)

lemma register_inv:
  assumes "signatures_ok S pid metas" "register S rent pid metas s p l = Ok l'" "pda_laws S" "registry_inv S rent pid l"
  shows "registry_inv S rent pid l'"
  using assms(2)
proof (rule register_OkE)
  fix registrant entry system rest pda bump bal
  assume ok: "metas = registrant # entry # system # rest" "is_signer registrant"
    "find_program_address S (entry_seeds (am_pubkey registrant) s) pid = (pda, bump)"
    "entries l pda = None" "init_lamports rent (am_pubkey registrant) pda l = Ok bal"
    "may_register s p"
  assume l': "l' = l\<lparr>entries := (entries l)(pda \<mapsto>
            \<lparr>re_registrant = am_pubkey registrant, re_scheme_id = s, re_bump = bump,
             re_version = mp_version p, re_b_spend = mp_b_spend p, re_b_scan = mp_b_scan p,
             re_flags = mp_flags p\<rparr>),
           lamports := bal,
           emitted := emitted l @ [MetaAddressRegistered (am_pubkey registrant) s p]\<rparr>"
  have curve: "may_sign S pid (am_pubkey registrant)" using assms(1) ok(1,2) by (simp add: signatures_ok_def)
  then have "am_pubkey registrant \<noteq> pda"
    using pda_may_not_sign [OF assms(3), of pid "entry_seeds (am_pubkey registrant) s"] ok(3) by auto
  note bal = init_lamports_Ok [OF ok(5) this]
  have pda: "pda = entry_pda S pid (am_pubkey registrant, s)" using ok(3) by (simp add: entry_pda_def)
  show "registry_inv S rent pid l'"
  proof (rule registry_invI)
    fix k e assume k: "entries l' k = Some e"
    show "entry_inv S rent pid (lamports l' k) k e"
    proof (cases "k = pda")
      case True
      with k bal(1) ok(3,6) curve show ?thesis
        by (auto simp: l' entry_inv_def may_register_def)
    next
      case False
      with k bal(2) [of k] assms(4) show ?thesis by (auto simp: l' intro: entry_inv_old)
    qed
  next
    show "replay (emitted l') = registered S pid l'"
      using assms(3,4) by (simp add: l' pda registered_upd payload_of_def registry_inv_def)
  qed
qed

lemma update_inv:
  assumes "update S pid metas s p l = Ok l'" "pda_laws S" "registry_inv S rent pid l"
  shows "registry_inv S rent pid l'"
  using assms
proof (rule update_OkE)
  fix registrant entry rest and e :: registry_entry
  let ?pda = "entry_pda S pid (am_pubkey registrant, s)"
  let ?e = "e\<lparr>re_version := mp_version p, re_b_spend := mp_b_spend p, re_b_scan := mp_b_scan p,
              re_flags := mp_flags p\<rparr>"
  assume ok: "entries l ?pda = Some e" "may_register s p"
  assume l': "l' = l\<lparr>entries := (entries l)(?pda \<mapsto> ?e),
           emitted := emitted l @ [MetaAddressUpdated (am_pubkey registrant) s p]\<rparr>"
  have inv: "entry_inv S rent pid (lamports l k) k x" if "entries l k = Some x" for k x
    using that assms(3) by (simp add: registry_inv_def)
  show ?thesis
  proof (rule registry_invI)
    fix k x assume "entries l' k = Some x"
    then show "entry_inv S rent pid (lamports l' k) k x"
      using inv [of k] ok by (auto simp: l' entry_inv_def may_register_def split: if_splits)
  next
    show "replay (emitted l') = registered S pid l'"
      using assms(2,3) by (simp add: l' registered_upd payload_of_def registry_inv_def)
  qed
qed

lemma close_inv:
  assumes "close S pid metas s l = Ok l'" "pda_laws S" "registry_inv S rent pid l"
  shows "registry_inv S rent pid l'"
  using assms
proof (rule close_OkE)
  fix registrant entry rest and e :: registry_entry
  let ?pda = "entry_pda S pid (am_pubkey registrant, s)"
  assume l': "l' = l\<lparr>entries := (entries l)(?pda := None),
           lamports := close_lamports (am_pubkey registrant) ?pda (lamports l),
           emitted := emitted l @ [MetaAddressClosed (am_pubkey registrant) s]\<rparr>"
  show ?thesis
  proof (rule registry_invI)
    fix k x assume "entries l' k = Some x"
    then show "entry_inv S rent pid (lamports l' k) k x"
      using assms(3) close_lamports_other [of k ?pda "lamports l" "am_pubkey registrant"]
      by (auto simp: l' intro: entry_inv_old split: if_splits)
  next
    show "replay (emitted l') = registered S pid l'"
      using assms(2,3) by (simp add: l' registered_upd registry_inv_def)
  qed
qed

lemma ledger_step_inv:
  "ledger_step S rent pid l l' \<Longrightarrow> pda_laws S \<Longrightarrow> registry_inv S rent pid l \<Longrightarrow> registry_inv S rent pid l'"
proof (induction rule: ledger_step.induct)
  case (step_transfers l bal)
  then show ?case
    by (intro registry_invI) (auto simp: registry_inv_def intro: entry_inv_mono)
qed (auto intro: register_inv update_inv close_inv)

lemma genesis_inv: "registry_inv S rent pid (genesis bal)"
  by (simp add: registry_inv_def genesis_def replay_def registered_def fun_eq_iff)

interpretation registry: invariant_system
  "genesis bal" "ledger_step S rent pid" "\<lambda>l. pda_laws S \<longrightarrow> registry_inv S rent pid l"
  for bal S rent pid
  by unfold_locales (auto simp: genesis_inv intro: ledger_step_inv)

section \<open>The registry as a keyed store\<close>

text \<open>
  The accounts a client passes for its own key, as the SDK builds them, and the three instructions
  as a signed transaction of that client.
\<close>

definition register_metas :: "solana_lib \<Rightarrow> pubkey \<Rightarrow> pubkey \<times> u16 \<Rightarrow> account_meta list" where
  "register_metas S pid k =
     [account_meta_new (fst k) True, account_meta_new (entry_pda S pid k) False,
      account_meta_new_readonly (system_program S) False]"

definition update_metas :: "solana_lib \<Rightarrow> pubkey \<Rightarrow> pubkey \<times> u16 \<Rightarrow> account_meta list" where
  "update_metas S pid k =
     [account_meta_new_readonly (fst k) True, account_meta_new (entry_pda S pid k) False]"

definition close_metas :: "solana_lib \<Rightarrow> pubkey \<Rightarrow> pubkey \<times> u16 \<Rightarrow> account_meta list" where
  "close_metas S pid k =
     [account_meta_new (fst k) True, account_meta_new (entry_pda S pid k) False]"

definition submit ::
  "solana_lib \<Rightarrow> pubkey \<Rightarrow> account_meta list \<Rightarrow> (registry_error, ledger) outcome \<Rightarrow>
     (registry_error, ledger) outcome" where
  "submit S pid metas r = (if signatures_ok S pid metas then r else Err (RegistryAnchor AccountNotSigner))"

definition client_register ::
  "solana_lib \<Rightarrow> (nat \<Rightarrow> nat) \<Rightarrow> pubkey \<Rightarrow> pubkey \<times> u16 \<Rightarrow> meta_payload \<Rightarrow> ledger \<Rightarrow>
     (registry_error, ledger) outcome" where
  "client_register S rent pid k p l =
     submit S pid (register_metas S pid k) (register S rent pid (register_metas S pid k) (snd k) p l)"

definition client_update ::
  "solana_lib \<Rightarrow> pubkey \<Rightarrow> pubkey \<times> u16 \<Rightarrow> meta_payload \<Rightarrow> ledger \<Rightarrow> (registry_error, ledger) outcome" where
  "client_update S pid k p l =
     submit S pid (update_metas S pid k) (update S pid (update_metas S pid k) (snd k) p l)"

definition client_close ::
  "solana_lib \<Rightarrow> pubkey \<Rightarrow> pubkey \<times> u16 \<Rightarrow> ledger \<Rightarrow> (registry_error, ledger) outcome" where
  "client_close S pid k l =
     submit S pid (close_metas S pid k) (close S pid (close_metas S pid k) (snd k) l)"

lemma signatures_metas [simp]:
  "signatures_ok S pid (register_metas S pid k) \<longleftrightarrow> may_sign S pid (fst k)"
  "signatures_ok S pid (update_metas S pid k) \<longleftrightarrow> may_sign S pid (fst k)"
  "signatures_ok S pid (close_metas S pid k) \<longleftrightarrow> may_sign S pid (fst k)"
  by (simp_all add: signatures_ok_def register_metas_def update_metas_def close_metas_def)

lemma submit_Ok [simp]: "submit S pid metas r = Ok l \<longleftrightarrow> signatures_ok S pid metas \<and> r = Ok l"
  by (simp add: submit_def)

lemma find_entry_pda:
  "\<exists>b. find_program_address S (entry_seeds (fst k) (snd k)) pid = (entry_pda S pid k, b)"
  by (auto simp: entry_pda_def prod_eq_iff)

lemma registered_None [simp]: "registered S pid l k = None \<longleftrightarrow> entries l (entry_pda S pid k) = None"
  by (simp add: registered_def)

text \<open>The entry at a key's address is the key's.\<close>

lemma entry_at:
  assumes "pda_laws S" "registry_inv S rent pid l" "entries l (entry_pda S pid k) = Some e"
  shows "re_registrant e = fst k" "re_scheme_id e = snd k" "may_sign S pid (fst k)"
    "rent (8 + ENTRY_SIZE) \<le> lamports l (entry_pda S pid k)"
    "create_program_address S (entry_seeds (fst k) (snd k) @ [[re_bump e]]) pid = Some (entry_pda S pid k)"
proof -
  have inv: "entry_inv S rent pid (lamports l (entry_pda S pid k)) (entry_pda S pid k) e"
    using assms(2,3) by (simp add: registry_inv_def)
  then have find: "find_program_address S (entry_seeds (re_registrant e) (re_scheme_id e)) pid =
      (entry_pda S pid k, re_bump e)"
    by (simp add: entry_inv_def)
  then have "entry_pda S pid (re_registrant e, re_scheme_id e) = entry_pda S pid k"
    by (simp add: entry_pda_def)
  then have "(re_registrant e, re_scheme_id e) = k" using entry_pda_inj [OF assms(1)] by simp
  then show key: "re_registrant e = fst k" "re_scheme_id e = snd k" by auto
  show "may_sign S pid (fst k)" "rent (8 + ENTRY_SIZE) \<le> lamports l (entry_pda S pid k)"
    using inv key by (auto simp: entry_inv_def)
  show "create_program_address S (entry_seeds (fst k) (snd k) @ [[re_bump e]]) pid = Some (entry_pda S pid k)"
    using pda_canonical [OF assms(1) find] key by simp
qed

definition can_fund :: "solana_lib \<Rightarrow> (nat \<Rightarrow> nat) \<Rightarrow> pubkey \<Rightarrow> ledger \<Rightarrow> pubkey \<times> u16 \<Rightarrow> bool" where
  "can_fund S rent pid l k \<longleftrightarrow> (\<exists>bal. init_lamports rent (fst k) (entry_pda S pid k) l = Ok bal)"

definition may_hold :: "solana_lib \<Rightarrow> pubkey \<Rightarrow> pubkey \<times> u16 \<Rightarrow> meta_payload \<Rightarrow> bool" where
  "may_hold S pid k p \<longleftrightarrow> may_sign S pid (fst k) \<and> may_register (snd k) p"

definition good_ledger :: "solana_lib \<Rightarrow> (nat \<Rightarrow> nat) \<Rightarrow> pubkey \<Rightarrow> ledger \<Rightarrow> bool" where
  "good_ledger S rent pid l \<longleftrightarrow> pda_laws S \<and> registry_inv S rent pid l"

lemma client_register_iff:
  "(\<exists>l'. client_register S rent pid k p l = Ok l') \<longleftrightarrow>
     may_hold S pid k p \<and> registered S pid l k = None \<and> can_fund S rent pid l k"
  using find_entry_pda [of S k pid]
  by (auto simp: client_register_def register_def register_metas_def [of S pid k] obind_Ok_iff
      may_hold_def can_fund_def signer_def mut_def signatures_ok_def split: if_splits)

lemma entry_constraints_at:
  assumes "good_ledger S rent pid l" "am_pubkey m = fst k" "entries l (entry_pda S pid k) = Some e"
  shows "entry_constraints S pid (snd k) m (account_meta_new (entry_pda S pid k) False) e = Ok ()"
  using assms entry_at [of S rent pid l k e] by (simp add: entry_constraints_def good_ledger_def mut_def)

lemma client_update_iff:
  assumes "good_ledger S rent pid l"
  shows "(\<exists>l'. client_update S pid k p l = Ok l') \<longleftrightarrow> may_hold S pid k p \<and> registered S pid l k \<noteq> None"
  by (auto simp: client_update_def update_def update_metas_def [of S pid k] obind_Ok_iff Let_def
      may_hold_def signer_def signatures_ok_def entry_constraints_at [OF assms])

lemma client_close_iff:
  assumes "good_ledger S rent pid l"
  shows "(\<exists>l'. client_close S pid k l = Ok l') \<longleftrightarrow> registered S pid l k \<noteq> None"
  using assms entry_at(3) [of S rent pid l k]
  by (auto simp: client_close_def close_def close_metas_def [of S pid k] obind_Ok_iff
      signer_def mut_def signatures_ok_def entry_constraints_at [OF assms] good_ledger_def)

lemma register_effect:
  assumes "pda_laws S" "register S rent pid metas s p l = Ok l'"
  shows "\<exists>m rest. metas = m # rest \<and> is_signer m \<and> registered S pid l (am_pubkey m, s) = None \<and>
    may_register s p \<and> registered S pid l' = (registered S pid l)((am_pubkey m, s) \<mapsto> p)"
  using assms(2)
proof (rule register_OkE, goal_cases)
  case (1 registrant entry system rest pda bump bal)
  then have "pda = entry_pda S pid (am_pubkey registrant, s)" by (simp add: entry_pda_def)
  with 1 assms(1) show ?case by (simp add: registered_upd payload_of_def)
qed

lemma update_effect:
  assumes "good_ledger S rent pid l" "update S pid metas s p l = Ok l'"
  shows "\<exists>m rest. metas = m # rest \<and> is_signer m \<and> registered S pid l (am_pubkey m, s) \<noteq> None \<and>
    may_register s p \<and> registered S pid l' = (registered S pid l)((am_pubkey m, s) \<mapsto> p)"
  using assms(2) assms(1) [unfolded good_ledger_def]
  by (elim conjE update_OkE) (auto simp: registered_upd payload_of_def)

lemma close_effect:
  assumes "good_ledger S rent pid l" "close S pid metas s l = Ok l'"
  shows "\<exists>m rest. metas = m # rest \<and> is_signer m \<and> registered S pid l (am_pubkey m, s) \<noteq> None \<and>
    registered S pid l' = (registered S pid l)((am_pubkey m, s) := None) \<and>
    lamports l' = close_lamports (am_pubkey m) (entry_pda S pid (am_pubkey m, s)) (lamports l)"
  using assms(2) assms(1) [unfolded good_ledger_def]
  by (elim conjE close_OkE) (auto simp: registered_upd)

lemma good_ledger_step: "good_ledger S rent pid l \<Longrightarrow> ledger_step S rent pid l l' \<Longrightarrow> good_ledger S rent pid l'"
  by (auto simp: good_ledger_def intro: ledger_step_inv)

lemma client_steps:
  "client_register S rent pid k p l = Ok l' \<Longrightarrow> ledger_step S rent pid l l'"
  "client_update S pid k p l = Ok l' \<Longrightarrow> ledger_step S rent pid l l'"
  "client_close S pid k l = Ok l' \<Longrightarrow> ledger_step S rent pid l l'"
  unfolding client_register_def client_update_def client_close_def submit_Ok
  by (blast intro: ledger_step.intros)+

lemma client_effects:
  "good_ledger S rent pid l \<Longrightarrow> client_register S rent pid k p l = Ok l' \<Longrightarrow>
     registered S pid l' = (registered S pid l)(k \<mapsto> p)"
  "good_ledger S rent pid l \<Longrightarrow> client_update S pid k p l = Ok l' \<Longrightarrow>
     registered S pid l' = (registered S pid l)(k \<mapsto> p)"
  "good_ledger S rent pid l \<Longrightarrow> client_close S pid k l = Ok l' \<Longrightarrow>
     registered S pid l' = (registered S pid l)(k := None) \<and>
     lamports l' = close_lamports (fst k) (entry_pda S pid k) (lamports l)"
  using register_effect [of S rent pid "register_metas S pid k" "snd k" p l l']
    update_effect [of S rent pid l "update_metas S pid k" "snd k" p l']
    close_effect [of S rent pid l "close_metas S pid k" "snd k" l']
  by (auto simp: client_register_def client_update_def client_close_def register_metas_def
      update_metas_def close_metas_def good_ledger_def)

text \<open>Closing refunds at least the rent, so the closed key can be registered again.\<close>

lemma can_fund_after_close:
  assumes "good_ledger S rent pid l" "client_close S pid k l = Ok l'"
  shows "can_fund S rent pid l' k"
proof -
  have good': "good_ledger S rent pid l'"
    using good_ledger_step [OF assms(1) client_steps(3) [OF assms(2)]] .
  obtain e where e: "entries l (entry_pda S pid k) = Some e"
    using client_close_iff [OF assms(1), of k] assms(2) by auto
  note at = entry_at [OF _ _ e, of rent] assms(1) [unfolded good_ledger_def]
  have no: "entries l' (fst k) = None"
  proof (rule ccontr)
    assume "entries l' (fst k) \<noteq> None"
    then obtain x where "entries l' (fst k) = Some x" by blast
    then have "find_program_address S (entry_seeds (re_registrant x) (re_scheme_id x)) pid = (fst k, re_bump x)"
      using good' by (auto simp: good_ledger_def registry_inv_def entry_inv_def)
    then have "\<not> may_sign S pid (fst k)" using at pda_may_not_sign by (metis fst_conv)
    with at show False by blast
  qed
  have "fst k \<noteq> entry_pda S pid k"
    using at pda_may_not_sign [of S pid "entry_seeds (fst k) (snd k)"] by (auto simp: entry_pda_def)
  then have "rent (8 + ENTRY_SIZE) \<le> lamports l' (fst k)"
    using at client_effects(3) [OF assms] by (simp add: close_lamports_def)
  with no show ?thesis by (auto simp: can_fund_def init_lamports_def Let_def)
qed

interpretation reg_store: keyed_store
  "registered S pid" "client_register S rent pid" "client_update S pid" "client_close S pid"
  "good_ledger S rent pid" "may_hold S pid" "can_fund S rent pid"
  for S rent pid
proof (unfold_locales, goal_cases)
  case 1 show ?case by (rule client_register_iff)
next
  case 2 then show ?case by (rule client_update_iff)
next
  case 3 then show ?case by (rule client_close_iff)
next
  case 4 then show ?case by (rule client_effects(1))
next
  case 5 then show ?case by (rule client_effects(2))
next
  case 6 then show ?case using client_effects(3) by blast
next
  case 7 then show ?case by (blast intro: good_ledger_step client_steps(1))
next
  case 8 then show ?case by (blast intro: good_ledger_step client_steps(2))
next
  case 9 then show ?case by (blast intro: good_ledger_step client_steps(3))
next
  case 10 then show ?case by (rule can_fund_after_close)
qed

section \<open>Properties\<close>

text \<open>C8: in every reachable state each account of the program sits at the canonical address of its
  own registrant and scheme with the canonical bump, holds a version-1 entry with zero flags and a
  nonzero scheme, and is rent-exempt; so there is at most one entry per registrant and scheme.\<close>

theorem registry_entries_canonical:
  assumes "reachable (genesis bal) (ledger_step S rent pid) l" "pda_laws S"
  shows "(\<forall>pda e. entries l pda = Some e \<longrightarrow>
      find_program_address S [ascii ''meta'', re_registrant e, u16_to_le_bytes (re_scheme_id e)] pid
        = (pda, re_bump e) \<and>
      re_version e = 1 \<and> re_flags e = 0 \<and> re_scheme_id e \<noteq> 0 \<and> rent 109 \<le> lamports l pda)
    \<and> (\<forall>a b d e. entries l a = Some d \<and> entries l b = Some e \<and>
        re_registrant d = re_registrant e \<and> re_scheme_id d = re_scheme_id e \<longrightarrow> a = b)"
proof -
  have "registry_inv S rent pid l" using registry.reachable_inv [OF assms(1)] assms(2) by blast
  then have inv: "entry_inv S rent pid (lamports l k) k e" if "entries l k = Some e" for k e
    using that by (simp add: registry_inv_def)
  have "a = b" if "entries l a = Some d" "entries l b = Some e"
    "re_registrant d = re_registrant e" "re_scheme_id d = re_scheme_id e" for a b d e
    using inv [OF that(1)] inv [OF that(2)] that(3,4) by (simp add: entry_inv_def)
  moreover have "find_program_address S [ascii ''meta'', re_registrant e, u16_to_le_bytes (re_scheme_id e)] pid
        = (pda, re_bump e) \<and>
      re_version e = 1 \<and> re_flags e = 0 \<and> re_scheme_id e \<noteq> 0 \<and> rent 109 \<le> lamports l pda"
    if "entries l pda = Some e" for pda e
    using inv [OF that] by (simp add: entry_inv_def entry_seeds_def ENTRY_SIZE_def)
  ultimately show ?thesis by blast
qed

definition toy_ledger :: ledger where
  "toy_ledger = genesis (\<lambda>_. 500)"

definition toy_payload :: meta_payload where
  "toy_payload = \<lparr>mp_version = 1, mp_b_spend = replicate 32 3, mp_b_scan = replicate 32 4, mp_flags = 0\<rparr>"

abbreviation alice :: pubkey where
  "alice \<equiv> replicate 32 10"

lemma good_toy_ledger: "good_ledger toy_solana rent pid toy_ledger"
  by (simp add: good_ledger_def pda_laws_toy toy_ledger_def genesis_inv)

lemma toy_may_sign: "may_sign toy_solana [9] alice"
  by (rule keypair_may_sign [OF pda_laws_toy]) (simp add: toy_solana_def)

lemma toy_register:
  "\<exists>l. client_register toy_solana (\<lambda>_. 100) [9] (alice, 1) toy_payload toy_ledger = Ok l"
  by (simp only: client_register_iff)
     (use toy_may_sign in \<open>simp add: may_hold_def may_register_def toy_payload_def toy_ledger_def genesis_def
       can_fund_def init_lamports_def\<close>)

lemma toy_reachable:
  assumes "client_register toy_solana (\<lambda>_. 100) [9] k p toy_ledger = Ok l"
  shows "reachable (genesis (\<lambda>_. 500)) (ledger_step toy_solana (\<lambda>_. 100) [9]) l"
  by (rule reachable_step [OF reachable_start])
     (rule client_steps(1) [OF assms [unfolded toy_ledger_def]])

theorem registry_entries_canonical_witness:
  "\<exists>l e. client_register toy_solana (\<lambda>_. 100) [9] (alice, 1) toy_payload toy_ledger = Ok l \<and>
     entries l (entry_pda toy_solana [9] (alice, 1)) = Some e \<and>
     re_version e = 1 \<and> 100 \<le> lamports l (entry_pda toy_solana [9] (alice, 1))"
proof -
  obtain l where l: "client_register toy_solana (\<lambda>_. 100) [9] (alice, 1) toy_payload toy_ledger = Ok l"
    using toy_register by blast
  obtain e where "entries l (entry_pda toy_solana [9] (alice, 1)) = Some e"
    using reg_store.create_then_lookup [OF good_toy_ledger l] by (auto simp: registered_def)
  with l registry_entries_canonical [OF toy_reachable [OF l] pda_laws_toy] show ?thesis by blast
qed

text \<open>C7: only the registrant's signature changes what is registered for the registrant: if any
  \<open>register\<close>, \<open>update\<close> or \<open>close\<close>, with whatever accounts the caller passes, changes the entry of a
  key, then the first account of the transaction is that key's registrant, signing.\<close>

theorem only_registrant_changes_entry:
  assumes "reachable (genesis bal) (ledger_step S rent pid) l" "pda_laws S"
    and "register S rent pid metas s p l = Ok l' \<or> update S pid metas s p l = Ok l' \<or>
         close S pid metas s l = Ok l'"
    and "registered S pid l' k \<noteq> registered S pid l k"
  shows "\<exists>m rest. metas = m # rest \<and> is_signer m \<and> am_pubkey m = fst k \<and> snd k = s"
proof -
  have good: "good_ledger S rent pid l"
    using registry.reachable_inv [OF assms(1)] assms(2) by (simp add: good_ledger_def)
  from assms(3) have "\<exists>m rest v. metas = m # rest \<and> is_signer m \<and>
      registered S pid l' = (registered S pid l)((am_pubkey m, s) := v)"
    using register_effect [OF assms(2)] update_effect [OF good] close_effect [OF good] by blast
  then obtain m rest v where m: "metas = m # rest" "is_signer m"
    "registered S pid l' = (registered S pid l)((am_pubkey m, s) := v)" by blast
  with assms(4) have "k = (am_pubkey m, s)" by (metis fun_upd_other)
  with m show ?thesis by simp
qed

theorem only_registrant_changes_entry_witness:
  "\<exists>l m. register toy_solana (\<lambda>_. 100) [9] (register_metas toy_solana [9] (alice, 1)) 1 toy_payload
       toy_ledger = Ok l \<and> hd (register_metas toy_solana [9] (alice, 1)) = m \<and> am_pubkey m = alice"
proof -
  obtain l where l: "client_register toy_solana (\<lambda>_. 100) [9] (alice, 1) toy_payload toy_ledger = Ok l"
    using toy_register by blast
  then have reg: "register toy_solana (\<lambda>_. 100) [9] (register_metas toy_solana [9] (alice, 1)) 1 toy_payload
       toy_ledger = Ok l"
    by (simp add: client_register_def)
  moreover have "registered toy_solana [9] l (alice, 1) \<noteq> registered toy_solana [9] toy_ledger (alice, 1)"
    using reg_store.create_then_lookup [OF good_toy_ledger l]
    by (auto simp: registered_def toy_ledger_def genesis_def)
  ultimately show ?thesis
    using only_registrant_changes_entry [OF reachable_start pda_laws_toy, where bal = "\<lambda>_. 500"
        and rent = "\<lambda>_. 100" and pid = "[9]" and metas = "register_metas toy_solana [9] (alice, 1)"
        and s = 1 and p = toy_payload and l' = l and k = "(alice, 1)"]
    by (auto simp: toy_ledger_def)
qed

text \<open>C9: replaying the program's events from the start rebuilds exactly what is registered, in every
  reachable state, so an indexer of the log and a reader of the accounts agree.\<close>

theorem events_rebuild_registry:
  assumes "reachable (genesis bal) (ledger_step S rent pid) l" "pda_laws S"
  shows "replay (emitted l) = registered S pid l"
  using registry.reachable_inv [OF assms(1)] assms(2) by (simp add: registry_inv_def)

theorem events_rebuild_registry_witness:
  "\<exists>l :: ledger. emitted l \<noteq> [] \<and> replay (emitted l) (alice, 1) = Some toy_payload"
proof -
  obtain l where l: "client_register toy_solana (\<lambda>_. 100) [9] (alice, 1) toy_payload toy_ledger = Ok l"
    using toy_register by blast
  note toy_reachable [OF l]
  then have "replay (emitted l) = registered toy_solana [9] l"
    by (rule events_rebuild_registry [OF _ pda_laws_toy])
  then have *: "replay (emitted l) (alice, 1) = Some toy_payload"
    using reg_store.create_then_lookup [OF good_toy_ledger l] by simp
  then have "emitted l \<noteq> []" by (auto simp: replay_def)
  with * show ?thesis by blast
qed

text \<open>C6: the registry refines a map from (registrant, scheme) to payload. A client's \<open>register\<close>
  succeeds exactly when the payload is valid, the key is free and the rent can be paid, \<open>update\<close>
  when it is valid and the key is taken, \<open>close\<close> when it is taken, and each changes the map at
  the key only.\<close>

theorem registry_refines_map:
  assumes "reachable (genesis bal) (ledger_step S rent pid) l" "pda_laws S" "may_sign S pid (fst k)"
  shows "((\<exists>l'. client_register S rent pid k p l = Ok l') \<longleftrightarrow>
            may_register (snd k) p \<and> registered S pid l k = None \<and> can_fund S rent pid l k)
    \<and> ((\<exists>l'. client_update S pid k p l = Ok l') \<longleftrightarrow>
            may_register (snd k) p \<and> registered S pid l k \<noteq> None)
    \<and> ((\<exists>l'. client_close S pid k l = Ok l') \<longleftrightarrow> registered S pid l k \<noteq> None)
    \<and> (\<forall>l'. client_register S rent pid k p l = Ok l' \<or> client_update S pid k p l = Ok l' \<longrightarrow>
            registered S pid l' = (registered S pid l)(k \<mapsto> p))
    \<and> (\<forall>l'. client_close S pid k l = Ok l' \<longrightarrow> registered S pid l' = (registered S pid l)(k := None))"
proof -
  have good: "good_ledger S rent pid l"
    using registry.reachable_inv [OF assms(1)] assms(2) by (simp add: good_ledger_def)
  show ?thesis
    using reg_store.create_Ok [OF good, of k p] reg_store.overwrite_Ok [OF good, of k p]
      reg_store.remove_Ok [OF good, of k] reg_store.lookup_create [OF good, of k p]
      reg_store.lookup_overwrite [OF good, of k p] reg_store.lookup_remove [OF good, of k] assms(3)
    by (auto simp: may_hold_def simp del: registered_None)
qed

theorem registry_refines_map_witness:
  "\<exists>l. client_register toy_solana (\<lambda>_. 100) [9] (alice, 1) toy_payload toy_ledger = Ok l \<and>
     registered toy_solana [9] l = (registered toy_solana [9] toy_ledger)((alice, 1) \<mapsto> toy_payload)"
proof -
  have "may_sign toy_solana [9] (fst (alice, 1 :: u16))" using toy_may_sign by simp
  note refines = registry_refines_map [OF reachable_start pda_laws_toy this, where bal = "\<lambda>_. 500"
      and rent = "\<lambda>_. 100" and p = toy_payload, folded toy_ledger_def]
  obtain l where "client_register toy_solana (\<lambda>_. 100) [9] (alice, 1) toy_payload toy_ledger = Ok l"
    using toy_register by blast
  with refines show ?thesis by blast
qed

text \<open>C10: closing gives the rent back: after a register and a close of the same key the registrant
  holds what it held before plus whatever the entry's address held, and the key can be registered
  again at once with any valid payload.\<close>

theorem close_refunds_and_frees:
  assumes "reachable (genesis bal) (ledger_step S rent pid) l" "pda_laws S"
    and "client_register S rent pid k p l = Ok l1" "client_close S pid k l1 = Ok l2"
    and "may_register (snd k) q"
  shows "lamports l2 (fst k) = lamports l (fst k) + lamports l (entry_pda S pid k)
    \<and> lamports l2 (entry_pda S pid k) = 0
    \<and> registered S pid l2 = registered S pid l
    \<and> (\<exists>l3. client_register S rent pid k q l2 = Ok l3 \<and> registered S pid l3 k = Some q)"
proof -
  have good: "good_ledger S rent pid l"
    using registry.reachable_inv [OF assms(1)] assms(2) by (simp add: good_ledger_def)
  have good1: "good_ledger S rent pid l1" using reg_store.good_create [OF good assms(3)] .
  have free: "registered S pid l k = None" "may_sign S pid (fst k)"
    using client_register_iff [of S rent pid k p l] assms(3) by (auto simp: may_hold_def)
  then have ne: "fst k \<noteq> entry_pda S pid k"
    using pda_may_not_sign [OF assms(2), of pid "entry_seeds (fst k) (snd k)"] by (auto simp: entry_pda_def)
  obtain b where b: "init_lamports rent (fst k) (entry_pda S pid k) l = Ok b" "lamports l1 = b"
    using assms(3) by (auto simp: client_register_def register_metas_def entry_pda_def elim!: register_OkE)
  have "registered S pid l2 = registered S pid l"
    using client_effects(1) [OF good assms(3)] client_effects(3) [OF good1 assms(4)] free
    by (simp add: fun_upd_idem_iff del: registered_None)
  moreover have "\<exists>l3. client_register S rent pid k q l2 = Ok l3 \<and> registered S pid l3 k = Some q"
    using reg_store.remove_then_create [OF good1 assms(4), of q] assms(5) free by (auto simp: may_hold_def)
  ultimately show ?thesis
    using client_effects(3) [OF good1 assms(4)] init_lamports_Ok(3) [OF b(1) ne] b(2) ne
    by (auto simp: close_lamports_def)
qed

theorem close_refunds_and_frees_witness:
  "\<exists>l1 l2. client_register toy_solana (\<lambda>_. 100) [9] (alice, 1) toy_payload toy_ledger = Ok l1 \<and>
     client_close toy_solana [9] (alice, 1) l1 = Ok l2 \<and> lamports l2 alice = 1000"
proof -
  obtain l1 where l1: "client_register toy_solana (\<lambda>_. 100) [9] (alice, 1) toy_payload toy_ledger = Ok l1"
    using toy_register by blast
  note good1 = reg_store.good_create [OF good_toy_ledger l1]
  obtain l2 where l2: "client_close toy_solana [9] (alice, 1) l1 = Ok l2"
    using reg_store.remove_Ok [OF good1, of "(alice, 1)"] reg_store.create_then_lookup [OF good_toy_ledger l1]
    by auto
  have "may_register (snd (alice, 1)) toy_payload" by (simp add: may_register_def toy_payload_def)
  from close_refunds_and_frees [OF reachable_start pda_laws_toy l1 [unfolded toy_ledger_def] l2 this]
  have "lamports l2 alice = 1000" by (simp add: genesis_def)
  with l1 l2 show ?thesis by blast
qed

end
