(* ===== verification/Registry_Sdk.thy ===== *)
theory Registry_Sdk
  imports Registry_Program
begin

text \<open>
  \<open>crates/slnt-sdk/src/registry.rs\<close>: addresses, instructions and account decoding for the registry
  program, and the RPC lookup. An RPC node is a function from an address to the account's bytes or
  the text of the client's error.
\<close>

definition META_SEED :: bytes where
  "META_SEED = ascii ''meta''"
definition REGISTER_DISCRIMINATOR :: bytes where
  "REGISTER_DISCRIMINATOR = [211, 124, 67, 15, 211, 194, 178, 240]"
definition UPDATE_DISCRIMINATOR :: bytes where
  "UPDATE_DISCRIMINATOR = [219, 200, 88, 176, 158, 63, 253, 127]"
definition CLOSE_DISCRIMINATOR :: bytes where
  "CLOSE_DISCRIMINATOR = [98, 165, 201, 177, 108, 65, 206, 96]"
definition META_ADDRESS_ENTRY_DISCRIMINATOR :: bytes where
  "META_ADDRESS_ENTRY_DISCRIMINATOR = [165, 7, 241, 154, 7, 172, 74, 178]"

record sdk_payload =
  sp_version :: u8
  sp_b_spend :: bytes
  sp_b_scan :: bytes
  sp_flags :: u8

record sdk_entry =
  se_registrant :: pubkey
  se_scheme_id :: u16
  se_bump :: u8
  se_version :: u8
  se_b_spend :: bytes
  se_b_scan :: bytes
  se_flags :: u8

section \<open>borsh layouts\<close>

definition write_payload :: "borsh_lib \<Rightarrow> sdk_payload \<Rightarrow> bytes" where
  "write_payload B p =
     write_u8 B (sp_version p) @ write_array B (sp_b_spend p) @ write_array B (sp_b_scan p)
     @ write_u8 B (sp_flags p)"

definition read_entry :: "borsh_lib \<Rightarrow> bytes \<Rightarrow> (string, sdk_entry \<times> bytes) outcome" where
  "read_entry B bs =
     obind (read_array B 32 bs) (\<lambda>(registrant, bs).
     obind (read_u16 B bs) (\<lambda>(scheme_id, bs).
     obind (read_u8 B bs) (\<lambda>(bump, bs).
     obind (read_u8 B bs) (\<lambda>(version, bs).
     obind (read_array B 32 bs) (\<lambda>(b_spend, bs).
     obind (read_array B 32 bs) (\<lambda>(b_scan, bs).
     obind (read_u8 B bs) (\<lambda>(flags, bs).
       Ok (\<lparr>se_registrant = registrant, se_scheme_id = scheme_id, se_bump = bump,
            se_version = version, se_b_spend = b_spend, se_b_scan = b_scan, se_flags = flags\<rparr>, bs))))))))"

section \<open>Addresses and instructions\<close>

definition registry_pda :: "solana_lib \<Rightarrow> pubkey \<Rightarrow> pubkey \<Rightarrow> u16 \<Rightarrow> pubkey \<times> u8" where
  "registry_pda S pid registrant scheme_id =
     find_program_address S [META_SEED, registrant, u16_to_le_bytes scheme_id] pid"

definition encode_payload_ix :: "borsh_lib \<Rightarrow> bytes \<Rightarrow> u16 \<Rightarrow> sdk_payload option \<Rightarrow> bytes" where
  "encode_payload_ix B disc scheme_id payload =
     disc @ write_u16 B scheme_id
     @ (case payload of Some p \<Rightarrow> write_payload B p | None \<Rightarrow> [])"

definition build_register_instruction ::
  "solana_lib \<Rightarrow> borsh_lib \<Rightarrow> pubkey \<Rightarrow> pubkey \<Rightarrow> u16 \<Rightarrow> sdk_payload \<Rightarrow> instruction" where
  "build_register_instruction S B pid registrant scheme_id payload =
     (let (pda, _) = registry_pda S pid registrant scheme_id in
      \<lparr>program_id = pid,
       accounts = [account_meta_new registrant True, account_meta_new pda False,
                   account_meta_new_readonly (system_program S) False],
       data = encode_payload_ix B REGISTER_DISCRIMINATOR scheme_id (Some payload)\<rparr>)"

definition build_update_instruction ::
  "solana_lib \<Rightarrow> borsh_lib \<Rightarrow> pubkey \<Rightarrow> pubkey \<Rightarrow> u16 \<Rightarrow> sdk_payload \<Rightarrow> instruction" where
  "build_update_instruction S B pid registrant scheme_id payload =
     (let (pda, _) = registry_pda S pid registrant scheme_id in
      \<lparr>program_id = pid,
       accounts = [account_meta_new_readonly registrant True, account_meta_new pda False],
       data = encode_payload_ix B UPDATE_DISCRIMINATOR scheme_id (Some payload)\<rparr>)"

definition build_close_instruction ::
  "solana_lib \<Rightarrow> borsh_lib \<Rightarrow> pubkey \<Rightarrow> pubkey \<Rightarrow> u16 \<Rightarrow> instruction" where
  "build_close_instruction S B pid registrant scheme_id =
     (let (pda, _) = registry_pda S pid registrant scheme_id in
      \<lparr>program_id = pid,
       accounts = [account_meta_new registrant True, account_meta_new pda False],
       data = encode_payload_ix B CLOSE_DISCRIMINATOR scheme_id None\<rparr>)"

definition try_parse_meta_address_entry :: "borsh_lib \<Rightarrow> bytes \<Rightarrow> (string, sdk_entry option) outcome" where
  "try_parse_meta_address_entry B d =
     (if length d < 8 then Ok None
      else obind (slice_to 8 d) (\<lambda>disc.
        if disc \<noteq> META_ADDRESS_ENTRY_DISCRIMINATOR then Ok None
        else obind (slice_from 8 d) (\<lambda>body.
          obind (omap_err (\<lambda>e. ''borsh deserialize MetaAddressEntry: '' @ e)
                   (dec_all (left_over B) (read_entry B) body)) (\<lambda>entry.
            Ok (Some entry)))))"

text \<open>The slices are in bounds.\<close>

lemma try_parse_meta_address_entry_eq:
  "try_parse_meta_address_entry B d =
     (if length d < 8 \<or> take 8 d \<noteq> META_ADDRESS_ENTRY_DISCRIMINATOR then Ok None
      else
        obind (omap_err (\<lambda>e. ''borsh deserialize MetaAddressEntry: '' @ e)
                 (dec_all (left_over B) (read_entry B) (drop 8 d))) (\<lambda>entry.
          Ok (Some entry)))"
  by (cases "length d < 8") (simp_all add: try_parse_meta_address_entry_def del: append_Cons)

definition fetch_meta_address ::
  "solana_lib \<Rightarrow> borsh_lib \<Rightarrow> (pubkey \<Rightarrow> (string, bytes) outcome) \<Rightarrow> pubkey \<Rightarrow> pubkey \<Rightarrow> u16 \<Rightarrow>
     (string, sdk_entry option) outcome" where
  "fetch_meta_address S B get_account pid registrant scheme_id =
     (let (pda, _) = registry_pda S pid registrant scheme_id in
      case get_account pda of
        Err msg \<Rightarrow>
          if str_contains ''AccountNotFound'' msg then Ok None
          else Err (''get_account: '' @ msg)
      | Ok d \<Rightarrow> try_parse_meta_address_entry B d
      | Panic \<Rightarrow> Panic)"

section \<open>The program's side of the layouts\<close>

text \<open>
  The arguments of \<open>register\<close> and \<open>update\<close> as the program reads them, the two instructions from
  the bytes after the discriminator, and the account's bytes that \<open>#[account]\<close> stores.
\<close>

definition read_register_args ::
  "borsh_lib \<Rightarrow> bytes \<Rightarrow> (string, (u16 \<times> meta_payload) \<times> bytes) outcome" where
  "read_register_args B bs =
     obind (read_u16 B bs) (\<lambda>(scheme_id, bs).
     obind (read_u8 B bs) (\<lambda>(version, bs).
     obind (read_array B 32 bs) (\<lambda>(b_spend, bs).
     obind (read_array B 32 bs) (\<lambda>(b_scan, bs).
     obind (read_u8 B bs) (\<lambda>(flags, bs).
       Ok ((scheme_id, \<lparr>mp_version = version, mp_b_spend = b_spend, mp_b_scan = b_scan,
                        mp_flags = flags\<rparr>), bs))))))"

definition run_register ::
  "solana_lib \<Rightarrow> (nat \<Rightarrow> nat) \<Rightarrow> borsh_lib \<Rightarrow> pubkey \<Rightarrow> account_meta list \<Rightarrow> bytes \<Rightarrow> ledger \<Rightarrow>
     (registry_error, ledger) outcome" where
  "run_register S rent B pid metas body l =
     obind (omap_err RegistryAnchor (read_args (read_register_args B) body)) (\<lambda>(s, p).
       register S rent pid metas s p l)"

definition run_update ::
  "solana_lib \<Rightarrow> borsh_lib \<Rightarrow> pubkey \<Rightarrow> account_meta list \<Rightarrow> bytes \<Rightarrow> ledger \<Rightarrow>
     (registry_error, ledger) outcome" where
  "run_update S B pid metas body l =
     obind (omap_err RegistryAnchor (read_args (read_register_args B) body)) (\<lambda>(s, p).
       update S pid metas s p l)"

definition run_close ::
  "solana_lib \<Rightarrow> borsh_lib \<Rightarrow> pubkey \<Rightarrow> account_meta list \<Rightarrow> bytes \<Rightarrow> ledger \<Rightarrow>
     (registry_error, ledger) outcome" where
  "run_close S B pid metas body l =
     obind (omap_err RegistryAnchor (read_args (read_u16 B) body)) (\<lambda>s. close S pid metas s l)"

definition write_entry :: "borsh_lib \<Rightarrow> registry_entry \<Rightarrow> bytes" where
  "write_entry B e =
     write_array B (re_registrant e) @ write_u16 B (re_scheme_id e) @ write_u8 B (re_bump e)
     @ write_u8 B (re_version e) @ write_array B (re_b_spend e) @ write_array B (re_b_scan e)
     @ write_u8 B (re_flags e)"

definition account_data :: "('s, 'p, 'k) crypto \<Rightarrow> borsh_lib \<Rightarrow> registry_entry \<Rightarrow> bytes" where
  "account_data C B e = discriminator C ''account'' ''MetaAddressEntry'' @ write_entry B e"

text \<open>
  The SDK reads the ledger through an RPC node, whose \<open>get_account\<close> is a parameter. A node serves an
  address of the ledger truly if it answers with the bytes of the program's account there; with no
  bytes where there is no entry but lamports were sent to the address, which makes it an account of
  the system program; and with an error that names \<open>AccountNotFound\<close> where there is no account.
\<close>

definition serves ::
  "('s, 'p, 'k) crypto \<Rightarrow> borsh_lib \<Rightarrow> ledger \<Rightarrow> pubkey \<Rightarrow> (pubkey \<Rightarrow> (string, bytes) outcome) \<Rightarrow> bool" where
  "serves C B l k get_account \<longleftrightarrow>
     (case entries l k of
        Some e \<Rightarrow> get_account k = Ok (account_data C B e)
      | None \<Rightarrow>
          if 0 < lamports l k then get_account k = Ok []
          else \<exists>msg. get_account k = Err msg \<and> str_contains ''AccountNotFound'' msg)"

section \<open>The codecs\<close>

definition sdk_view :: "registry_entry \<Rightarrow> sdk_entry" where
  "sdk_view e = \<lparr>se_registrant = re_registrant e, se_scheme_id = re_scheme_id e, se_bump = re_bump e,
     se_version = re_version e, se_b_spend = re_b_spend e, se_b_scan = re_b_scan e, se_flags = re_flags e\<rparr>"

definition entry_of_sdk :: "sdk_entry \<Rightarrow> registry_entry" where
  "entry_of_sdk e = \<lparr>re_registrant = se_registrant e, re_scheme_id = se_scheme_id e, re_bump = se_bump e,
     re_version = se_version e, re_b_spend = se_b_spend e, re_b_scan = se_b_scan e, re_flags = se_flags e\<rparr>"

lemma sdk_view_inverse [simp]: "sdk_view (entry_of_sdk e) = e" "entry_of_sdk (sdk_view x) = x"
  by (simp_all add: sdk_view_def entry_of_sdk_def)

definition entry_arrays :: "sdk_entry \<Rightarrow> bool" where
  "entry_arrays e \<longleftrightarrow>
     is_array 32 (se_registrant e) \<and> is_array 32 (se_b_spend e) \<and> is_array 32 (se_b_scan e)"

definition to_program :: "sdk_payload \<Rightarrow> meta_payload" where
  "to_program p = \<lparr>mp_version = sp_version p, mp_b_spend = sp_b_spend p, mp_b_scan = sp_b_scan p,
     mp_flags = sp_flags p\<rparr>"

definition of_program :: "meta_payload \<Rightarrow> sdk_payload" where
  "of_program p = \<lparr>sp_version = mp_version p, sp_b_spend = mp_b_spend p, sp_b_scan = mp_b_scan p,
     sp_flags = mp_flags p\<rparr>"

lemma to_program_inverse [simp]: "to_program (of_program p) = p" "of_program (to_program q) = q"
  by (simp_all add: to_program_def of_program_def)

definition payload_arrays :: "sdk_payload \<Rightarrow> bool" where
  "payload_arrays p \<longleftrightarrow> is_array 32 (sp_b_spend p) \<and> is_array 32 (sp_b_scan p)"

interpretation entry_codec: sized_codec
  "\<lambda>e. borsh_laws B \<and> borsh_sizes B \<and> entry_arrays e"
  "\<lambda>e. write_entry B (entry_of_sdk e)"
  "read_entry B" 101 for B
  by unfold_locales
    (auto simp: write_entry_def read_entry_def entry_of_sdk_def entry_arrays_def borsh_lawsD borsh_sizes_def)

interpretation args_codec: sized_codec
  "\<lambda>(s, p). borsh_laws B \<and> borsh_sizes B \<and> payload_arrays (of_program p)"
  "\<lambda>(s, p). write_u16 B s @ write_payload B (of_program p)"
  "read_register_args B" 68 for B
  by unfold_locales
    (auto simp: write_payload_def read_register_args_def of_program_def payload_arrays_def borsh_lawsD
      borsh_sizes_def)

lemma read_entry_view:
  "borsh_laws B \<Longrightarrow> entry_arrays (sdk_view e) \<Longrightarrow> read_entry B (write_entry B e @ r) = Ok (sdk_view e, r)"
  by (simp add: write_entry_def read_entry_def sdk_view_def entry_arrays_def borsh_lawsD)

lemma read_args_payload:
  "borsh_laws B \<Longrightarrow> payload_arrays p \<Longrightarrow>
     read_args (read_register_args B) (write_u16 B s @ write_payload B p) = Ok (s, to_program p)"
  using borsh_lawsD(1) [of B "sp_flags p" "[]"]
  by (simp add: read_args_def write_payload_def read_register_args_def payload_arrays_def to_program_def
      borsh_lawsD)

lemma registry_pda_eq: "registry_pda S pid r s = find_program_address S (entry_seeds r s) pid"
  by (simp add: registry_pda_def entry_seeds_def META_SEED_def)

lemma sdk_accounts:
  "accounts (build_register_instruction S B pid r s p) = register_metas S pid (r, s)"
  "accounts (build_update_instruction S B pid r s p) = update_metas S pid (r, s)"
  "accounts (build_close_instruction S B pid r s) = close_metas S pid (r, s)"
  by (simp_all add: build_register_instruction_def build_update_instruction_def
      build_close_instruction_def register_metas_def update_metas_def close_metas_def entry_pda_def
      registry_pda_eq split_def)

section \<open>Properties\<close>

text \<open>What the unit tests of \<open>registry.rs\<close> check of the constants.\<close>

definition registry_discriminators :: "('s, 'p, 'k) crypto \<Rightarrow> bool" where
  "registry_discriminators C \<longleftrightarrow>
     discriminator C ''global'' ''register'' = REGISTER_DISCRIMINATOR \<and>
     discriminator C ''global'' ''update'' = UPDATE_DISCRIMINATOR \<and>
     discriminator C ''global'' ''close'' = CLOSE_DISCRIMINATOR \<and>
     discriminator C ''account'' ''MetaAddressEntry'' = META_ADDRESS_ENTRY_DISCRIMINATOR"

lemmas discriminator_defs =
  REGISTER_DISCRIMINATOR_def UPDATE_DISCRIMINATOR_def CLOSE_DISCRIMINATOR_def
  META_ADDRESS_ENTRY_DISCRIMINATOR_def

definition reg_crypto :: "(u8, toy_point, u8) crypto" where
  "reg_crypto = sha_table
     [(ascii ''global:register'', REGISTER_DISCRIMINATOR),
      (ascii ''global:update'', UPDATE_DISCRIMINATOR),
      (ascii ''global:close'', CLOSE_DISCRIMINATOR),
      (ascii ''account:MetaAddressEntry'', META_ADDRESS_ENTRY_DISCRIMINATOR)]"

lemma registry_discriminators_reg: "registry_discriminators reg_crypto"
  by (simp add: registry_discriminators_def reg_crypto_def sha_table_def discriminator_def ascii_def
      discriminator_defs)

text \<open>C14: the instructions the SDK builds are the registry's. Each is the program's discriminator
  followed by arguments the program reads back unchanged, with the accounts its constraints ask
  for, so running one is the client's own \<open>register\<close>, \<open>update\<close> or \<open>close\<close>.\<close>

theorem sdk_instructions_run:
  assumes "borsh_laws B" "registry_discriminators C" "payload_arrays p"
  shows "(\<exists>body. data (build_register_instruction S B pid r s p) = discriminator C ''global'' ''register'' @ body \<and>
       run_register S rent B pid (accounts (build_register_instruction S B pid r s p)) body l =
         register S rent pid (register_metas S pid (r, s)) s (to_program p) l)
    \<and> (\<exists>body. data (build_update_instruction S B pid r s p) = discriminator C ''global'' ''update'' @ body \<and>
       run_update S B pid (accounts (build_update_instruction S B pid r s p)) body l =
         update S pid (update_metas S pid (r, s)) s (to_program p) l)
    \<and> (\<exists>body. data (build_close_instruction S B pid r s) = discriminator C ''global'' ''close'' @ body \<and>
       run_close S B pid (accounts (build_close_instruction S B pid r s)) body l =
         close S pid (close_metas S pid (r, s)) s l)"
  using assms(2) read_args_payload [OF assms(1,3), of s] borsh_lawsD(2) [OF assms(1), of s "[]"]
  by (simp add: sdk_accounts run_register_def run_update_def run_close_def registry_discriminators_def)
     (simp add: build_register_instruction_def build_update_instruction_def build_close_instruction_def
       encode_payload_ix_def split_def read_args_def)

definition toy_sdk_payload :: sdk_payload where
  "toy_sdk_payload = of_program toy_payload"

lemma toy_sdk_payload: "payload_arrays toy_sdk_payload" "to_program toy_sdk_payload = toy_payload"
  by (simp_all add: toy_sdk_payload_def payload_arrays_def of_program_def toy_payload_def to_program_def)

theorem sdk_instructions_run_witness:
  "\<exists>body l. data (build_register_instruction toy_solana borsh_le [9] alice 1 toy_sdk_payload) =
       REGISTER_DISCRIMINATOR @ body \<and>
     run_register toy_solana (\<lambda>_. 100) borsh_le [9]
       (accounts (build_register_instruction toy_solana borsh_le [9] alice 1 toy_sdk_payload)) body toy_ledger
       = Ok l"
proof -
  obtain l where "client_register toy_solana (\<lambda>_. 100) [9] (alice, 1) toy_payload toy_ledger = Ok l"
    using toy_register by blast
  then have "register toy_solana (\<lambda>_. 100) [9] (register_metas toy_solana [9] (alice, 1)) 1 toy_payload
       toy_ledger = Ok l"
    by (simp add: client_register_def)
  then show ?thesis
    using sdk_instructions_run [OF borsh_laws_le registry_discriminators_reg toy_sdk_payload(1),
        of toy_solana "[9]" alice 1 "\<lambda>_. 100" toy_ledger] registry_discriminators_reg
    unfolding registry_discriminators_def toy_sdk_payload(2) by metis
qed

text \<open>C13: looking a meta-address up through a node that serves the ledger returns what is registered,
  in every reachable ledger: the entry with its registrant, scheme and payload when there is one,
  \<open>None\<close> when there is none, whether the address does not exist or merely holds lamports, and never
  an error, a panic or another key's entry. Any other error of the node is passed on.\<close>

theorem fetch_reads_registry:
  assumes "reachable (genesis bal) (ledger_step S rent pid) l" "pda_laws S" "borsh_laws B"
    and "hash_laws C" "registry_discriminators C" "\<forall>e \<in> ran (entries l). entry_arrays (sdk_view e)"
  shows "(serves C B l (entry_pda S pid (r, s)) get_account \<longrightarrow>
      (case registered S pid l (r, s) of
        None \<Rightarrow> fetch_meta_address S B get_account pid r s = Ok None
      | Some p \<Rightarrow> \<exists>e. fetch_meta_address S B get_account pid r s = Ok (Some e) \<and>
          se_registrant e = r \<and> se_scheme_id e = s \<and> se_version e = mp_version p \<and>
          se_b_spend e = mp_b_spend p \<and> se_b_scan e = mp_b_scan p \<and> se_flags e = mp_flags p))
    \<and> (\<forall>msg. get_account (entry_pda S pid (r, s)) = Err msg \<longrightarrow> \<not> str_contains ''AccountNotFound'' msg \<longrightarrow>
        fetch_meta_address S B get_account pid r s = Err (''get_account: '' @ msg))"
proof -
  have inv: "registry_inv S rent pid l" using registry.reachable_inv [OF assms(1)] assms(2) by blast
  let ?k = "entry_pda S pid (r, s)"
  have fetch: "fetch_meta_address S B get_account pid r s =
      (case get_account ?k of
         Err msg \<Rightarrow> if str_contains ''AccountNotFound'' msg then Ok None else Err (''get_account: '' @ msg)
       | Ok d \<Rightarrow> try_parse_meta_address_entry B d
       | Panic \<Rightarrow> Panic)"
    by (simp add: fetch_meta_address_def registry_pda_eq entry_pda_def split_def)
  have "case registered S pid l (r, s) of
      None \<Rightarrow> fetch_meta_address S B get_account pid r s = Ok None
    | Some p \<Rightarrow> \<exists>e. fetch_meta_address S B get_account pid r s = Ok (Some e) \<and>
        se_registrant e = r \<and> se_scheme_id e = s \<and> se_version e = mp_version p \<and>
        se_b_spend e = mp_b_spend p \<and> se_b_scan e = mp_b_scan p \<and> se_flags e = mp_flags p"
    if node: "serves C B l ?k get_account"
  proof (cases "entries l ?k")
    case None
    moreover have "try_parse_meta_address_entry B [] = Ok None"
      by (simp add: try_parse_meta_address_entry_def)
    ultimately show ?thesis using node
      by (auto simp: fetch serves_def registered_def split: if_splits)
  next
    case (Some e)
    then have "entry_arrays (sdk_view e)" using assms(6) by (auto simp: ran_def)
    then have "read_entry B (write_entry B e) = Ok (sdk_view e, [])"
      using read_entry_view [OF assms(3), of e "[]"] by simp
    then have "try_parse_meta_address_entry B (account_data C B e) = Ok (Some (sdk_view e))"
      using assms(5) by (simp add: account_data_def registry_discriminators_def dec_all_def
          try_parse_meta_address_entry_def discriminator_defs)
    with Some node show ?thesis
      using entry_at(1,2) [OF assms(2) inv Some]
      by (simp add: fetch serves_def registered_def sdk_view_def payload_of_def)
  qed
  then show ?thesis by (simp add: fetch)
qed

text \<open>A node for examples.\<close>

definition toy_node :: "ledger \<Rightarrow> pubkey \<Rightarrow> (string, bytes) outcome" where
  "toy_node l k =
     (case entries l k of
        Some e \<Rightarrow> Ok (account_data reg_crypto borsh_le e)
      | None \<Rightarrow> if 0 < lamports l k then Ok [] else Err ''AccountNotFound: pubkey'')"

lemma toy_node_serves: "serves reg_crypto borsh_le l k (toy_node l)"
proof -
  have "str_contains ''AccountNotFound'' ''AccountNotFound: pubkey''" by code_simp
  then show ?thesis by (simp add: serves_def toy_node_def split: option.split)
qed

theorem fetch_reads_registry_witness:
  "\<exists>l e. client_register toy_solana (\<lambda>_. 100) [9] (alice, 1) toy_payload toy_ledger = Ok l \<and>
     fetch_meta_address toy_solana borsh_le (toy_node l) [9] alice 1 = Ok (Some e) \<and>
     se_b_spend e = replicate 32 3 \<and>
     0 < lamports l (entry_pda toy_solana [9] (alice, 2)) \<and>
     fetch_meta_address toy_solana borsh_le (toy_node l) [9] alice 2 = Ok None"
proof -
  obtain l where l: "client_register toy_solana (\<lambda>_. 100) [9] (alice, 1) toy_payload toy_ledger = Ok l"
    using toy_register by blast
  have hash: "hash_laws reg_crypto" by (simp add: reg_crypto_def sha_table_laws)
  have arrays: "\<forall>e \<in> ran (entries l). entry_arrays (sdk_view e)"
    using l by (auto simp: client_register_def register_metas_def toy_ledger_def genesis_def toy_payload_def
        entry_arrays_def sdk_view_def ran_def elim!: register_OkE split: if_splits)
  note fetch = fetch_reads_registry [OF toy_reachable [OF l] pda_laws_toy borsh_laws_le hash
      registry_discriminators_reg arrays, THEN conjunct1, THEN mp, OF toy_node_serves, of alice]
  have store: "registered toy_solana [9] l = (registered toy_solana [9] toy_ledger)((alice, 1) \<mapsto> toy_payload)"
    using client_effects(1) [OF good_toy_ledger l] .
  have "registered toy_solana [9] toy_ledger (alice, 2) = None" by (simp add: toy_ledger_def genesis_def)
  with store have reg: "registered toy_solana [9] l (alice, 1) = Some toy_payload"
    "registered toy_solana [9] l (alice, 2) = None" by (simp_all del: registered_None)
  have "0 < lamports l (entry_pda toy_solana [9] (alice, 2))"
    using l by (auto simp: client_register_def register_metas_def toy_ledger_def genesis_def entry_pda_def
        init_lamports_def Let_def toy_solana_def elim!: register_OkE split: if_splits)
  with l fetch [of 1] fetch [of 2] reg show ?thesis by (auto simp: toy_payload_def)
qed

text \<open>Sizes agree across the two sides: the account the program allocates is exactly as long as
  the discriminator and entry it stores, and the SDK's instructions are 76, 76 and 10 bytes.\<close>

theorem registry_sizes:
  assumes "borsh_laws B" "borsh_sizes B" "hash_laws C" "entry_arrays (sdk_view e)" "payload_arrays p"
  shows "length (account_data C B e) = 8 + ENTRY_SIZE
    \<and> length (data (build_register_instruction S B pid r s p)) = 76
    \<and> length (data (build_update_instruction S B pid r s p)) = 76
    \<and> length (data (build_close_instruction S B pid r s)) = 10"
proof -
  have "length (write_entry B e) = 101"
    using entry_codec.length_enc [of B "sdk_view e"] assms(1,2,4) by simp
  moreover have "length (write_u16 B s @ write_payload B p) = 68"
    using args_codec.length_enc [of B "(s, to_program p)"] assms(1,2,5) by simp
  ultimately show ?thesis
    using assms(2,3)
    by (simp add: account_data_def discriminator_def hash_lawsD ENTRY_SIZE_def
        build_register_instruction_def build_update_instruction_def build_close_instruction_def
        encode_payload_ix_def discriminator_defs split_def borsh_sizes_def)
qed

theorem registry_sizes_witness:
  "length (data (build_close_instruction toy_solana borsh_le [9] alice 1)) = 10"
proof -
  have "hash_laws reg_crypto" by (simp add: reg_crypto_def sha_table_laws)
  moreover have "entry_arrays (sdk_view \<lparr>re_registrant = alice, re_scheme_id = 1, re_bump = 255,
      re_version = 1, re_b_spend = alice, re_b_scan = alice, re_flags = 0\<rparr>)"
    by (simp add: entry_arrays_def sdk_view_def)
  ultimately show ?thesis
    using registry_sizes [OF borsh_laws_le borsh_sizes_le _ _ toy_sdk_payload(1)] by blast
qed

end
