(* ===== verification/Sdk_Tests.thy ===== *)
theory Sdk_Tests
  imports Service_Tests Stealth_Signing Flows Registry_Sdk
begin

text \<open>
  The unit tests of the SDK (\<open>slnt-sdk/src\<close>), run on the model in the way of \<open>Service_Tests\<close>. What
  \<open>Pubkey::new_unique()\<close> returns is a parameter, so a test passes for all keys; where it needs two
  of them to differ, its lemma says so. \<open>seeded\<close> is \<open>ChaCha20Rng::seed_from_u64\<close>. Left out are the
  tests that compare with recorded outputs of a hash or of \<open>serde_json\<close>, and those that assert that
  two outputs of a hash differ, which no law of the crates promises.
\<close>

section \<open>The announcement client\<close>

definition urls_are_joined_without_double_slashes :: bool where
  "urls_are_joined_without_double_slashes =
     (let c = announce_client_new ''https://svc.example.com/'' in
      announce_url c = ''https://svc.example.com/announce'' \<and>
      status_url c ''batch-7'' = ''https://svc.example.com/announce/status/batch-7'')"

definition base_url_without_trailing_slash_works :: bool where
  "base_url_without_trailing_slash_works =
     (let c = announce_client_new ''http://localhost:8080'' in
      announce_url c = ''http://localhost:8080/announce'')"

lemma client_tests_pass: "urls_are_joined_without_double_slashes" "base_url_without_trailing_slash_works"
  by (simp_all add: urls_are_joined_without_double_slashes_def base_url_without_trailing_slash_works_def
      announce_client_new_def announce_url_def status_url_def trim_trailing_slashes.simps [of "CHR ''h'' # _"])

section \<open>Announcements\<close>

definition sample_payment ::
  "('s, 'p, 'k) crypto \<Rightarrow> (u64 \<Rightarrow> 'r) \<Rightarrow> ('r \<Rightarrow> nat \<Rightarrow> bytes \<times> 'r) \<Rightarrow> (slnt_error, stealth_payment) outcome" where
  "sample_payment C seeded fill =
     obind (derive_stealth_keys C (replicate 64 5)) (\<lambda>(spend, scan).
       let meta = from_keys C spend scan in fst (derive_payment C fill meta (seeded 1)))"

definition from_payment_carries_r_and_view_tag ::
  "('s, 'p, 'k) crypto \<Rightarrow> (u64 \<Rightarrow> 'r) \<Rightarrow> ('r \<Rightarrow> nat \<Rightarrow> bytes \<times> 'r) \<Rightarrow> bool" where
  "from_payment_carries_r_and_view_tag C seeded fill =
     unwrapped (sample_payment C seeded fill) (\<lambda>p.
     unwrapped (from_payment p []) (\<lambda>a.
       an_ephemeral_pub a = ephemeral_pub p \<and> an_view_tag a = view_tag p \<and> an_scheme_id a = SCHEME_ID_V1))"

definition from_payment_rejects_oversized_metadata ::
  "('s, 'p, 'k) crypto \<Rightarrow> (u64 \<Rightarrow> 'r) \<Rightarrow> ('r \<Rightarrow> nat \<Rightarrow> bytes \<times> 'r) \<Rightarrow> bool" where
  "from_payment_rejects_oversized_metadata C seeded fill =
     unwrapped (sample_payment C seeded fill) (\<lambda>p.
       from_payment p (replicate 65 0) = Err (MetadataTooLong 65))"

definition post_instruction_matches_announcement_args ::
  "('s, 'p, 'k) crypto \<Rightarrow> (u64 \<Rightarrow> 'r) \<Rightarrow> ('r \<Rightarrow> nat \<Rightarrow> bytes \<times> 'r) \<Rightarrow> borsh_lib \<Rightarrow> pubkey \<Rightarrow> pubkey \<Rightarrow> bool" where
  "post_instruction_matches_announcement_args C seeded fill B program fee_payer =
     unwrapped (sample_payment C seeded fill) (\<lambda>p.
     unwrapped (from_payment p [1, 2, 3]) (\<lambda>a.
     unwrapped (to_post_instruction B a program fee_payer :: (unit, instruction) outcome) (\<lambda>ix.
       program_id ix = program \<and> take 8 (data ix) = POST_DISCRIMINATOR)))"

definition self_announce_only_after_timeout_without_match :: bool where
  "self_announce_only_after_timeout_without_match =
     (let t = SELF_ANNOUNCE_TIMEOUT in
      \<not> should_self_announce True t t \<and>
      \<not> should_self_announce False (30 * 10 ^ 9) t \<and>
      should_self_announce False t t)"

definition dedup_removes_duplicate_ephemeral_keys ::
  "('s, 'p, 'k) crypto \<Rightarrow> (u64 \<Rightarrow> 'r) \<Rightarrow> ('r \<Rightarrow> nat \<Rightarrow> bytes \<times> 'r) \<Rightarrow> bool" where
  "dedup_removes_duplicate_ephemeral_keys C seeded fill =
     unwrapped (sample_payment C seeded fill) (\<lambda>p.
     unwrapped (from_payment p []) (\<lambda>a.
       let deduped = dedup_by_ephemeral_pub [a, a] in length deduped = 1))"

lemma announce_tests_pass:
  assumes "sample_payment C seeded fill = Ok p"
  shows "from_payment_carries_r_and_view_tag C seeded fill"
    and "from_payment_rejects_oversized_metadata C seeded fill"
    and "borsh_laws B \<Longrightarrow> post_instruction_matches_announcement_args C seeded fill B program fee_payer"
    and "self_announce_only_after_timeout_without_match"
    and "dedup_removes_duplicate_ephemeral_keys C seeded fill"
proof -
  show "from_payment_carries_r_and_view_tag C seeded fill"
    by (simp add: from_payment_carries_r_and_view_tag_def assms from_payment_def)
  show "from_payment_rejects_oversized_metadata C seeded fill"
    by (simp add: from_payment_rejects_oversized_metadata_def assms from_payment_def ANNOUNCE_MAX_METADATA_LEN_def)
  show "self_announce_only_after_timeout_without_match"
    by (simp add: self_announce_only_after_timeout_without_match_def should_self_announce_def
        SELF_ANNOUNCE_TIMEOUT_def)
  show "dedup_removes_duplicate_ephemeral_keys C seeded fill"
    by (simp add: dedup_removes_duplicate_ephemeral_keys_def assms from_payment_def dedup_by_ephemeral_pub_def)
  show "post_instruction_matches_announcement_args C seeded fill B program fee_payer" if "borsh_laws B"
    using borsh_vec [OF that, of "[1, 2, 3]"]
    by (auto simp: post_instruction_matches_announcement_args_def assms from_payment_def
        ANNOUNCE_MAX_METADATA_LEN_def to_post_instruction_def build_post_instruction_def write_post_args_def
        write_note_fields_def POST_DISCRIMINATOR_def)
qed

section \<open>Payments and sweeps\<close>

text \<open>
  The layout of the instructions, as the system program and the token program document it: a
  transfer is tag 2 and the lamports, little-endian; the token program's tags are 12 for
  \<open>TransferChecked\<close> and 9 for \<open>CloseAccount\<close>.
\<close>

definition transfer_layout :: "solana_lib \<Rightarrow> bool" where
  "transfer_layout S \<longleftrightarrow>
     (\<forall>a b n. system_transfer S a b n =
        \<lparr>program_id = system_program S, accounts = [account_meta_new a True, account_meta_new b False],
         data = [2, 0, 0, 0] @ u64_to_le_bytes n\<rparr>)"

definition token_layout :: "solana_lib \<Rightarrow> pubkey \<Rightarrow> bool" where
  "token_layout S ata_program \<longleftrightarrow>
     (\<forall>f w m tp. program_id (create_ata_idempotent S f w m tp) = ata_program) \<and>
     (\<forall>src mint dst auth n dec. \<exists>ix d.
        spl_transfer_checked S (spl_token_id S) src mint dst auth n dec = Ok ix \<and>
        program_id ix = spl_token_id S \<and> data ix = 12 # d) \<and>
     (\<forall>acct dst auth. \<exists>ix d.
        spl_close_account S (spl_token_id S) acct dst auth = Ok ix \<and> data ix = 9 # d \<and>
        dst \<in> am_pubkey ` set (accounts ix))"

text \<open>The helper of both test modules: \<open>None\<close> where its assertion fails.\<close>

definition lamports_of :: "instruction \<Rightarrow> u64 option" where
  "lamports_of ix =
     (if take 4 (data ix) = [2, 0, 0, 0] then Some (of_nat (le_value (take 8 (drop 4 (data ix))))) else None)"

definition sol_payment_adds_rent_buffer :: "solana_lib \<Rightarrow> pubkey \<Rightarrow> pubkey \<Rightarrow> bool" where
  "sol_payment_adds_rent_buffer S sender stealth =
     unwrapped (build_sol_payment S sender stealth 1000000) (\<lambda>ix.
       program_id ix = system_program S \<and>
       am_pubkey (accounts ix ! 0) = sender \<and>
       is_signer (accounts ix ! 0) \<and> is_writable (accounts ix ! 0) \<and>
       am_pubkey (accounts ix ! 1) = stealth \<and>
       is_writable (accounts ix ! 1) \<and>
       lamports_of ix = Some (1000000 + RENT_EXEMPT_MIN))"

definition sol_payment_rejects_lamport_overflow :: "solana_lib \<Rightarrow> pubkey \<Rightarrow> pubkey \<Rightarrow> bool" where
  "sol_payment_rejects_lamport_overflow S sender stealth =
     (case build_sol_payment S sender stealth (- 1) of Err (LamportOverflow _ _) \<Rightarrow> True | _ \<Rightarrow> False)"

definition spl_payment_creates_ata_then_transfers ::
  "solana_lib \<Rightarrow> pubkey \<Rightarrow> pubkey \<Rightarrow> pubkey \<Rightarrow> pubkey \<Rightarrow> pubkey \<Rightarrow> bool" where
  "spl_payment_creates_ata_then_transfers S ata_program sender stealth mint sender_ata =
     (let token_program = spl_token_id S in
      unwrapped (build_spl_payment S sender stealth mint sender_ata token_program 42 6
          :: (unit, instruction list) outcome) (\<lambda>ixs.
        length ixs = 2 \<and> program_id (ixs ! 0) = ata_program \<and>
        program_id (ixs ! 1) = token_program \<and> data (ixs ! 1) ! 0 = 12))"

definition nft_payment_is_amount_one_decimals_zero ::
  "solana_lib \<Rightarrow> pubkey \<Rightarrow> pubkey \<Rightarrow> pubkey \<Rightarrow> pubkey \<Rightarrow> bool" where
  "nft_payment_is_amount_one_decimals_zero S sender stealth mint sender_ata =
     (let token_program = spl_token_id S in
      unwrapped (build_nft_payment S sender stealth mint sender_ata token_program
          :: (unit, instruction list) outcome) (\<lambda>nft.
      unwrapped (build_spl_payment S sender stealth mint sender_ata token_program 1 0
          :: (unit, instruction list) outcome) (\<lambda>spl.
        length nft = length spl \<and> data (nft ! 1) = data (spl ! 1))))"

definition sol_sweep_splits_balance_between_relayer_and_destination ::
  "solana_lib \<Rightarrow> pubkey \<Rightarrow> pubkey \<Rightarrow> pubkey \<Rightarrow> bool" where
  "sol_sweep_splits_balance_between_relayer_and_destination S stealth dest relayer =
     unwrapped (build_sol_sweep S stealth dest relayer 1000000 5000 None) (\<lambda>ixs.
       length ixs = 2 \<and>
       am_pubkey (accounts (ixs ! 0) ! 1) = relayer \<and> lamports_of (ixs ! 0) = Some 5000 \<and>
       am_pubkey (accounts (ixs ! 1) ! 1) = dest \<and> lamports_of (ixs ! 1) = Some (1000000 - 5000))"

definition sol_sweep_rejects_destination_equal_to_main_wallet ::
  "solana_lib \<Rightarrow> pubkey \<Rightarrow> pubkey \<Rightarrow> pubkey \<Rightarrow> bool" where
  "sol_sweep_rejects_destination_equal_to_main_wallet S stealth main relayer =
     (build_sol_sweep S stealth main relayer 1000000 5000 (Some main) = Err CloseToMainWallet)"

definition sol_sweep_rejects_oversized_relayer_take :: "solana_lib \<Rightarrow> pubkey \<Rightarrow> pubkey \<Rightarrow> pubkey \<Rightarrow> bool" where
  "sol_sweep_rejects_oversized_relayer_take S stealth dest relayer =
     (case build_sol_sweep S stealth dest relayer 1000 1000 None of
        Err (RelayerTakeTooLarge _ _) \<Rightarrow> True | _ \<Rightarrow> False)"

definition stealth_to_stealth_destination_is_allowed ::
  "solana_lib \<Rightarrow> pubkey \<Rightarrow> pubkey \<Rightarrow> pubkey \<Rightarrow> pubkey \<Rightarrow> bool" where
  "stealth_to_stealth_destination_is_allowed S stealth next_stealth relayer main =
     unwrapped (build_sol_sweep S stealth next_stealth relayer 1000000 5000 (Some main)) (\<lambda>ixs.
       length ixs = 2)"

definition spl_sweep_transfers_pays_relayer_and_closes ::
  "solana_lib \<Rightarrow> pubkey \<Rightarrow> pubkey \<Rightarrow> pubkey \<Rightarrow> pubkey \<Rightarrow> pubkey \<Rightarrow> pubkey \<Rightarrow> bool" where
  "spl_sweep_transfers_pays_relayer_and_closes S auth stealth_ata dest_ata relayer_ata mint close_dest =
     (let tp = spl_token_id S in
      unwrapped (build_spl_sweep S auth stealth_ata dest_ata relayer_ata mint tp 100 3 0 close_dest None) (\<lambda>ixs.
        length ixs = 3 \<and> data (ixs ! 0) ! 0 = 12 \<and> data (ixs ! 1) ! 0 = 12 \<and> data (ixs ! 2) ! 0 = 9 \<and>
        list_ex (\<lambda>a. am_pubkey a = close_dest) (accounts (ixs ! 2))))"

definition spl_sweep_rejects_close_to_main_wallet ::
  "solana_lib \<Rightarrow> pubkey \<Rightarrow> pubkey \<Rightarrow> pubkey \<Rightarrow> pubkey \<Rightarrow> pubkey \<Rightarrow> pubkey \<Rightarrow> bool" where
  "spl_sweep_rejects_close_to_main_wallet S auth stealth_ata dest_ata relayer_ata mint main =
     (let tp = spl_token_id S in
      build_spl_sweep S auth stealth_ata dest_ata relayer_ata mint tp 100 3 0 main (Some main) =
        Err CloseToMainWallet)"

lemma length_le_digits: "length (le_digits n m) = n"
  by (induction n arbitrary: m) auto

lemma lamports_of_transfer:
  "transfer_layout S \<Longrightarrow> lamports_of (system_transfer S a b n) = Some n"
  using le_value_u64 [of n] length_le_digits [of 8 "unat n"]
  by (simp add: transfer_layout_def lamports_of_def u64_to_le_bytes_def)

lemma sol_flow_tests_pass:
  assumes "transfer_layout S"
  shows "sol_payment_adds_rent_buffer S sender stealth" "sol_payment_rejects_lamport_overflow S sender stealth"
    "sol_sweep_splits_balance_between_relayer_and_destination S stealth dest relayer"
    "sol_sweep_rejects_destination_equal_to_main_wallet S stealth main relayer"
    "sol_sweep_rejects_oversized_relayer_take S stealth dest relayer"
    "next_stealth \<noteq> main \<Longrightarrow> stealth_to_stealth_destination_is_allowed S stealth next_stealth relayer main"
proof -
  note lamports = lamports_of_transfer [OF assms] and layout = assms [unfolded transfer_layout_def]
  show "sol_payment_adds_rent_buffer S sender stealth"
    using lamports by (simp add: sol_payment_adds_rent_buffer_def build_sol_payment_def checked_add_u64_def
        RENT_EXEMPT_MIN_def) (simp add: layout)
  show "sol_payment_rejects_lamport_overflow S sender stealth"
    by (simp add: sol_payment_rejects_lamport_overflow_def build_sol_payment_def checked_add_u64_def
        RENT_EXEMPT_MIN_def unsigned_minus_1_eq_mask mask_eq_exp_minus_1)
  show "sol_sweep_splits_balance_between_relayer_and_destination S stealth dest relayer"
    using lamports by (simp add: sol_sweep_splits_balance_between_relayer_and_destination_def build_sol_sweep_def
        ensure_not_main_wallet_def sub_u64_def) (simp add: layout)
  show "sol_sweep_rejects_destination_equal_to_main_wallet S stealth main relayer"
    by (simp add: sol_sweep_rejects_destination_equal_to_main_wallet_def build_sol_sweep_def ensure_not_main_wallet_def)
  show "sol_sweep_rejects_oversized_relayer_take S stealth dest relayer"
    by (simp add: sol_sweep_rejects_oversized_relayer_take_def build_sol_sweep_def ensure_not_main_wallet_def)
  show "stealth_to_stealth_destination_is_allowed S stealth next_stealth relayer main" if "next_stealth \<noteq> main"
    using that by (simp add: stealth_to_stealth_destination_is_allowed_def build_sol_sweep_def
        ensure_not_main_wallet_def sub_u64_def)
qed

lemma token_flow_tests_pass:
  assumes "token_layout S ata_program"
  shows "spl_payment_creates_ata_then_transfers S ata_program sender stealth mint sender_ata"
    "nft_payment_is_amount_one_decimals_zero S sender stealth mint sender_ata"
    "spl_sweep_transfers_pays_relayer_and_closes S auth stealth_ata dest_ata relayer_ata mint close_dest"
    "spl_sweep_rejects_close_to_main_wallet S auth stealth_ata dest_ata relayer_ata mint main"
proof -
  have ata: "program_id (create_ata_idempotent S f w m tp) = ata_program" for f w m tp
    using assms by (simp add: token_layout_def)
  have transfer: "\<exists>ix d. spl_transfer_checked S (spl_token_id S) src mint dst auth n dec = Ok ix \<and>
      program_id ix = spl_token_id S \<and> data ix = 12 # d" for src mint dst auth n dec
    using assms by (simp add: token_layout_def)
  obtain c d where closed: "spl_close_account S (spl_token_id S) stealth_ata close_dest auth = Ok c"
    "data c = 9 # d" "close_dest \<in> am_pubkey ` set (accounts c)"
    using assms unfolding token_layout_def by blast
  show "spl_payment_creates_ata_then_transfers S ata_program sender stealth mint sender_ata"
    using transfer [of sender_ata mint "associated_token_address S stealth mint (spl_token_id S)" sender 42 6]
    by (auto simp: spl_payment_creates_ata_then_transfers_def build_spl_payment_def ata)
  show "nft_payment_is_amount_one_decimals_zero S sender stealth mint sender_ata"
    using transfer [of sender_ata mint "associated_token_address S stealth mint (spl_token_id S)" sender 1 0]
    by (auto simp: nft_payment_is_amount_one_decimals_zero_def build_nft_payment_def build_spl_payment_def)
  show "spl_sweep_transfers_pays_relayer_and_closes S auth stealth_ata dest_ata relayer_ata mint close_dest"
    using transfer [of stealth_ata mint dest_ata auth 97 0] transfer [of stealth_ata mint relayer_ata auth 3 0] closed
    by (auto simp: spl_sweep_transfers_pays_relayer_and_closes_def build_spl_sweep_def ensure_not_main_wallet_def
        sub_u64_def list_ex_iff)
  show "spl_sweep_rejects_close_to_main_wallet S auth stealth_ata dest_ata relayer_ata mint main"
    by (simp add: spl_sweep_rejects_close_to_main_wallet_def build_spl_sweep_def ensure_not_main_wallet_def)
qed

text \<open>Both layouts can be had.\<close>

lemma layouts_hold:
  "transfer_layout (toy_solana\<lparr>system_transfer := \<lambda>a b n. \<lparr>program_id = replicate 32 0,
     accounts = [account_meta_new a True, account_meta_new b False], data = [2, 0, 0, 0] @ u64_to_le_bytes n\<rparr>\<rparr>)"
  "token_layout toy_solana [97]"
  by (simp_all add: transfer_layout_def token_layout_def toy_solana_def toy_instruction_def)

section \<open>The pinboard client and the log lines\<close>

definition post_discriminator_matches_anchor_convention :: "('s, 'p, 'k) crypto \<Rightarrow> bool" where
  "post_discriminator_matches_anchor_convention C =
     (take 8 (sha256 C (ascii ''global:post'')) = POST_DISCRIMINATOR)"

definition note_event_discriminator_matches_anchor_convention :: "('s, 'p, 'k) crypto \<Rightarrow> bool" where
  "note_event_discriminator_matches_anchor_convention C =
     (take 8 (sha256 C (ascii ''event:Note'')) = NOTE_EVENT_DISCRIMINATOR)"

definition post_batch_discriminator_matches_anchor_convention :: "('s, 'p, 'k) crypto \<Rightarrow> bool" where
  "post_batch_discriminator_matches_anchor_convention C =
     (take 8 (sha256 C (ascii ''global:post_batch'')) = POST_BATCH_DISCRIMINATOR)"

text \<open>The derived \<open>BorshDeserialize\<close> of \<open>NoteEntry\<close>, which only the test below calls.\<close>

definition read_note_entry :: "borsh_lib \<Rightarrow> bytes \<Rightarrow> (string, note_entry \<times> bytes) outcome" where
  "read_note_entry B bs =
     obind (read_note_fields B bs) (\<lambda>((s, e, v, m), bs).
       Ok (\<lparr>ne_scheme_id = s, ne_ephemeral_pub = e, ne_view_tag = v, ne_metadata = m\<rparr>, bs))"

definition read_note_entries :: "borsh_lib \<Rightarrow> bytes \<Rightarrow> (string, note_entry list \<times> bytes) outcome" where
  "read_note_entries B bs = obind (read_len B bs) (\<lambda>(n, bs). dec_n (read_note_entry B) n bs)"

definition build_post_batch_roundtrips_entries :: "borsh_lib \<Rightarrow> pubkey \<Rightarrow> pubkey \<Rightarrow> bool" where
  "build_post_batch_roundtrips_entries B program fee_payer =
     (let entries =
        [\<lparr>ne_scheme_id = 1, ne_ephemeral_pub = replicate 32 1, ne_view_tag = 0x11, ne_metadata = []\<rparr>,
         \<lparr>ne_scheme_id = 1, ne_ephemeral_pub = replicate 32 2, ne_view_tag = 0x22, ne_metadata = [9, 9]\<rparr>] in
      unwrapped (build_post_batch_instruction B program fee_payer entries :: (unit, instruction) outcome) (\<lambda>ix.
        program_id ix = program \<and> length (accounts ix) = 1 \<and> is_signer (accounts ix ! 0) \<and>
        take 8 (data ix) = POST_BATCH_DISCRIMINATOR \<and>
        unwrapped (dec_all (left_over B) (read_note_entries B) (drop 8 (data ix))) (\<lambda>decoded.
          decoded = entries)))"

definition note_event_roundtrip_through_log :: "text_lib \<Rightarrow> borsh_lib \<Rightarrow> bool" where
  "note_event_roundtrip_through_log T B =
     (let original = \<lparr>ev_scheme_id = 1, ev_ephemeral_pub = replicate 32 7, ev_view_tag = 0x42,
                      ev_metadata = [0xab, 0xcd]\<rparr> in
      case write_note_event B original of
        None \<Rightarrow> False
      | Some body \<Rightarrow>
          (let payload = NOTE_EVENT_DISCRIMINATOR @ body;
               line = ''Program data: '' @ b64_encode T payload in
           unwrapped (try_parse_note_log T B line) (\<lambda>parsed. parsed = Some original)))"

definition non_program_data_line_is_none :: "text_lib \<Rightarrow> borsh_lib \<Rightarrow> bool" where
  "non_program_data_line_is_none T B =
     unwrapped (try_parse_note_log T B ''Program log: hello'') (\<lambda>result. result = None)"

definition other_event_discriminator_is_none :: "text_lib \<Rightarrow> borsh_lib \<Rightarrow> bool" where
  "other_event_discriminator_is_none T B =
     (let payload = replicate 8 0 @ [1, 2, 3, 4];
          line = ''Program data: '' @ b64_encode T payload in
      unwrapped (try_parse_note_log T B line) (\<lambda>result. result = None))"

text \<open>\<open>scan_stream.rs\<close> has a helper of its own for the line of a note.\<close>

definition sdk_note_log_line :: "text_lib \<Rightarrow> borsh_lib \<Rightarrow> note_event \<Rightarrow> string option" where
  "sdk_note_log_line T B note_ev =
     map_option (\<lambda>body. ''Program data: '' @ b64_encode T (NOTE_EVENT_DISCRIMINATOR @ body))
       (write_note_event B note_ev)"

definition extracts_only_note_events_from_mixed_lines :: "text_lib \<Rightarrow> borsh_lib \<Rightarrow> bool" where
  "extracts_only_note_events_from_mixed_lines T B =
     (let note_ev = \<lparr>ev_scheme_id = 1, ev_ephemeral_pub = replicate 32 3, ev_view_tag = 0x55,
                     ev_metadata = [1, 2]\<rparr> in
      case sdk_note_log_line T B note_ev of
        None \<Rightarrow> False
      | Some line \<Rightarrow>
          (let lines = [''Program log: instruction post'', line,
                        ''Program consumed 1234 of 200000 compute units''];
               notes = notes_from_log_lines T B lines
           in length notes = 1 \<and> notes ! 0 = note_ev))"

definition no_notes_when_no_program_data :: "text_lib \<Rightarrow> borsh_lib \<Rightarrow> bool" where
  "no_notes_when_no_program_data T B =
     (let lines = [''Program log: hello''] in notes_from_log_lines T B lines = [])"

lemma pinboard_discriminator_tests:
  "pinboard_discriminators C \<longleftrightarrow> post_discriminator_matches_anchor_convention C \<and>
     post_batch_discriminator_matches_anchor_convention C \<and>
     note_event_discriminator_matches_anchor_convention C"
  by (simp add: pinboard_discriminators_def discriminator_def post_discriminator_matches_anchor_convention_def
      post_batch_discriminator_matches_anchor_convention_def note_event_discriminator_matches_anchor_convention_def)

interpretation entry_sdk_codec: codec
  "\<lambda>e. borsh_laws B \<and> entry_ok e" "\<lambda>e. written (write_note_entry B e)" "read_note_entry B" for B
proof
  fix e :: note_entry and rest
  assume "borsh_laws B \<and> entry_ok e"
  then show "read_note_entry B (written (write_note_entry B e) @ rest) = Ok (e, rest)"
    using note_fields_roundtrip [of B "ne_ephemeral_pub e" "ne_metadata e" "ne_scheme_id e" "ne_view_tag e"]
    by (auto simp: write_note_entry_def read_note_entry_def entry_ok_def)
qed

text \<open>What the SDK writes as a \<open>Vec\<close> of entries it reads back.\<close>

lemma sdk_entries_roundtrip:
  assumes "borsh_laws B" "length es < 2 ^ 32" "\<forall>e \<in> set es. entry_ok e"
  shows "\<exists>w. write_note_entries B es = Some w \<and> dec_all e (read_note_entries B) w = Ok es"
proof -
  obtain n where n: "write_len B (length es) = Some n" "\<And>r. read_len B (n @ r) = Ok (length es, r)"
    using borsh_len [OF assms(1,2)] by blast
  let ?body = "concat (map (\<lambda>e. written (write_note_entry B e)) es)"
  have "write_each (write_note_entry B) es = Some ?body"
    using assms(1,3) write_note_entry_total by (intro write_each_eq) blast
  moreover have "dec_n (read_note_entry B) (length es) (?body @ []) = Ok (es, [])"
    using entry_sdk_codec.dec_n_enc [of es B "[]"] assms(1,3) by blast
  ultimately show ?thesis
    using n by (simp add: write_note_entries_def read_note_entries_def dec_all_def)
qed

text \<open>The line of any event parses, and lines without the prefix are skipped.\<close>

lemma event_line:
  assumes "text_laws T" "borsh_laws B" "event_ok e"
  shows "\<exists>w. write_note_event B e = Some w \<and>
    try_parse_note_log T B (''Program data: '' @ b64_encode T (NOTE_EVENT_DISCRIMINATOR @ w)) = Ok (Some e)"
proof -
  obtain w where w: "write_note_event B e = Some w"
    using note_fields_roundtrip [of B "ev_ephemeral_pub e" "ev_metadata e" "ev_scheme_id e" "ev_view_tag e"]
      assms(2,3) by (auto simp: write_note_event_def event_ok_def)
  have "trim (b64_encode T d) = b64_encode T d" for d
    using text_lawsD(4) [OF assms(1)] by (simp add: printable_trimmed)
  moreover have "strip_prefix PREFIX (''Program data: '' @ r) = Some r" for r
    by (simp only: PREFIX_def strip_prefix_append)
  moreover have "dec_all (left_over B) (read_note_event B) w = Ok e"
    using event_codec.dec_all_enc [of B e "left_over B"] assms(2,3) w by simp
  ultimately show ?thesis
    using w by (simp add: try_parse_note_log_eq text_lawsD(3) [OF assms(1)] NOTE_EVENT_DISCRIMINATOR_def)
qed

lemma other_lines:
  "try_parse_note_log T B ''Program log: hello'' = Ok None"
  "try_parse_note_log T B ''Program log: instruction post'' = Ok None"
  "try_parse_note_log T B ''Program consumed 1234 of 200000 compute units'' = Ok None"
  by (simp_all add: try_parse_note_log_eq PREFIX_def)

lemma no_zero_discriminator:
  "replicate 8 0 \<noteq> NOTE_EVENT_DISCRIMINATOR" "replicate 8 0 \<noteq> META_ADDRESS_ENTRY_DISCRIMINATOR"
proof -
  have "0 \<in> set (replicate 8 (0 :: u8))" by simp
  moreover have "0 \<notin> set NOTE_EVENT_DISCRIMINATOR" "0 \<notin> set META_ADDRESS_ENTRY_DISCRIMINATOR"
    by (simp_all add: NOTE_EVENT_DISCRIMINATOR_def META_ADDRESS_ENTRY_DISCRIMINATOR_def)
  ultimately show "replicate 8 0 \<noteq> NOTE_EVENT_DISCRIMINATOR" "replicate 8 0 \<noteq> META_ADDRESS_ENTRY_DISCRIMINATOR"
    by metis+
qed

lemma pinboard_tests_pass:
  assumes "text_laws T" "borsh_laws B"
  shows "build_post_batch_roundtrips_entries B program fee_payer"
    and "note_event_roundtrip_through_log T B" "non_program_data_line_is_none T B"
    and "other_event_discriminator_is_none T B"
proof -
  let ?es = "[\<lparr>ne_scheme_id = 1, ne_ephemeral_pub = replicate 32 1, ne_view_tag = 0x11, ne_metadata = []\<rparr>,
    \<lparr>ne_scheme_id = 1, ne_ephemeral_pub = replicate 32 2, ne_view_tag = 0x22, ne_metadata = [9, 9]\<rparr>]"
  have "\<forall>e \<in> set ?es. entry_ok e" by (simp add: entry_ok_def note_fields_ok_def)
  then obtain w where "write_note_entries B ?es = Some w" "dec_all (left_over B) (read_note_entries B) w = Ok ?es"
    using sdk_entries_roundtrip [OF assms(2), of ?es] by force
  then show "build_post_batch_roundtrips_entries B program fee_payer"
    by (simp add: build_post_batch_roundtrips_entries_def build_post_batch_instruction_def POST_BATCH_DISCRIMINATOR_def)
  let ?e = "\<lparr>ev_scheme_id = 1, ev_ephemeral_pub = replicate 32 7, ev_view_tag = 0x42, ev_metadata = [0xab, 0xcd]\<rparr>"
  have "event_ok ?e" by (simp add: event_ok_def note_fields_ok_def)
  then obtain v where v: "write_note_event B ?e = Some v"
    "try_parse_note_log T B (''Program data: '' @ b64_encode T (NOTE_EVENT_DISCRIMINATOR @ v)) = Ok (Some ?e)"
    using event_line [OF assms] by blast
  show "note_event_roundtrip_through_log T B"
    unfolding note_event_roundtrip_through_log_def Let_def v option.case by simp
  show "non_program_data_line_is_none T B" by (simp add: non_program_data_line_is_none_def other_lines)
  have "trim (b64_encode T d) = b64_encode T d" for d
    using text_lawsD(4) [OF assms(1)] by (simp add: printable_trimmed)
  moreover have "strip_prefix PREFIX (''Program data: '' @ r) = Some r" for r
    by (simp only: PREFIX_def strip_prefix_append)
  ultimately show "other_event_discriminator_is_none T B"
    by (simp add: other_event_discriminator_is_none_def try_parse_note_log_eq text_lawsD(3) [OF assms(1)]
        no_zero_discriminator)
qed

lemma scan_stream_tests_pass:
  assumes "text_laws T" "borsh_laws B"
  shows "extracts_only_note_events_from_mixed_lines T B" "no_notes_when_no_program_data T B"
proof -
  let ?e = "\<lparr>ev_scheme_id = 1, ev_ephemeral_pub = replicate 32 3, ev_view_tag = 0x55, ev_metadata = [1, 2]\<rparr>"
  have "event_ok ?e" by (simp add: event_ok_def note_fields_ok_def)
  then obtain w where w: "write_note_event B ?e = Some w"
    "try_parse_note_log T B (''Program data: '' @ b64_encode T (NOTE_EVENT_DISCRIMINATOR @ w)) = Ok (Some ?e)"
    using event_line [OF assms] by blast
  then have line: "sdk_note_log_line T B ?e = Some (''Program data: '' @ b64_encode T (NOTE_EVENT_DISCRIMINATOR @ w))"
    by (simp add: sdk_note_log_line_def)
  show "extracts_only_note_events_from_mixed_lines T B"
    unfolding extracts_only_note_events_from_mixed_lines_def Let_def line option.case notes_from_Cons other_lines w(2)
    by simp
  show "no_notes_when_no_program_data T B"
    unfolding no_notes_when_no_program_data_def Let_def notes_from_Cons other_lines by simp
qed

section \<open>The registry client\<close>

definition account_discriminator_matches_anchor_convention :: "('s, 'p, 'k) crypto \<Rightarrow> bool" where
  "account_discriminator_matches_anchor_convention C =
     (take 8 (sha256 C (ascii ''account:MetaAddressEntry'')) = META_ADDRESS_ENTRY_DISCRIMINATOR)"

definition instruction_discriminators_match_anchor_convention :: "('s, 'p, 'k) crypto \<Rightarrow> bool" where
  "instruction_discriminators_match_anchor_convention C =
     list_all (\<lambda>(name, disc). take 8 (sha256 C (ascii name)) = disc)
       [(''global:register'', REGISTER_DISCRIMINATOR),
        (''global:update'', UPDATE_DISCRIMINATOR),
        (''global:close'', CLOSE_DISCRIMINATOR)]"

definition build_register_has_correct_accounts_and_data ::
  "solana_lib \<Rightarrow> borsh_lib \<Rightarrow> pubkey \<Rightarrow> pubkey \<Rightarrow> bool" where
  "build_register_has_correct_accounts_and_data S B program registrant =
     (let (pda, _) = registry_pda S program registrant 1;
          payload = \<lparr>sp_version = 1, sp_b_spend = replicate 32 0xaa, sp_b_scan = replicate 32 0xbb, sp_flags = 0\<rparr>;
          ix = build_register_instruction S B program registrant 1 payload in
      program_id ix = program \<and> length (accounts ix) = 3 \<and>
      am_pubkey (accounts ix ! 0) = registrant \<and>
      is_signer (accounts ix ! 0) \<and> is_writable (accounts ix ! 0) \<and>
      am_pubkey (accounts ix ! 1) = pda \<and>
      is_writable (accounts ix ! 1) \<and> \<not> is_signer (accounts ix ! 1) \<and>
      am_pubkey (accounts ix ! 2) = system_program S \<and>
      take 8 (data ix) = REGISTER_DISCRIMINATOR \<and>
      (let expected_body = write_u16 B 1 @ write_payload B payload in drop 8 (data ix) = expected_body))"

definition build_update_omits_system_program_and_registrant_is_readonly ::
  "solana_lib \<Rightarrow> borsh_lib \<Rightarrow> pubkey \<Rightarrow> pubkey \<Rightarrow> bool" where
  "build_update_omits_system_program_and_registrant_is_readonly S B program registrant =
     (let (pda, _) = registry_pda S program registrant 1;
          payload = \<lparr>sp_version = 1, sp_b_spend = replicate 32 1, sp_b_scan = replicate 32 2, sp_flags = 0\<rparr>;
          ix = build_update_instruction S B program registrant 1 payload in
      length (accounts ix) = 2 \<and> is_signer (accounts ix ! 0) \<and> \<not> is_writable (accounts ix ! 0) \<and>
      am_pubkey (accounts ix ! 1) = pda \<and> is_writable (accounts ix ! 1) \<and>
      take 8 (data ix) = UPDATE_DISCRIMINATOR)"

definition build_close_has_writable_registrant_and_scheme_id_arg ::
  "solana_lib \<Rightarrow> borsh_lib \<Rightarrow> pubkey \<Rightarrow> pubkey \<Rightarrow> bool" where
  "build_close_has_writable_registrant_and_scheme_id_arg S B program registrant =
     (let ix = build_close_instruction S B program registrant 7 in
      length (accounts ix) = 2 \<and> is_signer (accounts ix ! 0) \<and> is_writable (accounts ix ! 0) \<and>
      take 8 (data ix) = CLOSE_DISCRIMINATOR \<and>
      (let body = write_u16 B 7 in drop 8 (data ix) = body))"

definition pda_is_deterministic_for_same_inputs :: "solana_lib \<Rightarrow> pubkey \<Rightarrow> pubkey \<Rightarrow> bool" where
  "pda_is_deterministic_for_same_inputs S pid registrant =
     (let (pda1, bump1) = registry_pda S pid registrant 1; (pda2, bump2) = registry_pda S pid registrant 1
      in pda1 = pda2 \<and> bump1 = bump2)"

definition pda_differs_by_scheme_id :: "solana_lib \<Rightarrow> pubkey \<Rightarrow> pubkey \<Rightarrow> bool" where
  "pda_differs_by_scheme_id S pid registrant =
     (let (pda_scheme1, _) = registry_pda S pid registrant 1; (pda_scheme2, _) = registry_pda S pid registrant 2
      in pda_scheme1 \<noteq> pda_scheme2)"

definition pda_differs_by_registrant :: "solana_lib \<Rightarrow> pubkey \<Rightarrow> pubkey \<Rightarrow> pubkey \<Rightarrow> bool" where
  "pda_differs_by_registrant S pid registrant1 registrant2 =
     (let (pda1, _) = registry_pda S pid registrant1 1; (pda2, _) = registry_pda S pid registrant2 1
      in pda1 \<noteq> pda2)"

definition parse_roundtrip :: "borsh_lib \<Rightarrow> pubkey \<Rightarrow> bool" where
  "parse_roundtrip B registrant =
     (let original = \<lparr>se_registrant = registrant, se_scheme_id = 1, se_bump = 254, se_version = 1,
                      se_b_spend = replicate 32 0xaa, se_b_scan = replicate 32 0xbb, se_flags = 0\<rparr>;
          bs = META_ADDRESS_ENTRY_DISCRIMINATOR @ write_entry B (entry_of_sdk original) in
      unwrapped (try_parse_meta_address_entry B bs) (\<lambda>parsed. parsed = Some original))"

definition parse_short_data_is_none :: "borsh_lib \<Rightarrow> bool" where
  "parse_short_data_is_none B =
     unwrapped (try_parse_meta_address_entry B [1, 2, 3]) (\<lambda>parsed. parsed = None)"

definition parse_wrong_discriminator_is_none :: "borsh_lib \<Rightarrow> bool" where
  "parse_wrong_discriminator_is_none B =
     (let bs = replicate (8 + 101) 0 in
      unwrapped (try_parse_meta_address_entry B bs) (\<lambda>parsed. parsed = None))"

lemma registry_discriminator_tests:
  "registry_discriminators C \<longleftrightarrow> account_discriminator_matches_anchor_convention C \<and>
     instruction_discriminators_match_anchor_convention C"
  by (auto simp: registry_discriminators_def discriminator_def account_discriminator_matches_anchor_convention_def
      instruction_discriminators_match_anchor_convention_def)

lemma registry_instruction_tests_pass:
  "build_register_has_correct_accounts_and_data S B program registrant"
  "build_update_omits_system_program_and_registrant_is_readonly S B program registrant"
  "build_close_has_writable_registrant_and_scheme_id_arg S B program registrant"
  by (simp_all add: build_register_has_correct_accounts_and_data_def build_register_instruction_def
      build_update_omits_system_program_and_registrant_is_readonly_def build_update_instruction_def
      build_close_has_writable_registrant_and_scheme_id_arg_def build_close_instruction_def
      encode_payload_ix_def discriminator_defs split_def Let_def)

text \<open>Two registry addresses of one program are equal only for the same registrant and scheme.\<close>

lemma registry_pda_inj:
  assumes "pda_laws S" "is_array 32 r" "is_array 32 r'"
    and "fst (registry_pda S pid r s) = fst (registry_pda S pid r' s')"
  shows "r = r' \<and> s = s'"
proof -
  obtain k b k' b' where pda: "registry_pda S pid r s = (k, b)" "registry_pda S pid r' s' = (k', b')"
    by (metis surj_pair)
  with assms(4) have "k' = k" by simp
  with pda have "create_program_address S ([META_SEED, r, u16_to_le_bytes s] @ [[b]]) pid = Some k"
    "create_program_address S ([META_SEED, r', u16_to_le_bytes s'] @ [[b']]) pid = Some k"
    using pda_canonical [OF assms(1)] unfolding registry_pda_def by blast+
  from pda_collision_free [OF assms(1) this]
  have "r @ u16_to_le_bytes s @ [b] = r' @ u16_to_le_bytes s' @ [b']" by simp
  then have "r = r'" "u16_to_le_bytes s @ [b] = u16_to_le_bytes s' @ [b']" using assms(2,3) by simp_all
  then show ?thesis using u16_to_le_bytes_inj by simp
qed

lemma pda_tests_pass:
  assumes "pda_laws S" "is_array 32 registrant" "is_array 32 registrant2"
  shows "pda_is_deterministic_for_same_inputs S pid registrant" "pda_differs_by_scheme_id S pid registrant"
    "registrant \<noteq> registrant2 \<Longrightarrow> pda_differs_by_registrant S pid registrant registrant2"
proof -
  show "pda_is_deterministic_for_same_inputs S pid registrant"
    by (simp add: pda_is_deterministic_for_same_inputs_def split_def)
  show "pda_differs_by_scheme_id S pid registrant"
    using registry_pda_inj [OF assms(1,2,2), of pid 1 2] by (auto simp: pda_differs_by_scheme_id_def split_def)
  show "pda_differs_by_registrant S pid registrant registrant2" if "registrant \<noteq> registrant2"
    using registry_pda_inj [OF assms, of pid 1 1] that by (auto simp: pda_differs_by_registrant_def split_def)
qed

lemma parse_tests_pass:
  assumes "borsh_laws B" "borsh_sizes B" "is_array 32 registrant"
  shows "parse_roundtrip B registrant" "parse_short_data_is_none B" "parse_wrong_discriminator_is_none B"
proof -
  let ?e = "\<lparr>se_registrant = registrant, se_scheme_id = 1, se_bump = 254, se_version = 1,
    se_b_spend = replicate 32 0xaa, se_b_scan = replicate 32 0xbb, se_flags = 0\<rparr>"
  have "entry_arrays ?e" using assms(3) by (simp add: entry_arrays_def)
  then have "dec_all (left_over B) (read_entry B) (write_entry B (entry_of_sdk ?e)) = Ok ?e"
    using entry_codec.dec_all_enc [of B ?e "left_over B"] assms(1,2) by blast
  then show "parse_roundtrip B registrant"
    by (simp add: parse_roundtrip_def try_parse_meta_address_entry_eq META_ADDRESS_ENTRY_DISCRIMINATOR_def)
  show "parse_short_data_is_none B"
    by (simp add: parse_short_data_is_none_def try_parse_meta_address_entry_eq)
  show "parse_wrong_discriminator_is_none B"
    by (simp add: parse_wrong_discriminator_is_none_def try_parse_meta_address_entry_eq
        take_replicate no_zero_discriminator)
qed

end
