(* ===== verification/Core_Tests.thy ===== *)
theory Core_Tests
  imports Service_Tests Stealth_Signing
begin

text \<open>
  The unit tests of the SDK's cryptographic core (\<open>keys.rs\<close>, \<open>sender.rs\<close>, \<open>recipient.rs\<close>,
  \<open>stealth_signing.rs\<close>), run on the model in the way of \<open>Service_Tests\<close>. A test that derives keys or
  a payment from fixed bytes passes provided that the derivation succeeds. Left out are the tests
  that compare with the SLIP-0010 vectors, count view-tag collisions, or assert that two outputs
  of a hash differ.
\<close>

section \<open>Keys and meta-addresses\<close>

definition canonical_message_mainnet_is_exact_spec_bytes :: bool where
  "canonical_message_mainnet_is_exact_spec_bytes =
     (let expected = ''Slnt Protocol: Derive Stealth Keys'' @ [newline, newline] @ ''Version: 1'' @ [newline] @
        ''Network: Mainnet'' @ [newline] @
        ''Warning: Only sign this message in the Slnt wallet or a trusted Slnt integration.'' @ [newline] @
        ''Signing this in any other context will reveal your stealth address scanning ability.'' in
      canonical_message Mainnet = expected \<and> last (canonical_message Mainnet) \<noteq> newline)"

definition canonical_message_differs_per_network :: bool where
  "canonical_message_differs_per_network =
     (let m = canonical_message Mainnet; d = canonical_message Devnet; t = canonical_message Testnet in
      m \<noteq> d \<and> m \<noteq> t \<and> d \<noteq> t \<and>
      str_contains ''Network: Devnet'' d \<and> str_contains ''Network: Testnet'' t)"

text \<open>The signature of the tests in \<open>keys.rs\<close>: the bytes from 1 to 64.\<close>

definition TEST_SIG :: bytes where
  "TEST_SIG = map of_nat [1..<65]"

definition derive_is_deterministic :: "('s, 'p, 'k) crypto \<Rightarrow> bool" where
  "derive_is_deterministic C =
     unwrapped (derive_stealth_keys C TEST_SIG) (\<lambda>(s1, sc1).
     unwrapped (derive_stealth_keys C TEST_SIG) (\<lambda>(s2, sc2).
       spend_public_bytes C s1 = spend_public_bytes C s2 \<and>
       scan_public_bytes sc1 = scan_public_bytes sc2 \<and>
       scalar_to_bytes C (spend_scalar s1) = scalar_to_bytes C (spend_scalar s2) \<and>
       scan_raw sc1 = scan_raw sc2))"

definition b_spend_point_matches_scalar_times_basepoint :: "('s, 'p, 'k) crypto \<Rightarrow> bool" where
  "b_spend_point_matches_scalar_times_basepoint C =
     unwrapped (derive_stealth_keys C TEST_SIG) (\<lambda>(s, _).
       let expected = point_mul C (spend_scalar s) (basepoint C) in
       compress C (spend_point s) = compress C expected)"

definition meta_address_roundtrip_unlabeled :: "('s, 'p, 'k) crypto \<Rightarrow> 'h bech32_lib \<Rightarrow> bool" where
  "meta_address_roundtrip_unlabeled C L =
     unwrapped (derive_stealth_keys C TEST_SIG) (\<lambda>(spend, scan).
       let meta = from_keys C spend scan in
       unwrapped (encode_bech32m L meta) (\<lambda>encoded.
         starts_with ''slnt1'' encoded \<and>
         unwrapped (decode_bech32m L encoded) (\<lambda>decoded. meta = decoded)))"

text \<open>The struct literal of the next three tests.\<close>

definition test_meta ::
  "('s, 'p, 'k) crypto \<Rightarrow> ('s, 'p) spend_key \<Rightarrow> 'k scan_key \<Rightarrow> u8 \<Rightarrow> u32 \<Rightarrow> u8 \<Rightarrow> meta_address" where
  "test_meta C spend scan version label_index flags =
     \<lparr>ma_version = version, ma_b_spend = spend_public_bytes C spend, ma_b_scan = scan_public_bytes scan,
      ma_label_index = label_index, ma_flags = flags\<rparr>"

definition meta_address_roundtrip_labeled :: "('s, 'p, 'k) crypto \<Rightarrow> 'h bech32_lib \<Rightarrow> bool" where
  "meta_address_roundtrip_labeled C L =
     unwrapped (derive_stealth_keys C TEST_SIG) (\<lambda>(spend, scan).
       let meta = test_meta C spend scan META_ADDRESS_VERSION_V1 12345 0 in
       unwrapped (encode_bech32m L meta) (\<lambda>encoded.
       unwrapped (decode_bech32m L encoded) (\<lambda>decoded.
         meta = decoded \<and> ma_label_index decoded = 12345)))"

definition meta_address_rejects_wrong_hrp :: "'h bech32_lib \<Rightarrow> bool" where
  "meta_address_rejects_wrong_hrp L =
     (let bogus = ''bc1qw508d6qejxtdg4y5r3zarvary0c5xw7kygt080'' in is_err (decode_bech32m L bogus))"

definition meta_address_rejects_unsupported_version :: "('s, 'p, 'k) crypto \<Rightarrow> 'h bech32_lib \<Rightarrow> bool" where
  "meta_address_rejects_unsupported_version C L =
     unwrapped (derive_stealth_keys C TEST_SIG) (\<lambda>(spend, scan).
       let meta = test_meta C spend scan 0x02 0 0 in
       unwrapped (encode_bech32m L meta) (\<lambda>encoded.
         decode_bech32m L encoded = Err (UnsupportedVersion 0x02)))"

definition meta_address_rejects_nonzero_flags :: "('s, 'p, 'k) crypto \<Rightarrow> 'h bech32_lib \<Rightarrow> bool" where
  "meta_address_rejects_nonzero_flags C L =
     unwrapped (derive_stealth_keys C TEST_SIG) (\<lambda>(spend, scan).
       let meta = test_meta C spend scan META_ADDRESS_VERSION_V1 0 0x01 in
       unwrapped (encode_bech32m L meta) (\<lambda>encoded. is_err (decode_bech32m L encoded)))"

definition checked_derivation_rejects_nondeterministic_signatures :: "('s, 'p, 'k) crypto \<Rightarrow> bool" where
  "checked_derivation_rejects_nondeterministic_signatures C =
     (let other = TEST_SIG[0 := (TEST_SIG ! 0) XOR 0x01] in
      derive_stealth_keys_checked C TEST_SIG other = Err NonDeterministicSignature)"

definition checked_derivation_accepts_matching_signatures :: "('s, 'p, 'k) crypto \<Rightarrow> bool" where
  "checked_derivation_accepts_matching_signatures C =
     unwrapped (derive_stealth_keys_checked C TEST_SIG TEST_SIG) (\<lambda>(a, _).
     unwrapped (derive_stealth_keys C TEST_SIG) (\<lambda>(b, _).
       spend_public_bytes C a = spend_public_bytes C b))"

definition labeled_meta_address_encodes_tweaked_spend_key :: "('s, 'p, 'k) crypto \<Rightarrow> bool" where
  "labeled_meta_address_encodes_tweaked_spend_key C =
     unwrapped (derive_stealth_keys C TEST_SIG) (\<lambda>(spend, scan).
       let label_index = 5 in
       unwrapped (for_label C spend scan label_index :: (unit, meta_address) outcome) (\<lambda>meta.
       unwrapped (label_tweak_scalar C scan label_index :: (unit, 's) outcome) (\<lambda>m_i.
         let expected = compress C (point_add C (spend_point spend) (point_mul C m_i (basepoint C))) in
         ma_label_index meta = label_index \<and> ma_b_spend meta = expected \<and>
         ma_b_scan meta = scan_public_bytes scan)))"

definition label_zero_is_unlabeled :: "('s, 'p, 'k) crypto \<Rightarrow> bool" where
  "label_zero_is_unlabeled C =
     unwrapped (derive_stealth_keys C TEST_SIG) (\<lambda>(spend, scan).
     unwrapped (for_label C spend scan 0 :: (unit, meta_address) outcome) (\<lambda>meta0.
       let plain = from_keys C spend scan in meta0 = plain))"

definition hd_rejects_out_of_range_seed_length :: "('s, 'p, 'k) crypto \<Rightarrow> bool" where
  "hd_rejects_out_of_range_seed_length C =
     (derive_stealth_keys_hd C (replicate 15 0) 0 = Err (InvalidSeedLength 15) \<and>
      derive_stealth_keys_hd C (replicate 65 0) 0 = Err (InvalidSeedLength 65) \<and>
      is_ok (derive_stealth_keys_hd C (replicate 16 0) 0) \<and>
      is_ok (derive_stealth_keys_hd C (replicate 64 0) 0))"

definition hd_derivation_is_deterministic :: "('s, 'p, 'k) crypto \<Rightarrow> bool" where
  "hd_derivation_is_deterministic C =
     (let seed = replicate 64 0x42 in
      unwrapped (derive_stealth_keys_hd C seed 0) (\<lambda>(s1, sc1).
      unwrapped (derive_stealth_keys_hd C seed 0) (\<lambda>(s2, sc2).
        spend_public_bytes C s1 = spend_public_bytes C s2 \<and> scan_public_bytes sc1 = scan_public_bytes sc2)))"

definition hd_spend_point_matches_scalar :: "('s, 'p, 'k) crypto \<Rightarrow> bool" where
  "hd_spend_point_matches_scalar C =
     (let seed = replicate 64 0x07 in
      unwrapped (derive_stealth_keys_hd C seed 0) (\<lambda>(spend, _).
        compress C (point_mul C (spend_scalar spend) (basepoint C)) = compress C (spend_point spend)))"

definition leb128_roundtrip :: bool where
  "leb128_roundtrip =
     list_all (\<lambda>val.
         let buf = write_leb128_u32 [] val in
         unwrapped (read_leb128_u32 buf) (\<lambda>(decoded, consumed). decoded = val \<and> consumed = length buf))
       [0, 1, 127, 128, 255, 256, 16384, 1234567, - 1]"

lemma fixed_key_tests_pass:
  "canonical_message_mainnet_is_exact_spec_bytes" "canonical_message_differs_per_network"
  "checked_derivation_rejects_nondeterministic_signatures C" "leb128_roundtrip"
proof -
  show "canonical_message_mainnet_is_exact_spec_bytes" by code_simp
  show "canonical_message_differs_per_network" by code_simp
  show "checked_derivation_rejects_nondeterministic_signatures C"
  proof -
    have "TEST_SIG ! 0 = 1" "0 < length TEST_SIG" by (simp_all add: TEST_SIG_def nth_map)
    then have "TEST_SIG \<noteq> TEST_SIG[0 := (TEST_SIG ! 0) XOR 0x01]" by (metis nth_list_update_eq xor_self_eq one_neq_zero)
    then show ?thesis
      by (simp add: checked_derivation_rejects_nondeterministic_signatures_def derive_stealth_keys_checked_def)
  qed
  have "read_leb128_u32 (leb128 v) = Ok (v, length (leb128 v))" for v
    using read_leb128_write [of v "[]"] by simp
  then show "leb128_roundtrip" by (simp add: leb128_roundtrip_def)
qed

text \<open>The tests on derived keys: everything but the seed lengths needs one derivation only.\<close>

lemma derived_key_tests_pass:
  assumes "derive_stealth_keys C TEST_SIG = Ok (spend, scan)"
  shows "derive_is_deterministic C" "b_spend_point_matches_scalar_times_basepoint C"
    "checked_derivation_accepts_matching_signatures C" "label_zero_is_unlabeled C"
    "hash_laws C \<Longrightarrow> labeled_meta_address_encodes_tweaked_spend_key C"
proof -
  have "wf_spend C spend" using derive_stealth_keys_wf [OF assms] by blast
  then show "b_spend_point_matches_scalar_times_basepoint C"
    by (simp add: b_spend_point_matches_scalar_times_basepoint_def assms wf_spend_def)
  show "derive_is_deterministic C" "checked_derivation_accepts_matching_signatures C" "label_zero_is_unlabeled C"
    by (simp_all add: derive_is_deterministic_def assms checked_derivation_accepts_matching_signatures_def
        derive_stealth_keys_checked_def label_zero_is_unlabeled_def for_label_def)
  show "labeled_meta_address_encodes_tweaked_spend_key C" if laws: "hash_laws C"
  proof -
    obtain tweak where "label_tweak_scalar C scan 5 = (Ok tweak :: (unit, _) outcome)"
      using label_tweak_total [OF laws] by blast
    then show ?thesis
      by (simp add: labeled_meta_address_encodes_tweaked_spend_key_def assms for_label_def)
  qed
qed

lemma hd_tests_pass:
  "derive_stealth_keys_hd C (replicate 16 0) 0 = Ok a \<Longrightarrow> derive_stealth_keys_hd C (replicate 64 0) 0 = Ok b \<Longrightarrow>
     hd_rejects_out_of_range_seed_length C"
  "derive_stealth_keys_hd C (replicate 64 0x42) 0 = Ok c \<Longrightarrow> hd_derivation_is_deterministic C"
  "derive_stealth_keys_hd C (replicate 64 0x07) 0 = Ok d \<Longrightarrow> hd_spend_point_matches_scalar C"
proof -
  show "hd_rejects_out_of_range_seed_length C"
    if "derive_stealth_keys_hd C (replicate 16 0) 0 = Ok a" "derive_stealth_keys_hd C (replicate 64 0) 0 = Ok b"
    unfolding hd_rejects_out_of_range_seed_length_def that by (simp add: derive_stealth_keys_hd_def)
  show "hd_derivation_is_deterministic C" if "derive_stealth_keys_hd C (replicate 64 0x42) 0 = Ok c"
    by (simp add: hd_derivation_is_deterministic_def that split: prod.splits)
  show "hd_spend_point_matches_scalar C" if d: "derive_stealth_keys_hd C (replicate 64 0x07) 0 = Ok d"
  proof -
    obtain spend scan where "d = (spend, scan)" by fastforce
    with d have "wf_spend C spend" using derive_stealth_keys_hd_wf by blast
    with d \<open>d = (spend, scan)\<close> show ?thesis by (simp add: hd_spend_point_matches_scalar_def wf_spend_def)
  qed
qed

lemma meta_address_tests_pass:
  assumes "bech32_laws L" "compress_laws C" "dh_laws C" "derive_stealth_keys C TEST_SIG = Ok (spend, scan)"
  shows "bech32_prefix_law L \<Longrightarrow> meta_address_roundtrip_unlabeled C L" "meta_address_roundtrip_labeled C L"
    "meta_address_rejects_unsupported_version C L" "meta_address_rejects_nonzero_flags C L"
proof -
  have fields: "array_fields (test_meta C spend scan v i f)" for v i f
    using derive_stealth_keys_wf(2) [OF assms(4)] assms(2,3)
    by (simp add: array_fields_def test_meta_def spend_public_bytes_def scan_public_bytes_def compress_lawsD
        dh_lawsD wf_scanD)
  have coded: "\<exists>t. encode_bech32m L (test_meta C spend scan v i f) = Ok t \<and> decode_bech32m L t =
      (if v \<noteq> META_ADDRESS_VERSION_V1 then Err (UnsupportedVersion v) else if f \<noteq> 0 then Err (UnsupportedFlags f)
       else Ok (test_meta C spend scan v i f))" for v i f
    using encode_any [OF assms(1) fields, of v i f] by (auto simp: test_meta_def)
  show "meta_address_roundtrip_unlabeled C L" if prefix: "bech32_prefix_law L"
  proof -
    have "from_keys C spend scan = test_meta C spend scan META_ADDRESS_VERSION_V1 0 0"
      by (simp add: from_keys_def test_meta_def)
    then show ?thesis
      using coded [of META_ADDRESS_VERSION_V1 0 0] encoded_starts_with [OF assms(1) prefix]
      by (auto simp: meta_address_roundtrip_unlabeled_def assms(4))
  qed
  show "meta_address_roundtrip_labeled C L"
    using coded [of META_ADDRESS_VERSION_V1 12345 0]
    by (auto simp: meta_address_roundtrip_labeled_def assms(4)) (simp add: test_meta_def)
  show "meta_address_rejects_unsupported_version C L"
    using coded [of 2 0 0] by (auto simp: meta_address_rejects_unsupported_version_def assms(4) META_ADDRESS_VERSION_V1_def)
  show "meta_address_rejects_nonzero_flags C L"
    using coded [of META_ADDRESS_VERSION_V1 0 1] by (auto simp: meta_address_rejects_nonzero_flags_def assms(4))
qed

text \<open>The text of \<open>meta_address_rejects_wrong_hrp\<close> decodes with another part, or not at all.\<close>

lemma wrong_hrp_test_passes:
  assumes "bech32_decode L ''bc1qw508d6qejxtdg4y5r3zarvary0c5xw7kygt080'' \<noteq> Panic"
    and "\<And>h d. bech32_decode L ''bc1qw508d6qejxtdg4y5r3zarvary0c5xw7kygt080'' = Ok (h, d) \<Longrightarrow> hrp_as_str L h = ''bc''"
  shows "meta_address_rejects_wrong_hrp L"
  using assms
  by (cases "bech32_decode L ''bc1qw508d6qejxtdg4y5r3zarvary0c5xw7kygt080''")
    (auto simp: meta_address_rejects_wrong_hrp_def decode_bech32m_def META_ADDRESS_HRP_def)

section \<open>The sender\<close>

text \<open>
  \<open>seeded\<close> is \<open>ChaCha20Rng::seed_from_u64\<close>, \<open>fill\<close> the generator's \<open>fill_bytes\<close>. The signature of these
  tests is 64 sevens.
\<close>

definition derive_payment_is_deterministic_under_fixed_rng ::
  "('s, 'p, 'k) crypto \<Rightarrow> (u64 \<Rightarrow> 'r) \<Rightarrow> ('r \<Rightarrow> nat \<Rightarrow> bytes \<times> 'r) \<Rightarrow> bool" where
  "derive_payment_is_deterministic_under_fixed_rng C seeded fill =
     unwrapped (derive_stealth_keys C (replicate 64 7)) (\<lambda>(spend, scan).
       let meta = from_keys C spend scan; rng1 = seeded 42; rng2 = seeded 42 in
       unwrapped (fst (derive_payment C fill meta rng1)) (\<lambda>p1.
       unwrapped (fst (derive_payment C fill meta rng2)) (\<lambda>p2.
         stealth_address p1 = stealth_address p2 \<and> ephemeral_pub p1 = ephemeral_pub p2 \<and>
         view_tag p1 = view_tag p2)))"

definition derive_payment_rejects_unsupported_meta_fields ::
  "('s, 'p, 'k) crypto \<Rightarrow> (u64 \<Rightarrow> 'r) \<Rightarrow> ('r \<Rightarrow> nat \<Rightarrow> bytes \<times> 'r) \<Rightarrow> bool" where
  "derive_payment_rejects_unsupported_meta_fields C seeded fill =
     unwrapped (derive_stealth_keys C (replicate 64 7)) (\<lambda>(spend, scan).
       let bad_version = (from_keys C spend scan)\<lparr>ma_version := 0x02\<rparr>;
           bad_flags = (from_keys C spend scan)\<lparr>ma_flags := 0x01\<rparr>;
           (r1, rng) = derive_payment C fill bad_version (seeded 7);
           (r2, rng) = derive_payment C fill bad_flags rng
       in is_err r1 \<and> is_err r2)"

definition derive_payment_rejects_small_order_spend_key ::
  "('s, 'p, 'k) crypto \<Rightarrow> (u64 \<Rightarrow> 'r) \<Rightarrow> ('r \<Rightarrow> nat \<Rightarrow> bytes \<times> 'r) \<Rightarrow> bool" where
  "derive_payment_rejects_small_order_spend_key C seeded fill =
     unwrapped (derive_stealth_keys C (replicate 64 7)) (\<lambda>(spend, scan).
       let meta = (from_keys C spend scan)\<lparr>ma_b_spend := (replicate 32 0)[0 := 1]\<rparr>
       in is_err (fst (derive_payment C fill meta (seeded 7))))"

text \<open>\<open>EIGHT_TORSION[1]\<close> is a parameter; the two assertions on the key are part of the test.\<close>

definition derive_payment_rejects_spend_key_with_torsion_component ::
  "('s, 'p, 'k) crypto \<Rightarrow> 'p \<Rightarrow> (u64 \<Rightarrow> 'r) \<Rightarrow> ('r \<Rightarrow> nat \<Rightarrow> bytes \<times> 'r) \<Rightarrow> bool" where
  "derive_payment_rejects_spend_key_with_torsion_component C eight_torsion_1 seeded fill =
     unwrapped (derive_stealth_keys C (replicate 64 7)) (\<lambda>(spend, scan).
       let bad_spend = point_add C (spend_point spend) eight_torsion_1 in
       \<not> is_small_order C bad_spend \<and> \<not> is_torsion_free C bad_spend \<and>
       (let meta = (from_keys C spend scan)\<lparr>ma_b_spend := compress C bad_spend\<rparr>
        in fst (derive_payment C fill meta (seeded 7)) = Err InvalidPoint))"

definition derive_payment_rejects_all_zero_shared_secret ::
  "('s, 'p, 'k) crypto \<Rightarrow> (u64 \<Rightarrow> 'r) \<Rightarrow> ('r \<Rightarrow> nat \<Rightarrow> bytes \<times> 'r) \<Rightarrow> bool" where
  "derive_payment_rejects_all_zero_shared_secret C seeded fill =
     unwrapped (derive_stealth_keys C (replicate 64 7)) (\<lambda>(spend, scan).
       let meta = (from_keys C spend scan)\<lparr>ma_b_scan := replicate 32 0\<rparr>
       in is_err (fst (derive_payment C fill meta (seeded 7))))"

lemma sender_tests_pass:
  assumes "derive_stealth_keys C (replicate 64 7) = Ok (spend, scan)"
  shows "fst (derive_payment C fill (from_keys C spend scan) (seeded 42)) = Ok p \<Longrightarrow>
      derive_payment_is_deterministic_under_fixed_rng C seeded fill"
    and "derive_payment_rejects_unsupported_meta_fields C seeded fill"
    and "(\<And>q. decompress C ((replicate 32 0)[0 := 1]) = Some q \<Longrightarrow> is_small_order C q) \<Longrightarrow>
      derive_payment_rejects_small_order_spend_key C seeded fill"
    and "\<lbrakk>compress_laws C; \<not> is_small_order C (point_add C (spend_point spend) e);
        \<not> is_torsion_free C (point_add C (spend_point spend) e)\<rbrakk> \<Longrightarrow>
      derive_payment_rejects_spend_key_with_torsion_component C e seeded fill"
    and "(\<And>k. shared_secret_is_zero (diffie_hellman C k (replicate 32 0))) \<Longrightarrow>
      derive_payment_rejects_all_zero_shared_secret C seeded fill"
proof -
  show "derive_payment_is_deterministic_under_fixed_rng C seeded fill"
    if "fst (derive_payment C fill (from_keys C spend scan) (seeded 42)) = Ok p"
    by (simp add: derive_payment_is_deterministic_under_fixed_rng_def assms that)
  show "derive_payment_rejects_unsupported_meta_fields C seeded fill"
    by (simp add: derive_payment_rejects_unsupported_meta_fields_def assms derive_payment_def from_keys_def
        META_ADDRESS_VERSION_V1_def)
  show "derive_payment_rejects_small_order_spend_key C seeded fill"
    if "\<And>q. decompress C ((replicate 32 0)[0 := 1]) = Some q \<Longrightarrow> is_small_order C q"
    using that by (simp add: derive_payment_rejects_small_order_spend_key_def assms derive_payment_def
        from_keys_def split: option.split)
  show "derive_payment_rejects_spend_key_with_torsion_component C e seeded fill"
    if "compress_laws C" "\<not> is_small_order C (point_add C (spend_point spend) e)"
      "\<not> is_torsion_free C (point_add C (spend_point spend) e)"
    using that by (simp add: derive_payment_rejects_spend_key_with_torsion_component_def assms derive_payment_def
        from_keys_def compress_lawsD)
  show "derive_payment_rejects_all_zero_shared_secret C seeded fill"
    if "\<And>k. shared_secret_is_zero (diffie_hellman C k (replicate 32 0))"
    using that by (simp add: derive_payment_rejects_all_zero_shared_secret_def assms derive_payment_def
        from_keys_def split_def split: option.split)
qed

section \<open>The recipient\<close>

definition sender_recipient_roundtrip ::
  "('s, 'p, 'k) crypto \<Rightarrow> (u64 \<Rightarrow> 'r) \<Rightarrow> ('r \<Rightarrow> nat \<Rightarrow> bytes \<times> 'r) \<Rightarrow> bool" where
  "sender_recipient_roundtrip C seeded fill =
     unwrapped (derive_stealth_keys C (replicate 64 9)) (\<lambda>(spend, scan).
       let meta = from_keys C spend scan in
       unwrapped (fst (derive_payment C fill meta (seeded 0xc0ffee))) (\<lambda>payment.
       unwrapped (scan_note C spend scan (ephemeral_pub payment) (view_tag payment)) (\<lambda>found.
         case found of
           None \<Rightarrow> False
         | Some matched \<Rightarrow>
             nm_stealth_address matched = stealth_address payment \<and>
             (let recovered_point = point_mul C (nm_stealth_scalar matched) (basepoint C)
              in compress C recovered_point = stealth_address payment))))"

definition labeled_payment_roundtrip ::
  "('s, 'p, 'k) crypto \<Rightarrow> (u64 \<Rightarrow> 'r) \<Rightarrow> ('r \<Rightarrow> nat \<Rightarrow> bytes \<times> 'r) \<Rightarrow> bool" where
  "labeled_payment_roundtrip C seeded fill =
     unwrapped (derive_stealth_keys C (replicate 64 9)) (\<lambda>(spend, scan).
       let label_index = 7 in
       unwrapped (for_label C spend scan label_index :: (slnt_error, meta_address) outcome) (\<lambda>meta.
       unwrapped (fst (derive_payment C fill meta (seeded 0xabc123))) (\<lambda>payment.
       unwrapped (scan_note C spend scan (ephemeral_pub payment) (view_tag payment)) (\<lambda>unlabeled.
         (case unlabeled of None \<Rightarrow> True | Some m \<Rightarrow> nm_stealth_address m \<noteq> stealth_address payment) \<and>
         unwrapped (scan_note_candidates C spend scan (ephemeral_pub payment) (view_tag payment) [label_index])
           (\<lambda>candidates.
             case find (\<lambda>m. nm_stealth_address m = stealth_address payment) candidates of
               None \<Rightarrow> False
             | Some hit \<Rightarrow>
                 nm_label_index hit = label_index \<and>
                 (let recovered = point_mul C (nm_stealth_scalar hit) (basepoint C)
                  in compress C recovered = stealth_address payment))))))"

definition low_order_ephemeral_pub_is_ignored :: "('s, 'p, 'k) crypto \<Rightarrow> bool" where
  "low_order_ephemeral_pub_is_ignored C =
     unwrapped (derive_stealth_keys C (replicate 64 9)) (\<lambda>(spend, scan).
       let zero_secret = replicate 32 0;
           matching_zero_view_tag = compute_view_tag C zero_secret;
           low_order_r = replicate 32 0 in
       unwrapped (scan_note C spend scan low_order_r matching_zero_view_tag) (\<lambda>found. found = None) \<and>
       unwrapped (scan_note_candidates C spend scan low_order_r matching_zero_view_tag [1, 2, 3]) (\<lambda>candidates.
         candidates = []))"

text \<open>
  What the labeled test needs beyond \<open>group_laws\<close>: the base point has the order of the scalars, and
  addition of scalars cancels.
\<close>

definition scalar_group_laws :: "('s, 'p, 'k) crypto \<Rightarrow> bool" where
  "scalar_group_laws C \<longleftrightarrow>
     (\<forall>a b. point_mul C a (basepoint C) = point_mul C b (basepoint C) \<longrightarrow> a = b) \<and>
     (\<forall>a m t. scalar_add C (scalar_add C a m) t = scalar_add C a t \<longrightarrow> m = scalar_zero C)"

lemma scalar_group_laws_toy: "scalar_group_laws toy_crypto"
  by (auto simp: scalar_group_laws_def toy_crypto_def)

lemma roundtrip_test_passes:
  assumes "group_laws C" "compress_laws C" "dh_laws C" "derive_stealth_keys C (replicate 64 9) = Ok (spend, scan)"
    and "derive_payment C fill (from_keys C spend scan) (seeded 0xc0ffee) = (Ok p, rng)"
  shows "sender_recipient_roundtrip C seeded fill"
proof -
  note wf = derive_stealth_keys_wf [OF assms(4)]
  from scan_finds_match [OF assms(1-3) wf assms(5)] show ?thesis
    by (auto simp: sender_recipient_roundtrip_def assms(4,5))
qed

lemma labeled_test_passes:
  assumes "group_laws C" "compress_laws C" "dh_laws C" "hash_laws C" "scalar_group_laws C"
    and keys: "derive_stealth_keys C (replicate 64 9) = Ok (spend, scan)"
    and tweak: "label_tweak_scalar C scan 7 = (Ok tweak :: (slnt_error, 's) outcome)" "tweak \<noteq> scalar_zero C"
    and meta: "for_label C spend scan 7 = (Ok meta :: (slnt_error, meta_address) outcome)"
    and pay: "derive_payment C fill meta (seeded 0xabc123) = (Ok p, rng)"
  shows "labeled_payment_roundtrip C seeded fill"
proof -
  note wf = derive_stealth_keys_wf [OF keys]
  let ?t = "compute_tweak C (diffie_hellman C (scan_secret scan) (ephemeral_pub p)) (view_tag p)"
  let ?c0 = "candidate C spend scan ?t 0" and ?c7 = "candidate C spend scan ?t 7"
  obtain ms m where ms: "scan_note_candidates C spend scan (ephemeral_pub p) (view_tag p) [7] = Ok ms"
    "m \<in> set ms" "nm_label_index m = 7" "nm_stealth_address m = stealth_address p"
    "compress C (point_mul C (nm_stealth_scalar m) (basepoint C)) = stealth_address p"
    using labeled_match [OF assms(1-4) wf meta pay, of "[7]"] by auto
  have tag: "view_tag_matches C scan (ephemeral_pub p) (view_tag p)" and "ms = [?c0, ?c7]"
    using ms(1,2) scan_note_candidates_eq [OF assms(4), of spend scan "ephemeral_pub p" "view_tag p" "[7]"]
    by (auto split: if_splits)
  moreover have label0: "nm_label_index ?c0 = 0" by (simp add: candidate_def Let_def)
  ultimately have m: "m = ?c7" using ms(2,3) by auto
  have "nm_stealth_address ?c0 \<noteq> nm_stealth_address ?c7"
    using tweak assms(5) by (auto simp: candidate_def address_for_scalar_def compress_eq_iff [OF assms(2)]
        scalar_group_laws_def Let_def) metis+
  then have other: "nm_stealth_address ?c0 \<noteq> stealth_address p" using ms(4) m by simp
  have "scan_note C spend scan (ephemeral_pub p) (view_tag p) = Ok (Some ?c0)"
    using scan_note_eq [OF assms(1) wf(1)] tag by simp
  then show ?thesis
    using keys meta pay ms m other \<open>ms = [?c0, ?c7]\<close> by (simp add: labeled_payment_roundtrip_def)
qed

lemma low_order_test_passes:
  assumes "derive_stealth_keys C (replicate 64 9) = Ok keys"
    and "\<And>k. shared_secret_is_zero (diffie_hellman C k (replicate 32 0))"
  shows "low_order_ephemeral_pub_is_ignored C"
  using assms
  by (simp add: low_order_ephemeral_pub_is_ignored_def scan_note_def scan_note_candidates_def split: prod.splits)

section \<open>Signing\<close>

definition random_scalar :: "('s, 'p, 'k) crypto \<Rightarrow> ('r \<Rightarrow> nat \<Rightarrow> bytes \<times> 'r) \<Rightarrow> 'r \<Rightarrow> 's \<times> 'r" where
  "random_scalar C fill rng =
     (let (bs, rng) = fill rng 32 in (from_bytes_mod_order C bs, rng))"

text \<open>\<open>vk.verify\<close> of \<open>ed25519-dalek\<close> is the equation of RFC 8032.\<close>

definition sign_then_verify_via_dalek ::
  "('s, 'p, 'k) crypto \<Rightarrow> (u64 \<Rightarrow> 'r) \<Rightarrow> ('r \<Rightarrow> nat \<Rightarrow> bytes \<times> 'r) \<Rightarrow> bool" where
  "sign_then_verify_via_dalek C seeded fill =
     (let (scalar, _) = random_scalar C fill (seeded 11);
          sk = signing_key_new C scalar;
          msg = ascii ''a stealth payment sweep tx'';
          sig = sign C sk msg in
      unwrapped (verifying_key C sk :: (unit, 'p) outcome) (\<lambda>vk. verifies C (compress C vk) msg sig))"

definition signature_is_deterministic ::
  "('s, 'p, 'k) crypto \<Rightarrow> (u64 \<Rightarrow> 'r) \<Rightarrow> ('r \<Rightarrow> nat \<Rightarrow> bytes \<times> 'r) \<Rightarrow> bool" where
  "signature_is_deterministic C seeded fill =
     (let (scalar, _) = random_scalar C fill (seeded 11);
          sk1 = signing_key_new C scalar; sk2 = signing_key_new C scalar;
          msg = ascii ''twice signed'' in
      sign C sk1 msg = sign C sk2 msg)"

definition public_bytes_match_scalar_times_basepoint ::
  "('s, 'p, 'k) crypto \<Rightarrow> (u64 \<Rightarrow> 'r) \<Rightarrow> ('r \<Rightarrow> nat \<Rightarrow> bytes \<times> 'r) \<Rightarrow> bool" where
  "public_bytes_match_scalar_times_basepoint C seeded fill =
     (let (scalar, _) = random_scalar C fill (seeded 11);
          sk = signing_key_new C scalar;
          expected = compress C (point_mul C scalar (basepoint C)) in
      public_bytes C sk = expected)"

lemma signing_tests_pass:
  assumes "group_laws C" "compress_laws C" "scalar_laws C"
  shows "sign_then_verify_via_dalek C seeded fill" "signature_is_deterministic C seeded fill"
    "public_bytes_match_scalar_times_basepoint C seeded fill"
  using sign_new_verifies [OF assms]
  by (simp_all add: sign_then_verify_via_dalek_def signature_is_deterministic_def verifying_key_def
      public_bytes_match_scalar_times_basepoint_def public_bytes_new address_for_scalar_def
      compress_lawsD [OF assms(2)] split_def)

end
