(* ===== verification/Spec2Isabelle.thy ===== *)
theory Spec2Isabelle
  imports Delivery Announcer_Spec Sdk_Tests Core_Tests
begin

text \<open>
  A model of SLNT, stealth payments on Solana, and the theorems that make it correct.

  \<^bold>\<open>The program.\<close> A recipient derives a spend key and a scan key and publishes a meta-address. A sender
  derives from it a one-time address and pays it, and announces the ephemeral key and a one-byte
  view tag on the pinboard, an on-chain program that only logs notes, either in the same
  transaction, in a transaction of their own, or through an announcement service that publishes in
  batches. The recipient scans notes, from the log stream or from an indexer, recovers the key of
  every payment that is theirs, and sweeps it. A registry program maps a wallet to its
  meta-address.

  \<^bold>\<open>Theories and sources\<close> (paths under \<open>crates/\<close> and \<open>programs/\<close>).
  \<^item> \<open>Prelude\<close>: machine words, the three ways a Rust function ends (\<open>Ok\<close>, \<open>Err\<close>, \<open>Panic\<close>), the
    string and integer functions of the standard library the sources call, list lemmas.
  \<^item> \<open>Interfaces\<close>: the contracts between components as locales, and their lemmas. Each is
    interpreted on the model: \<open>codec\<close> in \<open>Leb128\<close> and \<open>Pinboard_Sdk\<close>, \<open>sized_codec\<close> in
    \<open>Registry_Sdk\<close>, \<open>window\<close> in \<open>Indexer\<close>, \<open>fifo\<close> in \<open>Announcer_Service\<close>, \<open>keyed_store\<close> and
    \<open>invariant_system\<close> in \<open>Registry_Program\<close>, the latter also in \<open>Announcer\<close>, \<open>simulation\<close> in
    \<open>Announcer_Spec\<close>.
  \<^item> \<open>Libs\<close>, \<open>Instances\<close>: the third-party crates as records of functions with their documented
    behaviour as named hypotheses, and concrete values that satisfy them, for the witnesses.
  \<^item> \<open>Errors\<close> (\<open>slnt-sdk/src/error.rs\<close>), \<open>Keys\<close>, \<open>Leb128\<close> and \<open>Meta_Address\<close> (\<open>keys.rs\<close>),
    \<open>Sender\<close> (\<open>sender.rs\<close>), \<open>Recipient\<close> (\<open>recipient.rs\<close>), \<open>Stealth_Signing\<close>
    (\<open>stealth_signing.rs\<close>): the cryptographic core.
  \<^item> \<open>Anchor\<close>: what the two programs share of the framework. \<open>Pinboard_Program\<close>
    (\<open>pinboard/src/lib.rs\<close>) and \<open>Pinboard_Sdk\<close> (\<open>slnt-sdk/src/pinboard.rs\<close>); \<open>Registry_Program\<close>
    (\<open>registry/src/lib.rs\<close>) and \<open>Registry_Sdk\<close> (\<open>slnt-sdk/src/registry.rs\<close>).
  \<^item> \<open>Announce\<close> (\<open>announce.rs\<close>), \<open>Net_Client\<close> (\<open>announce_client.rs\<close>, \<open>scan_stream.rs\<close>), \<open>Flows\<close>
    (\<open>flows.rs\<close>, \<open>sweep.rs\<close>): the rest of the SDK.
  \<^item> \<open>Indexer\<close> (\<open>slnt-indexer/src\<close>), \<open>Announcer_Service\<close> and \<open>Announcer\<close> (\<open>slnt-announcer/src\<close>),
    \<open>Servers\<close> (start-up and routes of both servers, and what the SDK's client sees through them),
    \<open>Cli\<close> (\<open>slnt-cli/src/main.rs\<close>), \<open>Lifecycle\<close> (\<open>slnt-sdk/examples/lifecycle.rs\<close>).
  \<^item> \<open>Announcer_Spec\<close>: the office, what the announcement service promises its clients.
  \<^item> \<open>Service_Tests\<close>, \<open>Sdk_Tests\<close>, \<open>Core_Tests\<close>: the unit tests that stand in the source files, as
    Booleans over the model.
  \<^item> \<open>Delivery\<close>: client, service, pinboard program, log stream, indexer and recipient composed.

  Definitions carry the names of the functions and types they model; a method without a name of
  its own in Isabelle takes its type's name (\<open>signing_key_new\<close>, \<open>announce_client_new\<close>). A struct is
  a record whose fields start with an abbreviation of its name where fields clash.

  \<^bold>\<open>State and interaction.\<close> A method on \<open>&mut self\<close> takes and returns the record. A random
  generator is passed on. An instruction runs as the runtime calls it: argument bytes, account
  checks, handler. The registry's ledger (the program's accounts by address, lamports, events) and
  the announcement service (queue and publisher) are transition systems with an inductive step
  relation; a step of the service is one critical section of its lock, so the relation has every
  interleaving of handlers and publisher. An HTTP request goes through the router to its handler,
  and from the client there and back through a transport (\<open>http_lib\<close>). The SDK reads the registry
  through a node whose \<open>get_account\<close> is a parameter (\<open>serves\<close>). The lifecycle program is a sequence of
  calls on the state of the network, of which a \<open>chain_view\<close> says what the program depends on.

  \<^bold>\<open>What the lemmas show.\<close>
  \<^item> This theory: the protocol end to end, from the signature to a spendable payment.
  \<^item> \<open>Sender\<close>, \<open>Recipient\<close>, \<open>Stealth_Signing\<close>: every payment is found by its recipient, also under
    a label, and the recovered scalar signs for the paid address by the RFC 8032 equation.
  \<^item> \<open>Leb128\<close>, \<open>Meta_Address\<close>, \<open>Pinboard_Sdk\<close>, \<open>Registry_Sdk\<close>, \<open>Announcer_Service\<close>: what one side
    writes the other reads back, and what a reader accepts beyond that.
  \<^item> \<open>Registry_Program\<close>: the three instructions refine a partial map, only its owner changes an
    entry, every reachable ledger is well formed, and the emitted events rebuild the map. Keypairs
    sign, and other programs for their own addresses; an account the program does not own is the
    system program's.
  \<^item> \<open>Pinboard_Program\<close>: which batches are accepted, and what each outcome has emitted.
  \<^item> \<open>Indexer\<close>: the store holds the last announcements of the stream in order, and when a client
    that pages through it sees them all.
  \<^item> \<open>Announcer\<close>: nothing accepted is lost, reordered or published twice, statuses are true, the
    publisher cannot panic and drains its queue, and what it has in flight the pinboard accepts.
  \<^item> \<open>Announcer_Spec\<close>: the service, observed through its requests, answers and batches, refines the
    office: a list of numbered tickets, a list of final statuses and a count of what is taken up. From
    the office follow the numbering, the order of publishing and that final answers stay.
  \<^item> \<open>Servers\<close>: the SDK's client sees over HTTP what the handlers answer, can follow what it submitted,
    how the service starts or fails to, and what becomes of one started without a publisher.
  \<^item> \<open>Delivery\<close>: a payment announced through the service is listed by the indexer and found.
  \<^item> \<open>Lifecycle\<close>: the program always ends, and it succeeds on a cluster that runs, once, a transaction
    that verifies, fits a packet and names a recent blockhash, has a faucet that can pay, and is at most
    nine seconds late with an airdrop and seven with the logs.
  \<^item> \<open>Service_Tests\<close>, \<open>Sdk_Tests\<close>, \<open>Core_Tests\<close>: what the authors assert of the code holds of the model,
    for all keys and crates that keep their documented behaviour where a test has fixed ones.
  \<^item> \<open>Flows\<close>: a payment swept arrives in full less the relayer's part, and which inputs are refused.
  \<^item> \<open>Cli\<close>: the commands agree with each other, and none panics.

  \<^bold>\<open>Bounds and fuel.\<close> No fuel is used. Loops over data are structural; \<open>write_leb128_u32\<close>, \<open>show_nat\<close>,
  \<open>strip_while\<close>, the eviction loops and the trimming of slashes have termination proofs. The
  polling loops of the lifecycle program are partial functions (\<open>None\<close> is not returning), proved to
  return when the clock moves on. The loops that never end in the program (the indexer's
  reconnecting task, the publisher) take the list of what the network does in each round, so a
  theorem holds for every finite run. Integers keep their width wherever the code computes with them; addition that the code leaves unchecked panics
  on overflow, as the workspace's profile has it. A length is a \<open>nat\<close>.

  \<^bold>\<open>Not modelled.\<close> The curve, hashes, HKDF, bech32, base58, base64, hex and borsh's primitives, the
  Solana runtime beyond accounts, signers, rent and lamports, RPC, HTTP, JSON and axum, which are
  parameters or left out; clap's parsing of the command lines (a program starts from its parsed
  arguments) and what is printed for the operator; the timers of the two background loops;
  zeroizing of secrets; the unit tests that compare with recorded outputs of a hash or of JSON, count
  view-tag collisions or assert that two hashes differ, and \<open>tests/\<close>, which all check values of crates
  that are parameters here; the TypeScript packages.
\<close>

section \<open>The life of a payment\<close>

text \<open>C1: the whole protocol, end to end. From the signature over the canonical message the recipient
  derives keys and publishes the meta-address as text; the sender who reads that text recovers the
  meta-address and pays it; the announcement of the payment becomes a pinboard post the program
  accepts; its log line parses as a note; and the recipient who scans that note with the same keys
  finds the address that was paid and signs for it with the recovered scalar.\<close>

theorem payment_lifecycle:
  assumes "bech32_laws L" "text_laws T" "borsh_laws B" "pinboard_discriminators C"
    and "group_laws C" "compress_laws C" "dh_laws C" "scalar_laws C"
    and "derive_stealth_keys C sig = Ok (spend, scan)"
    and "derive_payment C fill (from_keys C spend scan) rng = (Ok p, rng')"
    and "length metadata \<le> 64"
  shows "\<exists>t a ix body n ev m.
    encode_bech32m L (from_keys C spend scan) = Ok t \<and>
    decode_bech32m L t = Ok (from_keys C spend scan) \<and>
    from_payment p metadata = Ok a \<and>
    to_post_instruction B a pid payer = (Ok ix :: (slnt_error, instruction) outcome) \<and>
    data ix = discriminator C ''global'' ''post'' @ body \<and>
    run_post B (accounts ix) body = ([n], Ok ()) \<and>
    try_parse_note_log T B (note_log_line C T B n) = Ok (Some ev) \<and>
    ev_scheme_id ev = 1 \<and> ev_metadata ev = metadata \<and>
    scan_note C spend scan (ev_ephemeral_pub ev) (ev_view_tag ev) = Ok (Some m) \<and>
    nm_stealth_address m = stealth_address p \<and>
    verifies C (stealth_address p) message (sign C (signing_key_new C (nm_stealth_scalar m)) message)"
proof -
  note wf = derive_stealth_keys_wf [OF assms(9)]
  have "wf_meta (from_keys C spend scan)" using assms(6,7) wf by (intro from_keys_wf)
  then obtain t where t: "encode_bech32m L (from_keys C spend scan) = Ok t"
      "decode_bech32m L t = Ok (from_keys C spend scan)"
    using encode_printable [OF assms(1)] by blast
  obtain m where m: "scan_note C spend scan (ephemeral_pub p) (view_tag p) = Ok (Some m)"
      "nm_stealth_address m = stealth_address p"
      "compress C (point_mul C (nm_stealth_scalar m) (basepoint C)) = stealth_address p"
    using scan_finds_match [OF assms(5-7) wf assms(10)] by blast
  have sig: "verifies C (stealth_address p) message (sign C (signing_key_new C (nm_stealth_scalar m)) message)"
    using sign_new_verifies [OF assms(5,6,8), of "nm_stealth_scalar m" message] m(3)
    by (simp add: public_bytes_new address_for_scalar_def)
  have "is_array 32 (ephemeral_pub p)"
    using assms(10) by (rule derive_payment_Ok) (simp add: dh_lawsD [OF assms(7)])
  from sdk_post_accepted [OF assms(2-4) this assms(11), of pid payer SCHEME_ID_V1 "view_tag p"]
  obtain ix body n where post:
    "build_post_instruction B pid payer SCHEME_ID_V1 (ephemeral_pub p) (view_tag p) metadata =
       (Ok ix :: (slnt_error, instruction) outcome)"
    "data ix = POST_DISCRIMINATOR @ body" "run_post B (accounts ix) body = ([n], Ok ())"
    "try_parse_note_log T B (note_log_line C T B n) = Ok (Some \<lparr>ev_scheme_id = SCHEME_ID_V1,
       ev_ephemeral_pub = ephemeral_pub p, ev_view_tag = view_tag p, ev_metadata = metadata\<rparr>)" by blast
  let ?a = "\<lparr>an_scheme_id = SCHEME_ID_V1, an_ephemeral_pub = ephemeral_pub p,
    an_view_tag = view_tag p, an_metadata = metadata\<rparr>"
  let ?ev = "\<lparr>ev_scheme_id = SCHEME_ID_V1, ev_ephemeral_pub = ephemeral_pub p,
    ev_view_tag = view_tag p, ev_metadata = metadata\<rparr>"
  have "from_payment p metadata = Ok ?a"
    using assms(11) by (simp add: from_payment_def ANNOUNCE_MAX_METADATA_LEN_def)
  moreover have "to_post_instruction B ?a pid payer = (Ok ix :: (slnt_error, instruction) outcome)"
    using post(1) by (simp add: to_post_instruction_def)
  ultimately show ?thesis
    using t m sig post(2-4) assms(4)
    by (intro exI [of _ t] exI [of _ ?a] exI [of _ ix] exI [of _ body] exI [of _ n] exI [of _ ?ev] exI [of _ m])
      (simp add: pinboard_discriminators_def SCHEME_ID_V1_def)
qed

theorem payment_lifecycle_witness:
  "\<exists>sig spend scan p. derive_stealth_keys pin_crypto sig = Ok (spend, scan) \<and>
     derive_payment pin_crypto toy_fill (from_keys pin_crypto spend scan) 3 = (Ok p, 4) \<and>
     (\<exists>k. verifies pin_crypto (stealth_address p) [1, 2]
        (sign pin_crypto (signing_key_new pin_crypto k) [1, 2]))"
proof -
  obtain p where pay:
    "derive_payment pin_crypto toy_fill (from_keys pin_crypto toy_spend toy_scan) 3 = (Ok p, 4)"
    using pin_payment by blast
  from payment_lifecycle [OF bech32_laws_plain text_laws_hex_text borsh_laws_le pinboard_discriminators_pin
      pin_crypto_laws(1,2,4,3) pin_keys pay, of "[]" "[1]" "[2]" "[1, 2]"] pin_keys pay
  show ?thesis by (intro exI [of _ toy_sig] exI [of _ toy_spend] exI [of _ toy_scan] exI [of _ p]) auto
qed

end
